(* ===== verification/Prelude.thy ===== *)
theory Prelude
  imports Main "HOL-Library.Word" "HOL-Library.Monad_Syntax"
begin

text \<open>
  Shared vocabulary of the development: the machine integers of the kernel, the outcome of code
  that may panic, fixed-size arrays with Rust's bounds check, the early-return search loop that
  most components contain, and the word facts the components share.

  The kernel image is built from the debug profile (\<open>tools/image-builder/build.rs\<close> takes
  \<open>target/x86_64-unknown-none/debug/unbound-kernel\<close>), so every plain \<open>+\<close>, \<open>-\<close> and \<open>*\<close> on an
  integer is overflow-checked and an overflow reaches the panic handler, as does an array index
  out of range.  Both are the value \<open>panic\<close> of the type \<open>'a run\<close>.
\<close>

unbundle bit_operations_syntax

section \<open>Machine integers and outcomes\<close>

type_synonym u8 = "8 word"
type_synonym u16 = "16 word"
type_synonym u32 = "32 word"
type_synonym u64 = "64 word"

text \<open>A \<open>usize\<close> used as a count or an index is a natural number; its arithmetic is checked below.\<close>

type_synonym usize = nat

text \<open>The outcome of code that may panic.  A Rust \<open>Option<T>\<close> result is a \<open>'t option run\<close>.\<close>

type_synonym 'a run = "'a option"

abbreviation (input) ret :: "'a \<Rightarrow> 'a run" where
  "ret \<equiv> Some"

abbreviation (input) panic :: "'a run" where
  "panic \<equiv> None"

text \<open>The proof collections: equations that evaluate checked code, and invariants of components.\<close>

named_theorems run_simps
named_theorems inv_intros

declare Option.bind_cong [fundef_cong]

section \<open>Checked arithmetic\<close>

definition checked_add :: "'a::len word \<Rightarrow> 'a word \<Rightarrow> 'a word option" where
  "checked_add a b = (if unat a + unat b < 2 ^ LENGTH('a) then Some (a + b) else None)"

definition checked_mul :: "'a::len word \<Rightarrow> 'a word \<Rightarrow> 'a word option" where
  "checked_mul a b = (if unat a * unat b < 2 ^ LENGTH('a) then Some (a * b) else None)"

definition checked_sub :: "'a::len word \<Rightarrow> 'a word \<Rightarrow> 'a word option" where
  "checked_sub a b = (if b \<le> a then Some (a - b) else None)"

text \<open>The plain operators of the debug profile panic exactly where the checked ones return \<open>None\<close>.\<close>

abbreviation (input) padd :: "'a::len word \<Rightarrow> 'a word \<Rightarrow> 'a word run" where
  "padd \<equiv> checked_add"

abbreviation (input) psub :: "'a::len word \<Rightarrow> 'a word \<Rightarrow> 'a word run" where
  "psub \<equiv> checked_sub"

definition usize_add :: "usize \<Rightarrow> usize \<Rightarrow> usize run" where
  "usize_add a b = (if a + b < 2 ^ 64 then ret (a + b) else panic)"

definition usize_sub :: "usize \<Rightarrow> usize \<Rightarrow> usize run" where
  "usize_sub a b = (if b \<le> a then ret (a - b) else panic)"

lemma checked_add_SomeD:
  fixes a b :: "'a::len word"
  assumes "checked_add a b = Some c"
  shows "c = a + b" and "unat c = unat a + unat b"
  using assms by (auto simp: checked_add_def unat_word_ariths split: if_splits)

lemma checked_sub_SomeD:
  fixes a b :: "'a::len word"
  assumes "checked_sub a b = Some c"
  shows "c = a - b" and "unat c = unat a - unat b"
  using assms by (auto simp: checked_sub_def unat_sub split: if_splits)

lemma checked_mul_SomeD:
  fixes a b :: "'a::len word"
  assumes "checked_mul a b = Some c"
  shows "c = a * b" and "unat c = unat a * unat b"
  using assms by (auto simp: checked_mul_def unat_word_ariths split: if_splits)

lemma checked_add_ret [run_simps]:
  fixes a b :: "'a::len word"
  shows "unat a + unat b < 2 ^ LENGTH('a) \<Longrightarrow> checked_add a b = Some (a + b)"
  by (simp add: checked_add_def)

lemma checked_sub_ret [run_simps]:
  fixes a b :: "'a::len word"
  shows "b \<le> a \<Longrightarrow> checked_sub a b = Some (a - b)"
  by (simp add: checked_sub_def)

lemma usize_add_ret [run_simps]: "a + b < 2 ^ 64 \<Longrightarrow> usize_add a b = ret (a + b)"
  by (simp add: usize_add_def)

lemma usize_sub_ret [run_simps]: "b \<le> a \<Longrightarrow> usize_sub a b = ret (a - b)"
  by (simp add: usize_sub_def)

lemma usize_add_SomeD: "usize_add a b = ret c \<Longrightarrow> c = a + b"
  by (auto simp: usize_add_def split: if_splits)

lemma usize_sub_SomeD: "usize_sub a b = ret c \<Longrightarrow> c = a - b \<and> b \<le> a"
  by (auto simp: usize_sub_def split: if_splits)

lemma unat_bound: "unat (w :: 'a::len word) < 2 ^ LENGTH('a)"
  by (rule unsigned_less)

lemma of_nat_unat_id: "of_nat (unat w) = (w :: 'a::len word)"
  by simp

lemma unat_of_nat_small: "n < 2 ^ LENGTH('a) \<Longrightarrow> unat (of_nat n :: 'a::len word) = n"
  by (simp add: unat_of_nat take_bit_eq_mod)

section \<open>Fixed-size arrays\<close>

text \<open>\<open>a[i]\<close> and \<open>a[i] = v\<close> panic when \<open>i\<close> is not below the length.\<close>

definition arr_get :: "'a list \<Rightarrow> usize \<Rightarrow> 'a run" where
  "arr_get xs i = (if i < length xs then ret (xs ! i) else panic)"

definition arr_set :: "'a list \<Rightarrow> usize \<Rightarrow> 'a \<Rightarrow> 'a list run" where
  "arr_set xs i v = (if i < length xs then ret (xs[i := v]) else panic)"

lemma arr_get_ret [run_simps]: "i < length xs \<Longrightarrow> arr_get xs i = ret (xs ! i)"
  by (simp add: arr_get_def)

lemma arr_set_ret [run_simps]: "i < length xs \<Longrightarrow> arr_set xs i v = ret (xs[i := v])"
  by (simp add: arr_set_def)

section \<open>Searching an array from the front\<close>

text \<open>
  \<open>for index in 0..N { if p(a[index]) { ...; return } }\<close>: the index at which the body returns,
  or \<open>None\<close> when the loop runs to its end.
\<close>

fun first_index :: "('a \<Rightarrow> bool) \<Rightarrow> 'a list \<Rightarrow> usize option" where
  "first_index p [] = None"
| "first_index p (x # xs) = (if p x then Some 0 else map_option Suc (first_index p xs))"

lemma first_index_None: "first_index p xs = None \<longleftrightarrow> (\<forall>x \<in> set xs. \<not> p x)"
  by (induction xs) auto

lemma first_index_Some:
  "first_index p xs = Some i \<longleftrightarrow> i < length xs \<and> p (xs ! i) \<and> (\<forall>j < i. \<not> p (xs ! j))"
proof (induction xs arbitrary: i)
  case Nil
  then show ?case by simp
next
  case (Cons x xs)
  then show ?case
    by (cases i) (auto simp: nth_Cons' less_Suc_eq_0_disj split: if_splits)
qed

lemma first_index_SomeD:
  assumes "first_index p xs = Some i"
  shows "i < length xs" and "p (xs ! i)" and "\<And>j. j < i \<Longrightarrow> \<not> p (xs ! j)"
  using assms by (auto simp: first_index_Some)

lemma first_index_ex: "x \<in> set xs \<Longrightarrow> p x \<Longrightarrow> \<exists>i. first_index p xs = Some i"
  by (metis first_index_None not_None_eq)

text \<open>The number of array slots that satisfy a predicate changes by one with one slot.\<close>

lemma length_filter_update:
  assumes "i < length xs"
  shows "length (filter p (xs[i := v])) + (if p (xs ! i) then 1 else 0)
       = length (filter p xs) + (if p v then 1 else 0)"
  using assms
proof (induction xs arbitrary: i)
  case Nil
  then show ?case by simp
next
  case (Cons x xs)
  show ?case
  proof (cases i)
    case 0
    then show ?thesis by simp
  next
    case (Suc k)
    with Cons.prems have "k < length xs" by simp
    from Cons.IH [OF this] Suc show ?thesis by auto
  qed
qed

lemma length_filter_pos: "i < length xs \<Longrightarrow> p (xs ! i) \<Longrightarrow> 0 < length (filter p xs)"
  by (metis length_greater_0_conv filter_empty_conv nth_mem)

end
