(* ===== verification/Frame_Allocator.thy ===== *)
theory Frame_Allocator
  imports Prelude
begin

text \<open>
  The physical memory manager (\<open>memory/frame_allocator.rs\<close>): two bitmaps over the frames of the first
  4 GiB, built from the E820 map of the boot loader (\<open>boot_info.rs\<close>), first-fit allocation and
  release.  The two static bitmaps and the counter of the \<open>FrameAllocator\<close> form one state record.

  The bitmaps are read as sets of frame numbers.  The contract of the manager towards the page
  tables and the heap is the locale \<open>frame_pool\<close>.
\<close>

section \<open>State\<close>

definition FRAME_SIZE :: u64 where
  "FRAME_SIZE = 4096"

definition MAX_PHYSICAL_MEMORY :: u64 where
  "MAX_PHYSICAL_MEMORY = 4 * 1024 * 1024 * 1024"

definition MAX_FRAMES :: usize where
  "MAX_FRAMES = unat (MAX_PHYSICAL_MEMORY div FRAME_SIZE)"

definition BITMAP_SIZE :: usize where
  "BITMAP_SIZE = MAX_FRAMES div 8"

record MemoryMapEntry =
  base_addr :: u64
  region_length :: u64
  entry_type :: u32
  attributes :: u32

record FrameAllocator =
  frame_bitmap :: "u8 list"
  allocated_bitmap :: "u8 list"
  free_frames :: usize

text \<open>The statics before initialisation, and \<open>FrameAllocator::empty\<close>.\<close>

definition FrameAllocator_empty :: FrameAllocator where
  "FrameAllocator_empty =
     \<lparr>frame_bitmap = replicate BITMAP_SIZE 0, allocated_bitmap = replicate BITMAP_SIZE 0, free_frames = 0\<rparr>"

section \<open>Bits of a bitmap\<close>

definition bitmap_test :: "u8 list \<Rightarrow> usize \<Rightarrow> bool run" where
  "bitmap_test bm frame = do {
     byte \<leftarrow> arr_get bm (frame div 8);
     let mask = push_bit (frame mod 8) 1;
     ret (byte AND mask \<noteq> 0) }"

definition bitmap_mark :: "u8 list \<Rightarrow> usize \<Rightarrow> u8 list run" where
  "bitmap_mark bm frame = do {
     byte \<leftarrow> arr_get bm (frame div 8);
     arr_set bm (frame div 8) (byte OR push_bit (frame mod 8) 1) }"

definition bitmap_unmark :: "u8 list \<Rightarrow> usize \<Rightarrow> u8 list run" where
  "bitmap_unmark bm frame = do {
     byte \<leftarrow> arr_get bm (frame div 8);
     arr_set bm (frame div 8) (byte AND NOT (push_bit (frame mod 8) 1)) }"

definition FrameAllocator_is_used :: "usize \<Rightarrow> FrameAllocator \<Rightarrow> bool run" where
  "FrameAllocator_is_used frame fa = bitmap_test (frame_bitmap fa) frame"

definition FrameAllocator_mark_used :: "usize \<Rightarrow> FrameAllocator \<Rightarrow> FrameAllocator run" where
  "FrameAllocator_mark_used frame fa = do {
     bm \<leftarrow> bitmap_mark (frame_bitmap fa) frame; ret (fa\<lparr>frame_bitmap := bm\<rparr>) }"

definition FrameAllocator_mark_free :: "usize \<Rightarrow> FrameAllocator \<Rightarrow> FrameAllocator run" where
  "FrameAllocator_mark_free frame fa = do {
     bm \<leftarrow> bitmap_unmark (frame_bitmap fa) frame; ret (fa\<lparr>frame_bitmap := bm\<rparr>) }"

definition FrameAllocator_is_allocated :: "usize \<Rightarrow> FrameAllocator \<Rightarrow> bool run" where
  "FrameAllocator_is_allocated frame fa = bitmap_test (allocated_bitmap fa) frame"

definition FrameAllocator_mark_allocated :: "usize \<Rightarrow> FrameAllocator \<Rightarrow> FrameAllocator run" where
  "FrameAllocator_mark_allocated frame fa = do {
     bm \<leftarrow> bitmap_mark (allocated_bitmap fa) frame; ret (fa\<lparr>allocated_bitmap := bm\<rparr>) }"

definition FrameAllocator_mark_unallocated :: "usize \<Rightarrow> FrameAllocator \<Rightarrow> FrameAllocator run" where
  "FrameAllocator_mark_unallocated frame fa = do {
     bm \<leftarrow> bitmap_unmark (allocated_bitmap fa) frame; ret (fa\<lparr>allocated_bitmap := bm\<rparr>) }"

section \<open>Operations\<close>

definition align_up :: "u64 \<Rightarrow> u64 \<Rightarrow> u64 run" where
  "align_up value alignment =
     (if value mod alignment = 0 then ret value
      else do { gap \<leftarrow> psub alignment (value mod alignment); padd value gap })"

definition align_down :: "u64 \<Rightarrow> u64 \<Rightarrow> u64 run" where
  "align_down value alignment = psub value (value mod alignment)"

definition frame_of :: "u64 \<Rightarrow> usize" where
  "frame_of address = unat (address div FRAME_SIZE)"

text \<open>The body of the loop over a usable region: release one frame.\<close>

definition release_step :: "usize \<Rightarrow> FrameAllocator \<Rightarrow> FrameAllocator run" where
  "release_step frame fa =
     (if frame < MAX_FRAMES then do {
        used \<leftarrow> FrameAllocator_is_used frame fa;
        if used then do {
          fa \<leftarrow> FrameAllocator_mark_free frame fa;
          n \<leftarrow> usize_add (free_frames fa) 1;
          ret (fa\<lparr>free_frames := n\<rparr>) }
        else ret fa }
      else ret fa)"

text \<open>The body of the loop of \<open>reserve_range\<close>.\<close>

definition reserve_step :: "usize \<Rightarrow> FrameAllocator \<Rightarrow> FrameAllocator run" where
  "reserve_step frame fa =
     (if frame < MAX_FRAMES then do {
        used \<leftarrow> FrameAllocator_is_used frame fa;
        if \<not> used then do {
          fa \<leftarrow> FrameAllocator_mark_used frame fa;
          n \<leftarrow> usize_sub (free_frames fa) 1;
          ret (fa\<lparr>free_frames := n\<rparr>) }
        else ret fa }
      else ret fa)"

text \<open>\<open>while address < end { body(address / FRAME_SIZE); address += FRAME_SIZE; }\<close>\<close>

function each_frame :: "(usize \<Rightarrow> FrameAllocator \<Rightarrow> FrameAllocator run) \<Rightarrow> u64 \<Rightarrow> u64 \<Rightarrow> FrameAllocator
    \<Rightarrow> FrameAllocator run" where
  "each_frame body address end_addr fa =
     (if address < end_addr then do {
        fa \<leftarrow> body (frame_of address) fa;
        address \<leftarrow> padd address FRAME_SIZE;
        each_frame body address end_addr fa }
      else ret fa)"
  by auto
termination
  by (relation "measure (\<lambda>(body, address, end_addr, fa). unat end_addr - unat address)")
    (auto dest!: checked_add_SomeD(2) simp: word_less_nat_alt FRAME_SIZE_def)

declare each_frame.simps [simp del]

definition FrameAllocator_reserve_range :: "u64 \<Rightarrow> u64 \<Rightarrow> FrameAllocator \<Rightarrow> FrameAllocator run" where
  "FrameAllocator_reserve_range start end_addr fa = do {
     start \<leftarrow> align_down start FRAME_SIZE;
     end_addr \<leftarrow> align_up end_addr FRAME_SIZE;
     each_frame reserve_step start end_addr fa }"

text \<open>One entry of the memory map; \<open>continue\<close> leaves the state alone.\<close>

definition release_entry :: "MemoryMapEntry \<Rightarrow> FrameAllocator \<Rightarrow> FrameAllocator run" where
  "release_entry entry fa =
     (if entry_type entry \<noteq> 1 then ret fa
      else do {
        region_start \<leftarrow> align_up (base_addr entry) FRAME_SIZE;
        (case checked_add (base_addr entry) (region_length entry) of
           None \<Rightarrow> ret fa
         | Some e \<Rightarrow> do {
             region_end \<leftarrow> align_down e FRAME_SIZE;
             if region_end \<le> region_start then ret fa
             else each_frame release_step region_start (min region_end MAX_PHYSICAL_MEMORY) fa }) })"

fun release_map :: "MemoryMapEntry list \<Rightarrow> FrameAllocator \<Rightarrow> FrameAllocator run" where
  "release_map [] fa = ret fa"
| "release_map (entry # entries) fa = do { fa \<leftarrow> release_entry entry fa; release_map entries fa }"

definition FrameAllocator_initialize :: "MemoryMapEntry list \<Rightarrow> u64 \<Rightarrow> u64 \<Rightarrow> FrameAllocator run" where
  "FrameAllocator_initialize memory_map kernel_start kernel_end = do {
     let fa = \<lparr>frame_bitmap = replicate BITMAP_SIZE 0xFF, allocated_bitmap = replicate BITMAP_SIZE 0,
               free_frames = 0\<rparr>;
     fa \<leftarrow> release_map memory_map fa;
     fa \<leftarrow> FrameAllocator_reserve_range 0x00000000 0x00100000 fa;
     fa \<leftarrow> FrameAllocator_reserve_range 0x00008000 0x0000C000 fa;
     fa \<leftarrow> FrameAllocator_reserve_range 0x00020000 0x00024000 fa;
     fa \<leftarrow> FrameAllocator_reserve_range 0x00060000 0x00061000 fa;
     fa \<leftarrow> FrameAllocator_reserve_range 0x00070000 0x00071000 fa;
     fa \<leftarrow> FrameAllocator_reserve_range 0x00090000 0x00091000 fa;
     FrameAllocator_reserve_range kernel_start kernel_end fa }"

text \<open>\<open>for frame in 0..MAX_FRAMES\<close> of \<open>allocate_frame\<close>, from a given frame on.\<close>

function allocate_from :: "usize \<Rightarrow> FrameAllocator \<Rightarrow> (u64 option \<times> FrameAllocator) run" where
  "allocate_from frame fa =
     (if frame < MAX_FRAMES then do {
        used \<leftarrow> FrameAllocator_is_used frame fa;
        if \<not> used then do {
          fa \<leftarrow> FrameAllocator_mark_used frame fa;
          fa \<leftarrow> FrameAllocator_mark_allocated frame fa;
          n \<leftarrow> usize_sub (free_frames fa) 1;
          address \<leftarrow> checked_mul (of_nat frame) FRAME_SIZE;
          ret (Some address, fa\<lparr>free_frames := n\<rparr>) }
        else allocate_from (frame + 1) fa }
      else ret (None, fa))"
  by auto
termination by (relation "measure (\<lambda>(frame, fa). MAX_FRAMES - frame)") auto

declare allocate_from.simps [simp del]

definition FrameAllocator_allocate_frame :: "FrameAllocator \<Rightarrow> (u64 option \<times> FrameAllocator) run" where
  "FrameAllocator_allocate_frame fa = allocate_from 0 fa"

definition FrameAllocator_free_frame :: "u64 \<Rightarrow> FrameAllocator \<Rightarrow> FrameAllocator run" where
  "FrameAllocator_free_frame address fa =
     (if address mod FRAME_SIZE \<noteq> 0 then ret fa
      else let frame = frame_of address in
        if MAX_FRAMES \<le> frame then ret fa
        else do {
          allocated \<leftarrow> FrameAllocator_is_allocated frame fa;
          if \<not> allocated then ret fa
          else do {
            fa \<leftarrow> FrameAllocator_mark_free frame fa;
            fa \<leftarrow> FrameAllocator_mark_unallocated frame fa;
            n \<leftarrow> usize_add (free_frames fa) 1;
            ret (fa\<lparr>free_frames := n\<rparr>) } })"

definition FrameAllocator_free_frames :: "FrameAllocator \<Rightarrow> usize" where
  "FrameAllocator_free_frames fa = free_frames fa"

section \<open>Bitmaps as sets of frames\<close>

lemma MAX_FRAMES_eq: "MAX_FRAMES = 1048576"
  by (simp add: MAX_FRAMES_def MAX_PHYSICAL_MEMORY_def FRAME_SIZE_def)

lemma BITMAP_SIZE_eq: "8 * BITMAP_SIZE = MAX_FRAMES"
  by (simp add: BITMAP_SIZE_def MAX_FRAMES_eq)

definition bits :: "u8 list \<Rightarrow> nat set" where
  "bits bm = {f. f < 8 * length bm \<and> bit (bm ! (f div 8)) (f mod 8)}"

lemma bitmap_test_ret: "f < 8 * length bm \<Longrightarrow> bitmap_test bm f = ret (f \<in> bits bm)"
  by (simp add: bitmap_test_def bits_def arr_get_def push_bit_of_1 and_exp_eq_0_iff_not_bit Let_def
      less_mult_imp_div_less mult.commute)

lemma div_mod_8_eq: "(f::nat) div 8 = g div 8 \<Longrightarrow> f mod 8 = g mod 8 \<Longrightarrow> f = g"
  by (metis div_mult_mod_eq)

lemma bits_update:
  assumes "f < 8 * length bm" and "\<And>k. k < 8 \<Longrightarrow> bit v k = (if k = f mod 8 then b else bit (bm ! (f div 8)) k)"
  shows "bits (bm[f div 8 := v]) = (if b then insert f (bits bm) else bits bm - {f})"
proof -
  have i: "f div 8 < length bm" using assms(1) by (simp add: less_mult_imp_div_less mult.commute)
  have "g \<in> bits (bm[f div 8 := v]) \<longleftrightarrow> (if g = f then b else g \<in> bits bm)" for g
  proof (cases "g div 8 = f div 8")
    case True
    then have "bm[f div 8 := v] ! (g div 8) = v" and "bm ! (g div 8) = bm ! (f div 8)"
      using i by simp_all
    moreover have "g mod 8 = f mod 8 \<longleftrightarrow> g = f" using True div_mod_8_eq by blast
    moreover have "g div 8 < length bm" using i by (simp only: True)
    then have "g < 8 * length bm" by linarith
    ultimately show ?thesis using assms(2) [of "g mod 8"] by (simp add: bits_def)
  next
    case False
    then have "g \<noteq> f" by blast
    with False show ?thesis by (simp add: bits_def)
  qed
  then show ?thesis by (cases b) (simp_all add: set_eq_iff)
qed

lemma bit_1_shifted: "k < 8 \<Longrightarrow> bit (2 ^ n :: u8) k \<longleftrightarrow> k = n"
  by (auto simp: bit_exp_iff)

lemma bitmap_mark_ret:
  assumes "f < 8 * length bm"
  shows "\<exists>bm'. bitmap_mark bm f = ret bm' \<and> length bm' = length bm \<and> bits bm' = insert f (bits bm)"
proof -
  let ?v = "bm ! (f div 8) OR push_bit (f mod 8) 1"
  have "f div 8 < length bm" using assms by (simp add: less_mult_imp_div_less mult.commute)
  then have "bitmap_mark bm f = ret (bm[f div 8 := ?v])"
    by (simp add: bitmap_mark_def run_simps)
  moreover have "bits (bm[f div 8 := ?v]) = (if True then insert f (bits bm) else bits bm - {f})"
    using assms by (intro bits_update) (auto simp: bit_or_iff bit_1_shifted)
  ultimately show ?thesis by simp
qed

lemma bitmap_unmark_ret:
  assumes "f < 8 * length bm"
  shows "\<exists>bm'. bitmap_unmark bm f = ret bm' \<and> length bm' = length bm \<and> bits bm' = bits bm - {f}"
proof -
  let ?v = "bm ! (f div 8) AND NOT (push_bit (f mod 8) 1)"
  have "f div 8 < length bm" using assms by (simp add: less_mult_imp_div_less mult.commute)
  then have "bitmap_unmark bm f = ret (bm[f div 8 := ?v])"
    by (simp add: bitmap_unmark_def run_simps)
  moreover have "bits (bm[f div 8 := ?v]) = (if False then insert f (bits bm) else bits bm - {f})"
    using assms by (intro bits_update) (auto simp: bit_and_iff bit_not_iff bit_1_shifted)
  ultimately show ?thesis by simp
qed

lemma bits_zero: "bits (replicate n 0) = {}"
  by (auto simp: bits_def)

lemma bits_ones: "bits (replicate n 0xFF) = {..<8 * n}"
proof -
  have "bit (0xFF :: u8) k" if "k < 8" for k
  proof -
    have "(0xFF :: u8) = - 1" by simp
    then show ?thesis using that by (simp only: bit_minus_1_iff) simp
  qed
  then show ?thesis
    by (auto simp: bits_def less_mult_imp_div_less mult.commute)
qed

text \<open>
  The abstract manager: the used frames \<open>U\<close> (reserved or handed out) and the frames \<open>A\<close> that were
  handed out.  The counter is the number of frames that are not used.
\<close>

definition pmm :: "FrameAllocator \<Rightarrow> nat set \<Rightarrow> nat set \<Rightarrow> bool" where
  "pmm fa U A \<longleftrightarrow> length (frame_bitmap fa) = BITMAP_SIZE \<and> length (allocated_bitmap fa) = BITMAP_SIZE
     \<and> bits (frame_bitmap fa) = U \<and> bits (allocated_bitmap fa) = A \<and> A \<subseteq> U
     \<and> free_frames fa = card ({..<MAX_FRAMES} - U)"

lemma pmm_used: "pmm fa U A \<Longrightarrow> U \<subseteq> {..<MAX_FRAMES}"
  by (auto simp: pmm_def bits_def BITMAP_SIZE_eq)

lemma pmm_is_used: "pmm fa U A \<Longrightarrow> f < MAX_FRAMES \<Longrightarrow> FrameAllocator_is_used f fa = ret (f \<in> U)"
  by (simp add: FrameAllocator_is_used_def pmm_def bitmap_test_ret BITMAP_SIZE_eq)

lemma pmm_is_allocated: "pmm fa U A \<Longrightarrow> f < MAX_FRAMES \<Longrightarrow> FrameAllocator_is_allocated f fa = ret (f \<in> A)"
  by (simp add: FrameAllocator_is_allocated_def pmm_def bitmap_test_ret BITMAP_SIZE_eq)

lemma card_free_remove:
  "f < MAX_FRAMES \<Longrightarrow> f \<notin> U \<Longrightarrow> card ({..<MAX_FRAMES} - U) = Suc (card ({..<MAX_FRAMES} - insert f U))"
  by (metis DiffI Diff_insert card_Suc_Diff1 finite_Diff finite_lessThan lessThan_iff)

lemma card_free_bound: "card ({..<MAX_FRAMES} - U) \<le> MAX_FRAMES"
  by (metis card_Diff_subset_Int card_lessThan diff_le_self finite_Int finite_lessThan)

lemma release_step_ret:
  assumes pmm: "pmm fa U A" and "f \<notin> A"
  shows "\<exists>fa'. release_step f fa = ret fa' \<and> pmm fa' (U - {f}) A"
proof (cases "f < MAX_FRAMES \<and> f \<in> U")
  case False
  then have "U - {f} = U" using pmm_used [OF pmm] by auto
  with False pmm show ?thesis by (auto simp: release_step_def pmm_is_used)
next
  case True
  then obtain bm where bm: "bitmap_unmark (frame_bitmap fa) f = ret bm" "length bm = BITMAP_SIZE" "bits bm = U - {f}"
    using bitmap_unmark_ret [of f "frame_bitmap fa"] pmm by (auto simp: pmm_def BITMAP_SIZE_eq)
  have card: "card ({..<MAX_FRAMES} - (U - {f})) = free_frames fa + 1"
    using card_free_remove [of f "U - {f}"] True pmm by (simp add: pmm_def insert_absorb)
  then have "free_frames fa + 1 < 2 ^ 64"
    using card_free_bound [of "U - {f}"] by (simp add: MAX_FRAMES_eq)
  then have "release_step f fa = ret (fa\<lparr>frame_bitmap := bm, free_frames := free_frames fa + 1\<rparr>)"
    using True pmm bm(1) by (simp add: release_step_def pmm_is_used FrameAllocator_mark_free_def run_simps)
  moreover have "pmm (fa\<lparr>frame_bitmap := bm, free_frames := free_frames fa + 1\<rparr>) (U - {f}) A"
    using pmm bm card assms(2) by (auto simp: pmm_def)
  ultimately show ?thesis by blast
qed

lemma reserve_step_ret:
  assumes pmm: "pmm fa U A"
  shows "\<exists>fa'. reserve_step f fa = ret fa' \<and> pmm fa' (U \<union> ({f} \<inter> {..<MAX_FRAMES})) A"
proof (cases "f < MAX_FRAMES \<and> f \<notin> U")
  case False
  then have "U \<union> ({f} \<inter> {..<MAX_FRAMES}) = U" by auto
  with False pmm show ?thesis by (auto simp: reserve_step_def pmm_is_used)
next
  case True
  then obtain bm where bm: "bitmap_mark (frame_bitmap fa) f = ret bm" "length bm = BITMAP_SIZE" "bits bm = insert f U"
    using bitmap_mark_ret [of f "frame_bitmap fa"] pmm by (auto simp: pmm_def BITMAP_SIZE_eq)
  have card: "free_frames fa = Suc (card ({..<MAX_FRAMES} - insert f U))"
    using card_free_remove [of f U] True pmm by (simp add: pmm_def)
  then have "reserve_step f fa = ret (fa\<lparr>frame_bitmap := bm, free_frames := free_frames fa - 1\<rparr>)"
    using True pmm bm(1) by (simp add: reserve_step_def pmm_is_used FrameAllocator_mark_used_def run_simps)
  moreover have "pmm (fa\<lparr>frame_bitmap := bm, free_frames := free_frames fa - 1\<rparr>) (insert f U) A"
    using pmm bm card by (auto simp: pmm_def)
  ultimately show ?thesis using True by auto
qed

section \<open>Loops over ranges of frames\<close>

lemma frame_of_nat: "frame_of a = unat a div 4096"
  by (simp add: frame_of_def FRAME_SIZE_def unat_div)

lemma each_frame_ret:
  assumes step: "\<And>f F fa. P F fa \<Longrightarrow> \<exists>fa'. body f fa = ret fa' \<and> P (insert f F) fa'"
    and "unat e = unat a + 4096 * n" and "P F fa"
  shows "\<exists>fa'. each_frame body a e fa = ret fa' \<and> P (F \<union> {unat a div 4096..<unat a div 4096 + n}) fa'"
  using assms(2,3)
proof (induction n arbitrary: a F fa)
  case 0
  then have "\<not> a < e" by (simp add: word_less_nat_alt)
  with 0 show ?case by (subst each_frame.simps) simp
next
  case (Suc n)
  let ?k = "unat a div 4096"
  obtain fa1 where fa1: "body ?k fa = ret fa1" "P (insert ?k F) fa1"
    using step [OF Suc.prems(2)] by blast
  have small: "unat a + unat FRAME_SIZE < 2 ^ 64"
    using Suc.prems(1) unat_bound [of e] by (simp add: FRAME_SIZE_def)
  have next_a: "unat (a + FRAME_SIZE) = unat a + 4096"
    using small by (simp add: unat_word_ariths FRAME_SIZE_def)
  then have "unat e = unat (a + FRAME_SIZE) + 4096 * n" using Suc.prems(1) by simp
  moreover have "unat (a + FRAME_SIZE) div 4096 = Suc ?k" using next_a by simp
  ultimately obtain fa2 where fa2: "each_frame body (a + FRAME_SIZE) e fa1 = ret fa2"
      "P (insert ?k F \<union> {Suc ?k..<Suc ?k + n}) fa2"
    using Suc.IH [of "a + FRAME_SIZE", OF _ fa1(2)] by auto
  have "a < e" using Suc.prems(1) by (simp add: word_less_nat_alt)
  then have "each_frame body a e fa = ret fa2"
    using fa1(1) fa2(1) small by (subst each_frame.simps) (simp add: frame_of_nat run_simps)
  moreover have "insert ?k F \<union> {Suc ?k..<Suc ?k + n} = F \<union> {?k..<?k + Suc n}" by auto
  ultimately show ?case using fa2(2) by auto
qed

lemma each_frame_range:
  assumes step: "\<And>f F fa. P F fa \<Longrightarrow> \<exists>fa'. body f fa = ret fa' \<and> P (insert f F) fa'"
    and a: "unat a = 4096 * i" and e: "unat e = 4096 * j" and "P {} fa"
  shows "\<exists>fa'. each_frame body a e fa = ret fa' \<and> P {i..<j} fa'"
proof (cases "i \<le> j")
  case True
  then have "unat e = unat a + 4096 * (j - i)" using a e by simp
  from each_frame_ret [where P = P, OF step this assms(4)] show ?thesis
    using a True by simp
next
  case False
  then have "\<not> a < e" using a e by (simp add: word_less_nat_alt)
  with False assms(4) show ?thesis by (subst each_frame.simps) simp
qed

text \<open>Rounding to frames; \<open>align_up\<close> panics for an address in the last, incomplete frame below \<open>2 ^ 64\<close>.\<close>

lemma align_down_ret: "\<exists>w. align_down v FRAME_SIZE = ret w \<and> unat w = 4096 * (unat v div 4096)"
proof -
  have m: "unat (v mod FRAME_SIZE) = unat v mod 4096" by (simp add: unat_mod FRAME_SIZE_def)
  then have le: "v mod FRAME_SIZE \<le> v" by (simp add: word_le_nat_alt)
  then have "align_down v FRAME_SIZE = ret (v - v mod FRAME_SIZE)" by (simp add: align_down_def run_simps)
  moreover have "unat (v - v mod FRAME_SIZE) = unat v - unat v mod 4096" using le m by (simp add: unat_sub)
  moreover have "unat v - unat v mod 4096 = 4096 * (unat v div 4096)" by (simp add: minus_mod_eq_mult_div)
  ultimately show ?thesis by simp
qed

lemma align_up_cases:
  "align_up v FRAME_SIZE = (if unat v \<le> 2 ^ 64 - 4096 then ret (of_nat (4096 * ((unat v + 4095) div 4096)))
     else panic)"
proof -
  have m: "unat (v mod FRAME_SIZE) = unat v mod 4096" by (simp add: unat_mod FRAME_SIZE_def)
  show ?thesis
  proof (cases "unat v mod 4096 = 0")
    case True
    then obtain k where k: "unat v = 4096 * k" by auto
    then have "(unat v + 4095) div 4096 = k" by simp
    moreover have "unat v \<le> 2 ^ 64 - 4096" using k unat_bound [of v] by simp
    moreover have "v mod FRAME_SIZE = 0" using True m by (simp add: unat_eq_0)
    ultimately show ?thesis using k by (metis align_up_def of_nat_unat_id)
  next
    case False
    define r where "r = unat v mod 4096"
    define k where "k = unat v div 4096"
    have v: "unat v = 4096 * k + r" and r: "0 < r" "r < 4096" using False by (simp_all add: r_def k_def)
    have nz: "v mod FRAME_SIZE \<noteq> 0" using False m by (metis unat_0)
    have gap: "checked_sub FRAME_SIZE (v mod FRAME_SIZE) = ret (FRAME_SIZE - v mod FRAME_SIZE)"
      using m r by (simp add: checked_sub_def word_le_nat_alt FRAME_SIZE_def r_def)
    have ug: "unat (FRAME_SIZE - v mod FRAME_SIZE) = 4096 - r"
      using checked_sub_SomeD(2) [OF gap] m by (simp add: FRAME_SIZE_def r_def)
    have "(unat v + 4095) div 4096 = k + 1" unfolding v using r by (intro div_nat_eqI) auto
    then have up: "4096 * ((unat v + 4095) div 4096) = unat v + (4096 - r)" using v r by simp
    have fits: "unat v + (4096 - r) < 2 ^ 64 \<longleftrightarrow> unat v \<le> 2 ^ 64 - 4096" using v r by simp arith
    have sum: "v + (FRAME_SIZE - v mod FRAME_SIZE) = of_nat (unat v + (4096 - r))"
      using ug by (metis of_nat_add of_nat_unat_id)
    show ?thesis
      unfolding up align_up_def using nz gap ug fits sum by (simp add: checked_add_def)
  qed
qed

lemma align_up_ret:
  assumes "unat v \<le> 2 ^ 64 - 4096"
  shows "\<exists>w. align_up v FRAME_SIZE = ret w \<and> unat w = 4096 * ((unat v + 4095) div 4096)"
proof -
  have "4096 * ((unat v + 4095) div 4096) < (2::nat) ^ 64" using assms by simp
  then have "unat (of_nat (4096 * ((unat v + 4095) div 4096)) :: u64) = 4096 * ((unat v + 4095) div 4096)"
    by (intro unat_of_nat_small) simp
  then show ?thesis using assms by (simp only: align_up_cases if_True) blast
qed

section \<open>Initialisation\<close>

text \<open>The frames that lie wholly inside a usable region, and the frames that meet an address range.\<close>

definition usable_frame :: "MemoryMapEntry \<Rightarrow> nat \<Rightarrow> bool" where
  "usable_frame e f \<longleftrightarrow> entry_type e = 1 \<and> unat (base_addr e) + unat (region_length e) < 2 ^ 64
     \<and> unat (base_addr e) \<le> 4096 * f \<and> 4096 * f + 4096 \<le> unat (base_addr e) + unat (region_length e)"

definition meets_range :: "nat \<Rightarrow> nat \<Rightarrow> nat \<Rightarrow> bool" where
  "meets_range s e f \<longleftrightarrow> s < 4096 * f + 4096 \<and> 4096 * f < e"

lemma reserve_range_ret:
  assumes pmm: "pmm fa U A" and e: "unat e \<le> 2 ^ 64 - 4096"
  shows "\<exists>fa'. FrameAllocator_reserve_range s e fa = ret fa'
    \<and> pmm fa' (U \<union> {f. f < MAX_FRAMES \<and> meets_range (unat s) (unat e) f}) A"
proof -
  obtain s' where s': "align_down s FRAME_SIZE = ret s'" "unat s' = 4096 * (unat s div 4096)"
    using align_down_ret by blast
  obtain e' where e': "align_up e FRAME_SIZE = ret e'" "unat e' = 4096 * ((unat e + 4095) div 4096)"
    using align_up_ret [OF e] by blast
  let ?I = "{unat s div 4096..<(unat e + 4095) div 4096}"
  have "\<exists>fa'. each_frame reserve_step s' e' fa = ret fa' \<and> pmm fa' (U \<union> (?I \<inter> {..<MAX_FRAMES})) A"
  proof (rule each_frame_range [where P = "\<lambda>F fa. pmm fa (U \<union> (F \<inter> {..<MAX_FRAMES})) A"])
    fix f F fa
    assume "pmm fa (U \<union> (F \<inter> {..<MAX_FRAMES})) A"
    from reserve_step_ret [OF this, of f]
    show "\<exists>fa'. reserve_step f fa = ret fa' \<and> pmm fa' (U \<union> (insert f F \<inter> {..<MAX_FRAMES})) A"
      by (simp add: Int_insert_left Un_assoc Un_commute split: if_splits)
  qed (use s' e' pmm in auto)
  moreover have "f \<in> ?I \<longleftrightarrow> meets_range (unat s) (unat e) f" for f
    by (auto simp: meets_range_def)
  then have "?I \<inter> {..<MAX_FRAMES} = {f. f < MAX_FRAMES \<and> meets_range (unat s) (unat e) f}" by blast
  ultimately show ?thesis using s'(1) e'(1) by (simp add: FrameAllocator_reserve_range_def)
qed

lemma frame_bounds:
  "((b::nat) + 4095) div 4096 \<le> f \<longleftrightarrow> b \<le> 4096 * f"
  "(f::nat) < e div 4096 \<longleftrightarrow> 4096 * f + 4096 \<le> e"
  by linarith+

lemma release_range_ret:
  assumes "pmm fa U {}" and "unat a = 4096 * i" and "unat e = 4096 * j"
  shows "\<exists>fa'. each_frame release_step a e fa = ret fa' \<and> pmm fa' (U - {i..<j}) {}"
proof (rule each_frame_range [where P = "\<lambda>F fa. pmm fa (U - F) {}"])
  fix f F fa1
  assume "pmm fa1 (U - F) {}"
  from release_step_ret [OF this, of f]
  show "\<exists>fa'. release_step f fa1 = ret fa' \<and> pmm fa' (U - insert f F) {}"
    unfolding Diff_insert [of U f F] by simp
qed (use assms in auto)

lemma release_entry_ret:
  assumes pmm: "pmm fa U {}" and b: "entry_type e = 1 \<Longrightarrow> unat (base_addr e) \<le> 2 ^ 64 - 4096"
  shows "\<exists>fa'. release_entry e fa = ret fa' \<and> pmm fa' (U - {f. usable_frame e f}) {}"
proof (cases "entry_type e = 1 \<and> unat (base_addr e) + unat (region_length e) < 2 ^ 64")
  case False
  show ?thesis
  proof (cases "entry_type e = 1")
    case True
    with False have "checked_add (base_addr e) (region_length e) = None" by (simp add: checked_add_def)
    then show ?thesis
      using True False pmm align_up_ret [OF b] by (auto simp: release_entry_def usable_frame_def)
  qed (use pmm in \<open>simp add: release_entry_def usable_frame_def\<close>)
next
  case True
  let ?b = "unat (base_addr e)" and ?e = "unat (base_addr e) + unat (region_length e)"
  have x: "checked_add (base_addr e) (region_length e) = Some (base_addr e + region_length e)"
    using True by (simp add: checked_add_def)
  note ux = checked_add_SomeD(2) [OF x]
  obtain s where s: "align_up (base_addr e) FRAME_SIZE = ret s" "unat s = 4096 * ((?b + 4095) div 4096)"
    using align_up_ret [OF b] True by blast
  obtain d where d: "align_down (base_addr e + region_length e) FRAME_SIZE = ret d" "unat d = 4096 * (?e div 4096)"
    using align_down_ret [of "base_addr e + region_length e"] unfolding ux by blast
  let ?lim = "min d MAX_PHYSICAL_MEMORY" and ?I = "{(?b + 4095) div 4096..<min (?e div 4096) MAX_FRAMES}"
  have lim: "unat ?lim = 4096 * min (?e div 4096) MAX_FRAMES"
    using d(2) by (simp add: min_def word_le_nat_alt MAX_PHYSICAL_MEMORY_def MAX_FRAMES_eq)
  have loop: "\<exists>fa'. each_frame release_step s ?lim fa = ret fa' \<and> pmm fa' (U - ?I) {}"
    using pmm s(2) lim by (rule release_range_ret)
  have frames: "f \<in> ?I \<longleftrightarrow> f < MAX_FRAMES \<and> usable_frame e f" for f
    using True by (simp only: atLeastLessThan_iff min_less_iff_conj frame_bounds usable_frame_def) blast
  then have region: "U - ?I = U - {f. usable_frame e f}"
    using pmm_used [OF pmm] by blast
  have empty: "U - {f. usable_frame e f} = U" if "d \<le> s"
  proof -
    have "?e div 4096 \<le> (?b + 4095) div 4096" using that s(2) d(2) by (simp add: word_le_nat_alt)
    then have "?I = {}" by simp
    then show ?thesis using frames pmm_used [OF pmm] by blast
  qed
  have "release_entry e fa = (if d \<le> s then ret fa else each_frame release_step s ?lim fa)"
    using True x s(1) d(1) by (simp add: release_entry_def)
  then show ?thesis using loop [unfolded region] empty pmm by (cases "d \<le> s") simp_all
qed

lemma release_map_ret:
  assumes "pmm fa U {}" and "\<forall>e \<in> set es. entry_type e = 1 \<longrightarrow> unat (base_addr e) \<le> 2 ^ 64 - 4096"
  shows "\<exists>fa'. release_map es fa = ret fa' \<and> pmm fa' (U - {f. \<exists>e \<in> set es. usable_frame e f}) {}"
  using assms
proof (induction es arbitrary: fa U)
  case Nil
  then show ?case by simp
next
  case (Cons e es)
  then obtain fa1 where fa1: "release_entry e fa = ret fa1" "pmm fa1 (U - {f. usable_frame e f}) {}"
    using release_entry_ret [of fa U e] by auto
  moreover have "U - {f. usable_frame e f} - {f. \<exists>e \<in> set es. usable_frame e f}
      = U - {f. \<exists>e' \<in> set (e # es). usable_frame e' f}" by auto
  ultimately show ?case using Cons.IH [OF fa1(2)] Cons.prems(2) by simp
qed

text \<open>
  The memory the kernel may hand out: the 4 KiB frames below 4 GiB that lie wholly inside a usable
  region of the memory map, above the first MiB, and do not meet the kernel image.  A region whose
  end does not fit in 64 bits is not usable (\<open>usable_frame\<close>).
\<close>

definition usable_memory :: "MemoryMapEntry list \<Rightarrow> u64 \<Rightarrow> u64 \<Rightarrow> nat set" where
  "usable_memory memory_map kernel_start kernel_end = {f. 4096 * f + 4096 \<le> 2 ^ 32
     \<and> (\<exists>e \<in> set memory_map. usable_frame e f) \<and> 0x100000 \<le> 4096 * f
     \<and> \<not> meets_range (unat kernel_start) (unat kernel_end) f}"

lemma usable_memory_frames: "usable_memory es ks ke \<subseteq> {..<MAX_FRAMES}"
  by (auto simp: usable_memory_def MAX_FRAMES_eq)

lemma initialize_pmm:
  assumes "\<forall>e \<in> set es. entry_type e = 1 \<longrightarrow> unat (base_addr e) \<le> 2 ^ 64 - 4096"
    and ke: "unat ke \<le> 2 ^ 64 - 4096"
  shows "\<exists>fa. FrameAllocator_initialize es ks ke = ret fa
    \<and> pmm fa ({..<MAX_FRAMES} - usable_memory es ks ke) {}"
proof -
  let ?fa = "\<lparr>frame_bitmap = replicate BITMAP_SIZE 0xFF, allocated_bitmap = replicate BITMAP_SIZE 0,
      free_frames = 0\<rparr>"
  let ?R = "\<lambda>s e. {f. f < MAX_FRAMES \<and> meets_range s e f}"
  have "pmm ?fa {..<MAX_FRAMES} {}"
    using bits_ones [of BITMAP_SIZE] bits_zero [of BITMAP_SIZE] by (simp add: pmm_def BITMAP_SIZE_eq)
  then obtain fa where fa: "release_map es ?fa = ret fa"
      "pmm fa ({..<MAX_FRAMES} - {f. \<exists>e \<in> set es. usable_frame e f}) {}"
    using release_map_ret [OF _ assms(1)] by blast
  obtain fa1 where 1: "FrameAllocator_reserve_range 0 0x100000 fa = ret fa1"
      "pmm fa1 ({..<MAX_FRAMES} - {f. \<exists>e \<in> set es. usable_frame e f} \<union> ?R 0 0x100000) {}"
    using reserve_range_ret [OF fa(2), of "0x100000" 0] by auto
  let ?U = "{..<MAX_FRAMES} - {f. \<exists>e \<in> set es. usable_frame e f} \<union> ?R 0 0x100000"
  have low: "\<exists>fa'. FrameAllocator_reserve_range s e fa = ret fa' \<and> pmm fa' ?U {}"
    if "pmm fa ?U {}" "unat e \<le> 0x100000" for s e fa
  proof -
    have "?U \<union> ?R (unat s) (unat e) = ?U" using that(2) by (auto simp: meets_range_def)
    with reserve_range_ret [OF that(1), of e s] that(2) show ?thesis by auto
  qed
  obtain fa2 where 2: "FrameAllocator_reserve_range 0x8000 0xC000 fa1 = ret fa2" "pmm fa2 ?U {}"
    using low [OF 1(2)] by force
  obtain fa3 where 3: "FrameAllocator_reserve_range 0x20000 0x24000 fa2 = ret fa3" "pmm fa3 ?U {}"
    using low [OF 2(2)] by force
  obtain fa4 where 4: "FrameAllocator_reserve_range 0x60000 0x61000 fa3 = ret fa4" "pmm fa4 ?U {}"
    using low [OF 3(2)] by force
  obtain fa5 where 5: "FrameAllocator_reserve_range 0x70000 0x71000 fa4 = ret fa5" "pmm fa5 ?U {}"
    using low [OF 4(2)] by force
  obtain fa6 where 6: "FrameAllocator_reserve_range 0x90000 0x91000 fa5 = ret fa6" "pmm fa6 ?U {}"
    using low [OF 5(2)] by force
  obtain fa7 where 7: "FrameAllocator_reserve_range ks ke fa6 = ret fa7"
      "pmm fa7 (?U \<union> ?R (unat ks) (unat ke)) {}"
    using reserve_range_ret [OF 6(2) ke] by blast
  have "?U \<union> ?R (unat ks) (unat ke) = {..<MAX_FRAMES} - usable_memory es ks ke"
    by (auto simp: usable_memory_def meets_range_def MAX_FRAMES_eq)
  with 7 show ?thesis
    using fa(1) 1(1) 2(1) 3(1) 4(1) 5(1) 6(1) by (simp add: FrameAllocator_initialize_def)
qed

section \<open>Allocation and release\<close>

definition frame_address :: "nat \<Rightarrow> u64" where
  "frame_address f = of_nat f * FRAME_SIZE"

lemma unat_frame_address: "f < MAX_FRAMES \<Longrightarrow> unat (frame_address f) = 4096 * f"
proof -
  assume f: "f < MAX_FRAMES"
  have "frame_address f = of_nat (4096 * f)" by (simp add: frame_address_def FRAME_SIZE_def)
  moreover have "4096 * f < 2 ^ LENGTH(64)" using f by (simp add: MAX_FRAMES_eq)
  ultimately show ?thesis by (simp only: unat_of_nat_small)
qed

lemma frame_of_address: "f < MAX_FRAMES \<Longrightarrow> frame_of (frame_address f) = f"
  by (simp add: frame_of_nat unat_frame_address)

lemma frame_address_of:
  assumes "p mod FRAME_SIZE = 0" shows "frame_address (frame_of p) = p"
proof -
  have "p = p div FRAME_SIZE * FRAME_SIZE" using assms div_mult_mod_eq [of p FRAME_SIZE] by simp
  then show ?thesis by (simp add: frame_address_def frame_of_def of_nat_unat_id)
qed

lemma frame_address_aligned: "f < MAX_FRAMES \<Longrightarrow> frame_address f mod FRAME_SIZE = 0"
  using unat_frame_address [of f] by (simp add: unat_eq_0 [symmetric] unat_mod FRAME_SIZE_def)

lemma allocate_from_ret:
  assumes pmm: "pmm fa U A" and "{..<f} \<subseteq> U"
  shows "({..<MAX_FRAMES} \<subseteq> U \<and> allocate_from f fa = ret (None, fa))
    \<or> (\<exists>g fa'. g < MAX_FRAMES \<and> g \<notin> U \<and> {..<g} \<subseteq> U \<and> allocate_from f fa = ret (Some (frame_address g), fa')
         \<and> pmm fa' (insert g U) (insert g A))"
  using assms
proof (induction f fa rule: allocate_from.induct)
  case (1 f fa)
  show ?case
  proof (cases "f < MAX_FRAMES")
    case False
    with 1(3) show ?thesis by (subst (1) allocate_from.simps) auto
  next
    case lt: True
    show ?thesis
    proof (cases "f \<in> U")
      case True
      then have rec: "allocate_from f fa = allocate_from (f + 1) fa"
        using lt 1(2) by (subst allocate_from.simps) (simp add: pmm_is_used)
      have "{..<f + 1} \<subseteq> U" using True 1(3) by (auto simp: less_Suc_eq)
      then show ?thesis
        using 1(1) [OF lt] lt 1(2) True unfolding rec by (simp add: pmm_is_used)
    next
      case False
      obtain bm where bm: "bitmap_mark (frame_bitmap fa) f = ret bm" "length bm = BITMAP_SIZE" "bits bm = insert f U"
        using bitmap_mark_ret [of f "frame_bitmap fa"] 1(2) lt by (auto simp: pmm_def BITMAP_SIZE_eq)
      obtain am where am: "bitmap_mark (allocated_bitmap fa) f = ret am" "length am = BITMAP_SIZE" "bits am = insert f A"
        using bitmap_mark_ret [of f "allocated_bitmap fa"] 1(2) lt by (auto simp: pmm_def BITMAP_SIZE_eq)
      have card: "free_frames fa = Suc (card ({..<MAX_FRAMES} - insert f U))"
        using card_free_remove [OF lt False] 1(2) by (simp add: pmm_def)
      have mul: "checked_mul (of_nat f) FRAME_SIZE = ret (frame_address f)"
        using lt by (simp add: checked_mul_def frame_address_def FRAME_SIZE_def MAX_FRAMES_eq unat_of_nat_small)
      let ?fa = "fa\<lparr>frame_bitmap := bm, allocated_bitmap := am, free_frames := free_frames fa - 1\<rparr>"
      have "allocate_from f fa = ret (Some (frame_address f), ?fa)"
        using lt False 1(2) bm(1) am(1) card mul
        by (subst allocate_from.simps) (simp add: pmm_is_used FrameAllocator_mark_used_def
            FrameAllocator_mark_allocated_def run_simps)
      moreover have "pmm ?fa (insert f U) (insert f A)" using 1(2) bm am card by (auto simp: pmm_def)
      ultimately show ?thesis using lt False 1(3) by blast
    qed
  qed
qed

lemma free_frame_ret:
  assumes pmm: "pmm fa U A" and f: "f \<in> A" "f < MAX_FRAMES"
  shows "\<exists>fa'. FrameAllocator_free_frame (frame_address f) fa = ret fa' \<and> pmm fa' (U - {f}) (A - {f})"
proof -
  obtain bm where bm: "bitmap_unmark (frame_bitmap fa) f = ret bm" "length bm = BITMAP_SIZE" "bits bm = U - {f}"
    using bitmap_unmark_ret [of f "frame_bitmap fa"] pmm f by (auto simp: pmm_def BITMAP_SIZE_eq)
  obtain am where am: "bitmap_unmark (allocated_bitmap fa) f = ret am" "length am = BITMAP_SIZE" "bits am = A - {f}"
    using bitmap_unmark_ret [of f "allocated_bitmap fa"] pmm f by (auto simp: pmm_def BITMAP_SIZE_eq)
  have "f \<in> U" using pmm f by (auto simp: pmm_def)
  then have card: "card ({..<MAX_FRAMES} - (U - {f})) = free_frames fa + 1"
    using card_free_remove [of f "U - {f}"] f pmm by (simp add: pmm_def insert_absorb)
  then have "free_frames fa + 1 < 2 ^ 64"
    using card_free_bound [of "U - {f}"] by (simp add: MAX_FRAMES_eq)
  then have "FrameAllocator_free_frame (frame_address f) fa
      = ret (fa\<lparr>frame_bitmap := bm, allocated_bitmap := am, free_frames := free_frames fa + 1\<rparr>)"
    using f pmm bm(1) am(1)
    by (simp add: FrameAllocator_free_frame_def frame_address_aligned frame_of_address Let_def
        pmm_is_allocated FrameAllocator_mark_free_def FrameAllocator_mark_unallocated_def run_simps)
  moreover have "pmm (fa\<lparr>frame_bitmap := bm, allocated_bitmap := am, free_frames := free_frames fa + 1\<rparr>)
      (U - {f}) (A - {f})"
    using pmm bm am card by (auto simp: pmm_def)
  ultimately show ?thesis by blast
qed

lemma free_frame_foreign:
  assumes pmm: "pmm fa U A" and "p \<notin> frame_address ` A"
  shows "FrameAllocator_free_frame p fa = ret fa"
proof (cases "p mod FRAME_SIZE = 0 \<and> frame_of p < MAX_FRAMES")
  case True
  then have "frame_of p \<notin> A" using assms(2) frame_address_of [of p] by (metis image_eqI)
  with True pmm show ?thesis by (simp add: FrameAllocator_free_frame_def pmm_is_allocated Let_def)
qed (auto simp: FrameAllocator_free_frame_def Let_def)

section \<open>The contract of the manager\<close>

text \<open>
  \<open>avail\<close> are the addresses of the free frames and \<open>held\<close> those of the frames handed out.
\<close>

locale frame_pool =
  fixes inv :: "'s \<Rightarrow> bool"
    and alloc :: "'s \<Rightarrow> (u64 option \<times> 's) run"
    and free :: "u64 \<Rightarrow> 's \<Rightarrow> 's run"
    and avail :: "'s \<Rightarrow> u64 set"
    and held :: "'s \<Rightarrow> u64 set"
  assumes disjoint: "inv s \<Longrightarrow> avail s \<inter> held s = {}"
    and finite_avail: "inv s \<Longrightarrow> finite (avail s)"
    and alloc_empty: "inv s \<Longrightarrow> avail s = {} \<Longrightarrow> alloc s = ret (None, s)"
    and alloc_some: "inv s \<Longrightarrow> avail s \<noteq> {} \<Longrightarrow> \<exists>p s'. alloc s = ret (Some p, s') \<and> inv s' \<and> p \<in> avail s
      \<and> avail s' = avail s - {p} \<and> held s' = insert p (held s)"
    and alloc_lowest: "inv s \<Longrightarrow> alloc s = ret (Some p, s') \<Longrightarrow> q \<in> avail s \<Longrightarrow> p \<le> q"
    and free_held: "inv s \<Longrightarrow> p \<in> held s \<Longrightarrow> \<exists>s'. free p s = ret s' \<and> inv s'
      \<and> avail s' = insert p (avail s) \<and> held s' = held s - {p}"
    and free_foreign: "inv s \<Longrightarrow> p \<notin> held s \<Longrightarrow> free p s = ret s"
begin

text \<open>A call either allocates (\<open>None\<close>) or releases an address (\<open>Some p\<close>); the answers are collected.\<close>

fun calls :: "u64 option list \<Rightarrow> 's \<Rightarrow> (u64 option list \<times> 's) run" where
  "calls [] s = ret ([], s)"
| "calls (None # as) s = do { (r, s) \<leftarrow> alloc s; (rs, s) \<leftarrow> calls as s; ret (r # rs, s) }"
| "calls (Some p # as) s = do { s \<leftarrow> free p s; (rs, s) \<leftarrow> calls as s; ret (None # rs, s) }"

lemma alloc_cases:
  assumes "inv s"
  obtains (none) "avail s = {}" and "alloc s = ret (None, s)"
  | (some) p s' where "alloc s = ret (Some p, s')" and "inv s'" and "p \<in> avail s" and "p \<notin> held s"
      and "avail s' = avail s - {p}" and "held s' = insert p (held s)"
proof (cases "avail s = {}")
  case True
  then show thesis using alloc_empty [OF assms] none by blast
next
  case False
  then show thesis using alloc_some [OF assms] disjoint [OF assms] some by blast
qed

lemma free_cases:
  assumes "inv s"
  obtains s' where "free p s = ret s'" and "inv s'" and "held s' = held s - {p}"
    and "avail s' = avail s \<union> ({p} \<inter> held s)"
proof (cases "p \<in> held s")
  case True
  then show thesis using free_held [OF assms True] that by auto
next
  case False
  then show thesis using free_foreign [OF assms False] assms that by auto
qed

lemma calls_partition:
  assumes "inv s"
  shows "\<exists>rs s'. calls as s = ret (rs, s') \<and> inv s' \<and> avail s' \<union> held s' = avail s \<union> held s
    \<and> (\<forall>p. Some p \<in> set rs \<longrightarrow> p \<in> avail s \<union> held s)"
  using assms
proof (induction as arbitrary: s)
  case Nil
  then show ?case by simp
next
  case (Cons a as)
  show ?case
  proof (cases a)
    case None
    show ?thesis
      using Cons.prems
    proof (cases rule: alloc_cases)
      case none
      with Cons.IH [OF Cons.prems] None show ?thesis by auto
    next
      case (some p s')
      then have "avail s' \<union> held s' = avail s \<union> held s" by auto
      with Cons.IH [OF some(2)] None some(1,3) show ?thesis by auto
    qed
  next
    case (Some p)
    obtain s' where s': "free p s = ret s'" "inv s'" "held s' = held s - {p}"
        "avail s' = avail s \<union> ({p} \<inter> held s)"
      using Cons.prems by (rule free_cases)
    then have "avail s' \<union> held s' = avail s \<union> held s" by auto
    with Cons.IH [OF s'(2)] Some s'(1) show ?thesis by auto
  qed
qed

text \<open>
  What a history of calls and answers says of one address: after it the address is handed out when
  the last allocation that answered it was not followed by its release, or when it was handed out
  before and never released.
\<close>

lemma calls_held:
  "inv s \<Longrightarrow> calls as s = ret (rs, s') \<Longrightarrow> length rs = length as
    \<and> (p \<in> held s' \<longleftrightarrow> (\<exists>i < length as. rs ! i = Some p \<and> (\<forall>k < length as. i < k \<longrightarrow> as ! k \<noteq> Some p))
         \<or> p \<in> held s \<and> (\<forall>k < length as. as ! k \<noteq> Some p))"
proof (induction as arbitrary: s rs)
  case (Cons a as)
  show ?case
  proof (cases a)
    case None
    show ?thesis
      using Cons.prems(1)
    proof (cases rule: alloc_cases)
      case none
      then obtain rs' where "calls as s = ret (rs', s')" "rs = None # rs'"
        using Cons.prems(2) None by (auto split: Option.bind_splits)
      with Cons.IH [OF Cons.prems(1)] None show ?thesis
        by (auto simp: Ex_less_Suc2 All_less_Suc2 simp del: length_greater_0_conv)
    next
      case (some q s1)
      then obtain rs' where "calls as s1 = ret (rs', s')" "rs = Some q # rs'"
        using Cons.prems(2) None by (auto split: Option.bind_splits)
      with Cons.IH [OF some(2)] None some(6) show ?thesis
        by (auto simp: Ex_less_Suc2 All_less_Suc2 simp del: length_greater_0_conv)
    qed
  next
    case (Some q)
    obtain s1 where s1: "free q s = ret s1" "inv s1" "held s1 = held s - {q}" "avail s1 = avail s \<union> ({q} \<inter> held s)"
      using Cons.prems(1) by (rule free_cases)
    then obtain rs' where "calls as s1 = ret (rs', s')" "rs = None # rs'"
      using Cons.prems(2) Some by (auto split: Option.bind_splits)
    with Cons.IH [OF s1(2)] Some s1(3) show ?thesis
      by (auto simp: Ex_less_Suc2 All_less_Suc2 simp del: length_greater_0_conv)
  qed
qed simp

lemma calls_append:
  "inv s \<Longrightarrow> calls (as @ bs) s = ret (rs, s'') \<Longrightarrow> \<exists>rs1 s' rs2. calls as s = ret (rs1, s') \<and> inv s'
     \<and> calls bs s' = ret (rs2, s'') \<and> rs = rs1 @ rs2"
proof (induction as arbitrary: s rs)
  case (Cons a as)
  show ?case
  proof (cases a)
    case None
    show ?thesis
      using Cons.prems(1)
    proof (cases rule: alloc_cases)
      case none
      with Cons.prems(2) None Cons.IH [OF Cons.prems(1)] show ?thesis by (fastforce split: Option.bind_splits)
    next
      case (some q s1)
      with Cons.prems(2) None Cons.IH [OF some(2)] show ?thesis by (fastforce split: Option.bind_splits)
    qed
  next
    case (Some q)
    obtain s1 where "free q s = ret s1" "inv s1" using Cons.prems(1) by (rule free_cases)
    with Cons.prems(2) Some Cons.IH [of s1] show ?thesis by (fastforce split: Option.bind_splits)
  qed
qed simp

text \<open>An address answered by two allocations was released in between.\<close>

lemma calls_once:
  assumes inv: "inv s" and run: "calls as s = ret (rs, s')"
    and ij: "i < j" "j < length as" and answers: "rs ! i = Some p" "rs ! j = Some p"
  shows "\<exists>k. i < k \<and> k < j \<and> as ! k = Some p"
proof -
  have as: "as = take j as @ as ! j # drop (Suc j) as" using ij(2) by (simp add: id_take_nth_drop)
  obtain rs1 t rs2 where t: "calls (take j as) s = ret (rs1, t)" "inv t"
      "calls (as ! j # drop (Suc j) as) t = ret (rs2, s')" "rs = rs1 @ rs2"
    using calls_append [OF inv, of "take j as" "as ! j # drop (Suc j) as"] run as by metis
  have len: "length rs1 = j" using calls_held [OF inv t(1)] ij(2) by simp
  have "rs2 ! 0 = Some p" "rs1 ! i = Some p" using answers ij(1) len t(4) by (auto simp: nth_append)
  moreover have "p \<notin> held t"
    using t(2)
  proof (cases rule: alloc_cases)
    case none
    with calculation(1) t(3) show ?thesis by (cases "as ! j") (auto split: Option.bind_splits)
  next
    case (some q s1)
    with calculation(1) t(3) show ?thesis by (cases "as ! j") (auto split: Option.bind_splits)
  qed
  ultimately show ?thesis using calls_held [OF inv t(1), of p] ij by (auto simp: min_def)
qed

end

definition avail_frames :: "FrameAllocator \<Rightarrow> u64 set" where
  "avail_frames fa = frame_address ` ({..<MAX_FRAMES} - bits (frame_bitmap fa))"

definition held_frames :: "FrameAllocator \<Rightarrow> u64 set" where
  "held_frames fa = frame_address ` bits (allocated_bitmap fa)"

definition FrameAllocator_inv :: "FrameAllocator \<Rightarrow> bool" where
  "FrameAllocator_inv fa \<longleftrightarrow> pmm fa (bits (frame_bitmap fa)) (bits (allocated_bitmap fa))"

lemma inj_frame_address: "inj_on frame_address {..<MAX_FRAMES}"
  by (intro inj_onI) (metis frame_of_address lessThan_iff)

lemma pmm_view:
  assumes "pmm fa U A"
  shows "FrameAllocator_inv fa" and "avail_frames fa = frame_address ` ({..<MAX_FRAMES} - U)"
    and "held_frames fa = frame_address ` A"
  using assms by (auto simp: FrameAllocator_inv_def avail_frames_def held_frames_def pmm_def)

lemma FrameAllocator_invE:
  assumes "FrameAllocator_inv fa"
  obtains U A where "pmm fa U A" and "A \<subseteq> U" and "U \<subseteq> {..<MAX_FRAMES}"
    and "avail_frames fa = frame_address ` ({..<MAX_FRAMES} - U)" and "held_frames fa = frame_address ` A"
proof -
  have pmm: "pmm fa (bits (frame_bitmap fa)) (bits (allocated_bitmap fa))"
    using assms by (simp add: FrameAllocator_inv_def)
  show thesis
    by (rule that [OF pmm _ pmm_used [OF pmm] pmm_view(2,3) [OF pmm]]) (use pmm in \<open>simp add: pmm_def\<close>)
qed

lemma allocate_frame_pmm:
  assumes "pmm fa U A"
  shows "({..<MAX_FRAMES} \<subseteq> U \<and> FrameAllocator_allocate_frame fa = ret (None, fa))
    \<or> (\<exists>g fa'. g < MAX_FRAMES \<and> g \<notin> U \<and> {..<g} \<subseteq> U
         \<and> FrameAllocator_allocate_frame fa = ret (Some (frame_address g), fa')
         \<and> pmm fa' (insert g U) (insert g A))"
  unfolding FrameAllocator_allocate_frame_def using assms by (intro allocate_from_ret) auto

lemma frame_address_image_remove:
  assumes "g < MAX_FRAMES" and "B \<subseteq> {..<MAX_FRAMES}"
  shows "frame_address ` (B - {g}) = frame_address ` B - {frame_address g}"
  using inj_on_image_set_diff [OF inj_frame_address, of B "{g}"] assms by auto

lemma allocate_frame_some:
  assumes inv: "FrameAllocator_inv fa" and "avail_frames fa \<noteq> {}"
  shows "\<exists>p fa'. FrameAllocator_allocate_frame fa = ret (Some p, fa') \<and> FrameAllocator_inv fa'
    \<and> p \<in> avail_frames fa \<and> avail_frames fa' = avail_frames fa - {p}
    \<and> held_frames fa' = insert p (held_frames fa)"
proof -
  obtain U A where U: "pmm fa U A" "U \<subseteq> {..<MAX_FRAMES}"
    and view: "avail_frames fa = frame_address ` ({..<MAX_FRAMES} - U)" "held_frames fa = frame_address ` A"
    using inv by (rule FrameAllocator_invE)
  then obtain g fa' where g: "g < MAX_FRAMES" "g \<notin> U"
      "FrameAllocator_allocate_frame fa = ret (Some (frame_address g), fa')" "pmm fa' (insert g U) (insert g A)"
    using allocate_frame_pmm [OF U(1)] assms(2) by auto
  have "{..<MAX_FRAMES} - insert g U = ({..<MAX_FRAMES} - U) - {g}" by blast
  then have "avail_frames fa' = avail_frames fa - {frame_address g}"
    using pmm_view(2) [OF g(4)] view(1) frame_address_image_remove [OF g(1)] by simp
  moreover have "held_frames fa' = insert (frame_address g) (held_frames fa)"
    using pmm_view(3) [OF g(4)] view(2) by simp
  ultimately show ?thesis using g pmm_view(1) [OF g(4)] view(1) by blast
qed

lemma free_frame_held:
  assumes inv: "FrameAllocator_inv fa" and "p \<in> held_frames fa"
  shows "\<exists>fa'. FrameAllocator_free_frame p fa = ret fa' \<and> FrameAllocator_inv fa'
    \<and> avail_frames fa' = insert p (avail_frames fa) \<and> held_frames fa' = held_frames fa - {p}"
proof -
  obtain U A where U: "pmm fa U A" "A \<subseteq> U" "U \<subseteq> {..<MAX_FRAMES}"
    and view: "avail_frames fa = frame_address ` ({..<MAX_FRAMES} - U)" "held_frames fa = frame_address ` A"
    using inv by (rule FrameAllocator_invE)
  then obtain f where f: "p = frame_address f" "f \<in> A" "f < MAX_FRAMES" using assms(2) by auto
  obtain fa' where fa': "FrameAllocator_free_frame p fa = ret fa'" "pmm fa' (U - {f}) (A - {f})"
    using free_frame_ret [OF U(1) f(2,3)] f(1) by blast
  have "{..<MAX_FRAMES} - (U - {f}) = insert f ({..<MAX_FRAMES} - U)" using f U by blast
  then have "avail_frames fa' = insert p (avail_frames fa)"
    using pmm_view(2) [OF fa'(2)] view(1) f(1) by simp
  moreover have "held_frames fa' = held_frames fa - {p}"
    using pmm_view(3) [OF fa'(2)] view(2) f frame_address_image_remove [OF f(3), of A] U by auto
  ultimately show ?thesis using fa' pmm_view(1) [OF fa'(2)] by blast
qed

lemma allocate_frame_lowest:
  assumes inv: "FrameAllocator_inv fa" and alloc: "FrameAllocator_allocate_frame fa = ret (Some p, fa')"
    and q: "q \<in> avail_frames fa"
  shows "p \<le> q"
proof -
  obtain U A where U: "pmm fa U A" and view: "avail_frames fa = frame_address ` ({..<MAX_FRAMES} - U)"
    using inv by (rule FrameAllocator_invE)
  then obtain g where g: "g < MAX_FRAMES" "{..<g} \<subseteq> U" "p = frame_address g"
    using allocate_frame_pmm [OF U] alloc by auto
  obtain h where h: "q = frame_address h" "h < MAX_FRAMES" "h \<notin> U" using q view by auto
  then have "g \<le> h" using g(2) by (metis lessThan_iff linorder_not_less subsetD)
  with g h show ?thesis by (simp add: word_le_nat_alt unat_frame_address)
qed

interpretation pool: frame_pool FrameAllocator_inv FrameAllocator_allocate_frame
  FrameAllocator_free_frame avail_frames held_frames
proof
  fix fa fa' p q
  assume inv: "FrameAllocator_inv fa"
  then obtain U A where U: "pmm fa U A" "A \<subseteq> U" "U \<subseteq> {..<MAX_FRAMES}"
    and view: "avail_frames fa = frame_address ` ({..<MAX_FRAMES} - U)" "held_frames fa = frame_address ` A"
    by (rule FrameAllocator_invE)
  show "avail_frames fa \<inter> held_frames fa = {}"
    using U inj_on_image_Int [OF inj_frame_address, of "{..<MAX_FRAMES} - U" A] unfolding view by auto
  show "finite (avail_frames fa)" unfolding view by simp
  show "avail_frames fa = {} \<Longrightarrow> FrameAllocator_allocate_frame fa = ret (None, fa)"
    using allocate_frame_pmm [OF U(1)] unfolding view by auto
  show "avail_frames fa \<noteq> {} \<Longrightarrow> \<exists>p fa'. FrameAllocator_allocate_frame fa = ret (Some p, fa')
      \<and> FrameAllocator_inv fa' \<and> p \<in> avail_frames fa \<and> avail_frames fa' = avail_frames fa - {p}
      \<and> held_frames fa' = insert p (held_frames fa)"
    using inv by (rule allocate_frame_some)
  show "FrameAllocator_allocate_frame fa = ret (Some p, fa') \<Longrightarrow> q \<in> avail_frames fa \<Longrightarrow> p \<le> q"
    using inv by (rule allocate_frame_lowest)
  show "p \<in> held_frames fa \<Longrightarrow> \<exists>fa'. FrameAllocator_free_frame p fa = ret fa' \<and> FrameAllocator_inv fa'
      \<and> avail_frames fa' = insert p (avail_frames fa) \<and> held_frames fa' = held_frames fa - {p}"
    using inv by (rule free_frame_held)
  show "p \<notin> held_frames fa \<Longrightarrow> FrameAllocator_free_frame p fa = ret fa"
    using free_frame_foreign [OF U(1)] unfolding view by blast
qed

text \<open>Every frame of the pool is a whole page below 4 GiB.\<close>

lemma pool_page:
  assumes "FrameAllocator_inv fa" and "p \<in> avail_frames fa \<union> held_frames fa"
  shows "p mod FRAME_SIZE = 0" and "unat p < 2 ^ 32"
proof -
  obtain f where "p = frame_address f" "f < MAX_FRAMES"
    using assms by (fastforce elim!: FrameAllocator_invE)
  then show "p mod FRAME_SIZE = 0" and "unat p < 2 ^ 32"
    by (simp_all add: frame_address_aligned unat_frame_address MAX_FRAMES_eq)
qed

lemma pool_free_count: "FrameAllocator_inv fa \<Longrightarrow> free_frames fa = card (avail_frames fa)"
  by (auto elim!: FrameAllocator_invE simp: pmm_def card_image inj_on_subset [OF inj_frame_address])

section \<open>Sequences of calls\<close>

text \<open>Calls after initialisation: allocate (\<open>None\<close>) or free an address; the answers are collected.\<close>

fun FrameAllocator_calls :: "u64 option list \<Rightarrow> FrameAllocator \<Rightarrow> (u64 option list \<times> FrameAllocator) run" where
  "FrameAllocator_calls [] fa = ret ([], fa)"
| "FrameAllocator_calls (None # as) fa = do {
     (r, fa) \<leftarrow> FrameAllocator_allocate_frame fa;
     (rs, fa) \<leftarrow> FrameAllocator_calls as fa;
     ret (r # rs, fa) }"
| "FrameAllocator_calls (Some p # as) fa = do {
     fa \<leftarrow> FrameAllocator_free_frame p fa;
     (rs, fa) \<leftarrow> FrameAllocator_calls as fa;
     ret (None # rs, fa) }"

lemma FrameAllocator_calls_eq: "FrameAllocator_calls as fa = pool.calls as fa"
proof (induction as arbitrary: fa)
  case (Cons a as)
  then show ?case by (cases a) (simp_all cong: Option.bind_cong)
qed simp

lemma release_map_panic:
  assumes "e \<in> set es" and "entry_type e = 1" and "2 ^ 64 - 4096 < unat (base_addr e)"
  shows "release_map es fa = panic"
  using assms(1)
proof (induction es arbitrary: fa)
  case (Cons x es)
  show ?case
  proof (cases "x = e")
    case True
    then have "release_entry x fa = panic" using assms(2,3) by (simp add: release_entry_def align_up_cases)
    then show ?thesis by simp
  next
    case False
    with Cons show ?thesis by (cases "release_entry x fa") auto
  qed
qed simp

lemma reserve_range_panic: "2 ^ 64 - 4096 < unat e \<Longrightarrow> FrameAllocator_reserve_range s e fa = panic"
  using align_down_ret [of s] by (auto simp: FrameAllocator_reserve_range_def align_up_cases)

lemma initialize_ret_bounds:
  assumes "FrameAllocator_initialize es ks ke = ret fa"
  shows "\<forall>e \<in> set es. entry_type e = 1 \<longrightarrow> unat (base_addr e) \<le> 2 ^ 64 - 4096"
    and "unat ke \<le> 2 ^ 64 - 4096"
proof -
  show "\<forall>e \<in> set es. entry_type e = 1 \<longrightarrow> unat (base_addr e) \<le> 2 ^ 64 - 4096"
    using assms release_map_panic [of _ es] unfolding FrameAllocator_initialize_def Let_def
    by (metis bind.simps(1) linorder_not_less option.distinct(1))
  show "unat ke \<le> 2 ^ 64 - 4096"
    using assms reserve_range_panic [of ke] unfolding FrameAllocator_initialize_def Let_def
    by (auto split: Option.bind_splits simp del: One_nat_def) (metis linorder_not_less option.distinct(1))
qed

lemma initialize_pool:
  assumes "FrameAllocator_initialize es ks ke = ret fa"
  shows "FrameAllocator_inv fa" and "avail_frames fa = frame_address ` usable_memory es ks ke"
    and "held_frames fa = {}"
proof -
  have pmm: "pmm fa ({..<MAX_FRAMES} - usable_memory es ks ke) {}"
    using initialize_pmm [OF initialize_ret_bounds [OF assms], of ks] assms by simp
  have "{..<MAX_FRAMES} - ({..<MAX_FRAMES} - usable_memory es ks ke) = usable_memory es ks ke"
    using usable_memory_frames by blast
  then show "FrameAllocator_inv fa" and "avail_frames fa = frame_address ` usable_memory es ks ke"
    and "held_frames fa = {}"
    using pmm_view [OF pmm] by simp_all
qed

lemma calls_pool:
  assumes "FrameAllocator_initialize es ks ke = ret fa0" and "FrameAllocator_calls as fa0 = ret (rs, fa)"
  shows "FrameAllocator_inv fa" and "avail_frames fa \<union> held_frames fa = frame_address ` usable_memory es ks ke"
    and "Some p \<in> set rs \<Longrightarrow> p \<in> frame_address ` usable_memory es ks ke"
  using pool.calls_partition [OF initialize_pool(1) [OF assms(1)], of as] assms(2)
    initialize_pool(2,3) [OF assms(1)]
  by (auto simp: FrameAllocator_calls_eq)

section \<open>Properties\<close>


text \<open>
  A usable region whose base lies in the last 4 KiB below \<open>2 ^ 64\<close>, not on a frame boundary, makes
  \<open>initialize\<close> panic: \<open>align_up\<close> overflows before the length of the region is looked at.
\<close>

theorem frame_allocator_initialize_panics:
  assumes "e \<in> set es" and "entry_type e = 1" and "2 ^ 64 - 4096 < unat (base_addr e)"
  shows "FrameAllocator_initialize es kernel_start kernel_end = panic"
  using release_map_panic [OF assms] by (simp add: FrameAllocator_initialize_def)

text \<open>
  C5.  Frames are never handed out twice and reserved memory never at all.  After any sequence of
  allocations and releases, of any addresses: an address answered by two allocations was released
  between them; the frames handed out are exactly those an allocation answered and no later call
  released; free and handed-out frames are disjoint and together are the usable memory of the boot
  information; and the counter is the number of free frames.
\<close>

theorem frame_allocator_safe:
  assumes "FrameAllocator_initialize es kernel_start kernel_end = ret fa0"
    and "FrameAllocator_calls as fa0 = ret (rs, fa)"
  shows "length rs = length as
    \<and> (\<forall>i j p. i < j \<and> j < length as \<and> rs ! i = Some p \<and> rs ! j = Some p
         \<longrightarrow> (\<exists>k. i < k \<and> k < j \<and> as ! k = Some p))
    \<and> held_frames fa
       = {p. \<exists>i < length as. rs ! i = Some p \<and> (\<forall>k < length as. i < k \<longrightarrow> as ! k \<noteq> Some p)}
    \<and> avail_frames fa \<inter> held_frames fa = {}
    \<and> avail_frames fa \<union> held_frames fa = frame_address ` usable_memory es kernel_start kernel_end
    \<and> FrameAllocator_free_frames fa = card (avail_frames fa)
    \<and> (\<forall>p. Some p \<in> set rs \<longrightarrow> p \<in> frame_address ` usable_memory es kernel_start kernel_end)"
proof -
  note fa0 = initialize_pool [OF assms(1)] and run = assms(2) [unfolded FrameAllocator_calls_eq]
  have "avail_frames fa \<inter> held_frames fa = {}" using calls_pool(1) [OF assms] by (rule pool.disjoint)
  then show ?thesis
    using calls_pool [OF assms] pool.calls_held [OF fa0(1) run] pool.calls_once [OF fa0(1) run] fa0(3)
    by (auto simp: FrameAllocator_free_frames_def pool_free_count)
qed

text \<open>
  Allocation is first fit and total: after any sequence of calls \<open>allocate_frame\<close> returns the
  lowest free address and marks exactly that frame as handed out, or \<open>None\<close> when no frame is free.
  Releasing a frame that is handed out makes it free again; releasing any other address does nothing.
\<close>

theorem frame_allocator_calls_exact:
  assumes "FrameAllocator_initialize es kernel_start kernel_end = ret fa0"
    and "FrameAllocator_calls as fa0 = ret (rs, fa)"
  shows "(if avail_frames fa = {} then FrameAllocator_allocate_frame fa = ret (None, fa)
      else \<exists>fa'. FrameAllocator_allocate_frame fa = ret (Some (Min (avail_frames fa)), fa')
        \<and> avail_frames fa' = avail_frames fa - {Min (avail_frames fa)}
        \<and> held_frames fa' = insert (Min (avail_frames fa)) (held_frames fa))
    \<and> (if p \<in> held_frames fa then \<exists>fa'. FrameAllocator_free_frame p fa = ret fa'
        \<and> avail_frames fa' = insert p (avail_frames fa) \<and> held_frames fa' = held_frames fa - {p}
      else FrameAllocator_free_frame p fa = ret fa)"
proof -
  have inv: "FrameAllocator_inv fa" using calls_pool(1) [OF assms] .
  have min: "Min (avail_frames fa) = q"
    if "FrameAllocator_allocate_frame fa = ret (Some q, fa')" "q \<in> avail_frames fa" for q fa'
    using pool.alloc_lowest [OF inv that(1)] pool.finite_avail [OF inv] that(2) by (intro Min_eqI) auto
  have free: "if p \<in> held_frames fa then \<exists>fa'. FrameAllocator_free_frame p fa = ret fa'
        \<and> avail_frames fa' = insert p (avail_frames fa) \<and> held_frames fa' = held_frames fa - {p}
      else FrameAllocator_free_frame p fa = ret fa"
    using pool.free_held [OF inv, of p] pool.free_foreign [OF inv, of p] by auto
  show ?thesis
    using inv
  proof (cases rule: pool.alloc_cases)
    case none
    with free show ?thesis by simp
  next
    case (some q fa')
    with free min [OF some(1,3)] show ?thesis by (intro conjI) auto
  qed
qed

text \<open>
  The hypotheses hold for a machine with 16 MiB of usable memory above the first MiB and a kernel of
  64 KiB at 2 MiB; the unusable map entry for the panic lies at the very end of the address space.
\<close>

abbreviation ram_16M :: MemoryMapEntry where
  "ram_16M \<equiv> \<lparr>base_addr = 0x100000, region_length = 0x1000000, entry_type = 1, attributes = 0\<rparr>"

abbreviation ram_at_end :: MemoryMapEntry where
  "ram_at_end \<equiv> \<lparr>base_addr = 0xFFFFFFFFFFFFFFF0, region_length = 8, entry_type = 1, attributes = 0\<rparr>"


theorem frame_allocator_initialize_panics_witness:
  "FrameAllocator_initialize [ram_at_end] 0x200000 0x210000 = panic"
  by (rule frame_allocator_initialize_panics [of ram_at_end]) simp_all

lemma small_machine:
  obtains fa0 rs fa where "FrameAllocator_initialize [ram_16M] 0x200000 0x210000 = ret fa0"
    and "FrameAllocator_calls as fa0 = ret (rs, fa)"
proof -
  obtain fa0 where fa0: "FrameAllocator_initialize [ram_16M] 0x200000 0x210000 = ret fa0"
    using initialize_pmm [of "[ram_16M]" "0x210000" "0x200000"] by auto
  moreover obtain rs fa where "FrameAllocator_calls as fa0 = ret (rs, fa)"
    using pool.calls_partition [OF initialize_pool(1) [OF fa0]] unfolding FrameAllocator_calls_eq by blast
  ultimately show thesis by (rule that)
qed

theorem frame_allocator_safe_witness:
  "\<exists>fa0 rs fa. FrameAllocator_initialize [ram_16M] 0x200000 0x210000 = ret fa0
    \<and> FrameAllocator_calls [None, None, Some 0x100000, None] fa0 = ret (rs, fa) \<and> length rs = 4
    \<and> (\<forall>p. \<not> (rs ! 0 = Some p \<and> rs ! 1 = Some p))
    \<and> avail_frames fa \<inter> held_frames fa = {}
    \<and> avail_frames fa \<union> held_frames fa = frame_address ` usable_memory [ram_16M] 0x200000 0x210000"
proof -
  obtain fa0 rs fa where runs: "FrameAllocator_initialize [ram_16M] 0x200000 0x210000 = ret fa0"
      "FrameAllocator_calls [None, None, Some 0x100000, None] fa0 = ret (rs, fa)"
    by (rule small_machine)
  note safe = frame_allocator_safe [OF this]
  have "length rs = 4" using safe by simp
  moreover have "\<forall>p. \<not> (rs ! 0 = Some p \<and> rs ! 1 = Some p)"
    using safe [THEN conjunct2, THEN conjunct1, THEN spec, THEN spec, THEN spec, THEN mp, of 0 1] by auto
  moreover have "avail_frames fa \<inter> held_frames fa = {}
      \<and> avail_frames fa \<union> held_frames fa = frame_address ` usable_memory [ram_16M] 0x200000 0x210000"
    using safe by (elim conjE) (intro conjI)
  ultimately show ?thesis using runs by (intro exI conjI) (assumption | elim conjE)+
qed

theorem frame_allocator_calls_exact_witness:
  "\<exists>fa0 rs fa. FrameAllocator_initialize [ram_16M] 0x200000 0x210000 = ret fa0
    \<and> FrameAllocator_calls [None, Some 0x100000, None] fa0 = ret (rs, fa)
    \<and> (if 0x100000 \<in> held_frames fa then \<exists>fa'. FrameAllocator_free_frame 0x100000 fa = ret fa'
        \<and> avail_frames fa' = insert 0x100000 (avail_frames fa) \<and> held_frames fa' = held_frames fa - {0x100000}
      else FrameAllocator_free_frame 0x100000 fa = ret fa)"
proof -
  obtain fa0 rs fa where runs: "FrameAllocator_initialize [ram_16M] 0x200000 0x210000 = ret fa0"
      "FrameAllocator_calls [None, Some 0x100000, None] fa0 = ret (rs, fa)"
    by (rule small_machine)
  from frame_allocator_calls_exact [OF this, of "0x100000"] runs show ?thesis by blast
qed

end
