(* ===== verification/Page_Table.thy ===== *)
theory Page_Table
  imports Frame_Allocator
begin

text \<open>
  The four-level page tables (\<open>memory/page_table.rs\<close>, \<open>memory/address.rs\<close>): \<open>map\<close>, \<open>translate\<close> and
  \<open>unmap\<close> of 4 KiB pages, with missing tables taken from the physical memory manager.

  Physical memory is a function from the addresses of aligned 64-bit words to their values; the
  kernel reaches it through an identity mapping.  A \<open>&mut PageTable\<close> is the address of its first
  entry, so that tables reached along different paths may alias.  A \<open>Result<T, &'static str>\<close> is a
  value of \<open>KernelError + 'a\<close> with one constructor per message.
\<close>

section \<open>Memory and constants\<close>

type_synonym memory = "u64 \<Rightarrow> u64"

datatype KernelError =
    VirtualNotCanonical | VirtualNotAligned | PhysicalNotAligned | PhysicalOutOfRange
  | AlreadyMapped | OutOfPhysicalMemory
  | Pml4NotPresent | PdptNotPresent | PdNotPresent | HugePage | NotMapped
  | IdentityStartNotAligned | IdentityEndNotAligned | IdentityRangeEmpty
  | HeapAlreadyInitialized | HeapPageCountZero | HeapSizeOverflow | HeapTooLarge | HeapOutOfMemory

definition PAGE_SIZE :: u64 where
  "PAGE_SIZE = 4096"

definition PRESENT :: u64 where
  "PRESENT = push_bit 0 1"

definition WRITABLE :: u64 where
  "WRITABLE = push_bit 1 1"

definition USER :: u64 where
  "USER = push_bit 2 1"

definition HUGE_PAGE :: u64 where
  "HUGE_PAGE = push_bit 7 1"

definition ADDRESS_MASK :: u64 where
  "ADDRESS_MASK = 0x000FFFFFFFFFF000"

definition IDENTITY_MAP_BASE :: u64 where
  "IDENTITY_MAP_BASE = 0"

definition phys_to_virt :: "u64 \<Rightarrow> u64 run" where
  "phys_to_virt physical_address = padd physical_address IDENTITY_MAP_BASE"

text \<open>\<open>table.entries[index]\<close>, with the bounds check of the array of 512 entries.\<close>

definition entry_addr :: "u64 \<Rightarrow> usize \<Rightarrow> u64" where
  "entry_addr table index = table + 8 * of_nat index"

definition read_entry :: "memory \<Rightarrow> u64 \<Rightarrow> usize \<Rightarrow> u64 run" where
  "read_entry mem table index = (if index < 512 then ret (mem (entry_addr table index)) else panic)"

definition write_entry :: "memory \<Rightarrow> u64 \<Rightarrow> usize \<Rightarrow> u64 \<Rightarrow> memory run" where
  "write_entry mem table index v = (if index < 512 then ret (mem(entry_addr table index := v)) else panic)"

definition PageTable_zero :: "u64 \<Rightarrow> memory \<Rightarrow> memory" where
  "PageTable_zero table mem = fold (\<lambda>i m. m(entry_addr table i := 0)) [0..<512] mem"

section \<open>Addresses and entries\<close>

definition indexes :: "u64 \<Rightarrow> usize \<times> usize \<times> usize \<times> usize" where
  "indexes virtual_address =
     (unat (drop_bit 39 virtual_address AND 0x1FF), unat (drop_bit 30 virtual_address AND 0x1FF),
      unat (drop_bit 21 virtual_address AND 0x1FF), unat (drop_bit 12 virtual_address AND 0x1FF))"

definition is_canonical :: "u64 \<Rightarrow> bool" where
  "is_canonical virtual_address =
     (let upper = drop_bit 48 virtual_address; sign = drop_bit 47 virtual_address AND 1 in
      if sign = 0 then upper = 0 else upper = 0xFFFF)"

definition entry_address :: "u64 \<Rightarrow> u64" where
  "entry_address entry = entry AND ADDRESS_MASK"

definition make_entry :: "u64 \<Rightarrow> bool \<Rightarrow> bool \<Rightarrow> u64" where
  "make_entry address writable user =
     (let entry = (address AND ADDRESS_MASK) OR PRESENT;
          entry = (if writable then entry OR WRITABLE else entry);
          entry = (if user then entry OR USER else entry) in entry)"

section \<open>Operations\<close>

type_synonym vm_state = "memory \<times> FrameAllocator"

definition get_or_create_table ::
  "u64 \<Rightarrow> usize \<Rightarrow> bool \<Rightarrow> bool \<Rightarrow> vm_state \<Rightarrow> ((KernelError + u64) \<times> vm_state) run" where
  "get_or_create_table parent index writable user s = (case s of (mem, fa) \<Rightarrow> do {
     entry \<leftarrow> read_entry mem parent index;
     if entry AND PRESENT \<noteq> 0 then do {
       let updated = entry;
       let updated = (if user then updated OR USER else updated);
       let updated = (if writable then updated OR WRITABLE else updated);
       mem \<leftarrow> write_entry mem parent index updated;
       ret (Inr (entry_address entry), mem, fa) }
     else do {
       (frame, fa) \<leftarrow> FrameAllocator_allocate_frame fa;
       (case frame of
          None \<Rightarrow> ret (Inl OutOfPhysicalMemory, mem, fa)
        | Some frame \<Rightarrow> do {
            table \<leftarrow> phys_to_virt frame;
            let mem = PageTable_zero table mem;
            mem \<leftarrow> write_entry mem parent index (make_entry frame writable user);
            ret (Inr frame, mem, fa) }) } })"

definition PageTable_map ::
  "u64 \<Rightarrow> u64 \<Rightarrow> u64 \<Rightarrow> bool \<Rightarrow> bool \<Rightarrow> vm_state \<Rightarrow> ((KernelError + unit) \<times> vm_state) run" where
  "PageTable_map pml4 virtual_address physical_address writable user s =
     (if \<not> is_canonical virtual_address then ret (Inl VirtualNotCanonical, s)
      else if virtual_address mod PAGE_SIZE \<noteq> 0 then ret (Inl VirtualNotAligned, s)
      else if physical_address mod PAGE_SIZE \<noteq> 0 then ret (Inl PhysicalNotAligned, s)
      else if ADDRESS_MASK < physical_address then ret (Inl PhysicalOutOfRange, s)
      else case indexes virtual_address of (pml4_index, pdpt_index, pd_index, pt_index) \<Rightarrow> do {
        (r, s) \<leftarrow> get_or_create_table pml4 pml4_index writable user s;
        (case r of Inl e \<Rightarrow> ret (Inl e, s) | Inr pdpt_address \<Rightarrow> do {
          pdpt \<leftarrow> phys_to_virt pdpt_address;
          (r, s) \<leftarrow> get_or_create_table pdpt pdpt_index writable user s;
          (case r of Inl e \<Rightarrow> ret (Inl e, s) | Inr pd_address \<Rightarrow> do {
            pd \<leftarrow> phys_to_virt pd_address;
            (r, s) \<leftarrow> get_or_create_table pd pd_index writable user s;
            (case r of Inl e \<Rightarrow> ret (Inl e, s) | Inr pt_address \<Rightarrow> do {
              pt \<leftarrow> phys_to_virt pt_address;
              pte \<leftarrow> read_entry (fst s) pt pt_index;
              if pte AND PRESENT \<noteq> 0 then ret (Inl AlreadyMapped, s)
              else do {
                mem \<leftarrow> write_entry (fst s) pt pt_index (make_entry physical_address writable user);
                ret (Inr (), mem, snd s) } }) }) }) })"

definition PageTable_translate :: "memory \<Rightarrow> u64 \<Rightarrow> u64 \<Rightarrow> u64 option run" where
  "PageTable_translate mem pml4 virtual_address =
     (if \<not> is_canonical virtual_address then ret None
      else case indexes virtual_address of (pml4_index, pdpt_index, pd_index, pt_index) \<Rightarrow> do {
        pml4_entry \<leftarrow> read_entry mem pml4 pml4_index;
        if pml4_entry AND PRESENT = 0 then ret None
        else do {
          pdpt \<leftarrow> phys_to_virt (entry_address pml4_entry);
          pdpt_entry \<leftarrow> read_entry mem pdpt pdpt_index;
          if pdpt_entry AND PRESENT = 0 then ret None
          else if pdpt_entry AND HUGE_PAGE \<noteq> 0 then do {
            address \<leftarrow> padd (pdpt_entry AND 0x000FFFC000000000) (virtual_address AND 0x3FFFFFFF);
            ret (Some address) }
          else do {
            pd \<leftarrow> phys_to_virt (entry_address pdpt_entry);
            pd_entry \<leftarrow> read_entry mem pd pd_index;
            if pd_entry AND PRESENT = 0 then ret None
            else if pd_entry AND HUGE_PAGE \<noteq> 0 then do {
              address \<leftarrow> padd (pd_entry AND 0x000FFFFFFFE00000) (virtual_address AND 0x1FFFFF);
              ret (Some address) }
            else do {
              pt \<leftarrow> phys_to_virt (entry_address pd_entry);
              pt_entry \<leftarrow> read_entry mem pt pt_index;
              if pt_entry AND PRESENT = 0 then ret None
              else do {
                address \<leftarrow> padd (entry_address pt_entry) (virtual_address AND 0xFFF);
                ret (Some address) } } } } })"

definition PageTable_unmap :: "u64 \<Rightarrow> u64 \<Rightarrow> memory \<Rightarrow> ((KernelError + u64) \<times> memory) run" where
  "PageTable_unmap pml4 virtual_address mem =
     (if \<not> is_canonical virtual_address then ret (Inl VirtualNotCanonical, mem)
      else if virtual_address mod PAGE_SIZE \<noteq> 0 then ret (Inl VirtualNotAligned, mem)
      else case indexes virtual_address of (pml4_index, pdpt_index, pd_index, pt_index) \<Rightarrow> do {
        pml4_entry \<leftarrow> read_entry mem pml4 pml4_index;
        if pml4_entry AND PRESENT = 0 then ret (Inl Pml4NotPresent, mem)
        else do {
          pdpt \<leftarrow> phys_to_virt (entry_address pml4_entry);
          pdpt_entry \<leftarrow> read_entry mem pdpt pdpt_index;
          if pdpt_entry AND PRESENT = 0 then ret (Inl PdptNotPresent, mem)
          else if pdpt_entry AND HUGE_PAGE \<noteq> 0 then ret (Inl HugePage, mem)
          else do {
            pd \<leftarrow> phys_to_virt (entry_address pdpt_entry);
            pd_entry \<leftarrow> read_entry mem pd pd_index;
            if pd_entry AND PRESENT = 0 then ret (Inl PdNotPresent, mem)
            else if pd_entry AND HUGE_PAGE \<noteq> 0 then ret (Inl HugePage, mem)
            else do {
              pt \<leftarrow> phys_to_virt (entry_address pd_entry);
              pte \<leftarrow> read_entry mem pt pt_index;
              if pte AND PRESENT = 0 then ret (Inl NotMapped, mem)
              else do {
                let physical_address = entry_address pte;
                mem \<leftarrow> write_entry mem pt pt_index 0;
                ret (Inr physical_address, mem) } } } } })"

definition allocate_page_table_frame :: "FrameAllocator \<Rightarrow> (u64 option \<times> FrameAllocator) run" where
  "allocate_page_table_frame fa = FrameAllocator_allocate_frame fa"

section \<open>Bits of entries\<close>

lemma flag_tests [simp]:
  "e AND PRESENT = 0 \<longleftrightarrow> \<not> bit e 0" "e AND HUGE_PAGE = 0 \<longleftrightarrow> \<not> bit e 7"
  unfolding PRESENT_def HUGE_PAGE_def by (simp_all only: push_bit_of_1 and_exp_eq_0_iff_not_bit)

lemma phys_to_virt_ret [simp]: "phys_to_virt p = ret p"
proof -
  have "unat p + unat IDENTITY_MAP_BASE < 2 ^ LENGTH(64)"
    using unat_bound [of p] by (simp add: IDENTITY_MAP_BASE_def)
  then show ?thesis
    by (simp add: phys_to_virt_def checked_add_def IDENTITY_MAP_BASE_def)
qed

lemma ADDRESS_MASK_mask: "ADDRESS_MASK = push_bit 12 (mask 40)"
  by (simp add: ADDRESS_MASK_def mask_eq_exp_minus_1 push_bit_eq_mult)

lemma bit_ADDRESS_MASK: "bit ADDRESS_MASK n \<longleftrightarrow> 12 \<le> n \<and> n < 52"
  by (auto simp: ADDRESS_MASK_mask bit_push_bit_iff bit_mask_iff)

lemma bit_entry_address: "bit (entry_address e) n \<longleftrightarrow> bit e n \<and> 12 \<le> n \<and> n < 52"
  by (auto simp: entry_address_def bit_and_iff bit_ADDRESS_MASK)

lemma bit_flag_consts: "bit PRESENT n \<longleftrightarrow> n = 0" "bit WRITABLE n \<longleftrightarrow> n = 1" "bit USER n \<longleftrightarrow> n = 2"
  unfolding PRESENT_def WRITABLE_def USER_def by (auto simp only: push_bit_of_1 bit_exp_iff) auto

lemma bit_make_entry:
  "bit (make_entry a w u) n \<longleftrightarrow>
     (bit a n \<and> 12 \<le> n \<and> n < 52) \<or> n = 0 \<or> (n = 1 \<and> w) \<or> (n = 2 \<and> u)"
  by (auto simp: make_entry_def Let_def bit_or_iff bit_and_iff bit_ADDRESS_MASK bit_flag_consts)

text \<open>A page-aligned address below \<open>2 ^ 52\<close> is kept whole by an entry.\<close>

definition page_frame :: "u64 \<Rightarrow> bool" where
  "page_frame a \<longleftrightarrow> a mod PAGE_SIZE = 0 \<and> a \<le> ADDRESS_MASK"

lemma aligned_iff_bits: "a mod PAGE_SIZE = 0 \<longleftrightarrow> (\<forall>n < 12. \<not> bit a n)" for a :: u64
proof -
  have "a mod PAGE_SIZE = take_bit 12 a" by (simp add: PAGE_SIZE_def take_bit_eq_mod)
  moreover have "take_bit 12 a = 0 \<longleftrightarrow> (\<forall>n < 12. \<not> bit a n)"
    by (auto simp: bit_eq_iff bit_take_bit_iff)
  ultimately show ?thesis by simp
qed

lemma bit_below_52: "a \<le> ADDRESS_MASK \<Longrightarrow> bit a n \<Longrightarrow> n < 52" for a :: u64
proof -
  assume "a \<le> ADDRESS_MASK" and b: "bit a n"
  then have "unat a < 2 ^ 52" by (simp add: ADDRESS_MASK_def word_le_nat_alt)
  then have "take_bit 52 (unat a) = unat a" by (rule take_bit_nat_eq_self)
  moreover have "bit (unat a) n" using b bit_imp_le_length [OF b] by (simp add: bit_unsigned_iff)
  ultimately show "n < 52" by (metis bit_take_bit_iff)
qed

lemma entry_address_make_entry:
  assumes "page_frame a" shows "entry_address (make_entry a w u) = a"
proof (rule bit_word_eqI)
  fix n
  show "bit (entry_address (make_entry a w u)) n = bit a n"
    using assms bit_below_52 [of a n] aligned_iff_bits [of a]
    by (auto simp: bit_entry_address bit_make_entry page_frame_def not_less)
qed

lemma entry_address_aligned: "entry_address e mod PAGE_SIZE = 0"
  by (simp add: aligned_iff_bits bit_entry_address)

lemma entry_address_upgrade:
  "entry_address (e OR USER) = entry_address e" "entry_address (e OR WRITABLE) = entry_address e"
  by (rule bit_word_eqI; auto simp: bit_entry_address bit_or_iff bit_flag_consts)+

lemma pool_page_frame:
  assumes "FrameAllocator_inv fa" and "p \<in> avail_frames fa \<union> held_frames fa"
  shows "page_frame p"
proof -
  have "p \<le> ADDRESS_MASK"
    using pool_page(2) [OF assms] by (simp add: word_le_nat_alt ADDRESS_MASK_def)
  then show ?thesis
    using pool_page(1) [OF assms] by (simp add: page_frame_def PAGE_SIZE_def FRAME_SIZE_def)
qed

section \<open>Tables do not overlap\<close>

lemma unat_entry_addr:
  assumes "t mod PAGE_SIZE = 0" and "i < 512"
  shows "unat (entry_addr t i) = unat t + 8 * i" and "unat t mod 4096 = 0"
proof -
  have "unat (t mod PAGE_SIZE) = unat t mod 4096" by (simp add: unat_mod PAGE_SIZE_def)
  then show m: "unat t mod 4096 = 0" using assms(1) by simp
  then have "unat t + 4096 \<le> 2 ^ 64" using unat_bound [of t] by (auto simp: mod_eq_0_iff_dvd elim!: dvdE)
  then have "unat t + 8 * i < 2 ^ LENGTH(64)" using assms(2) by simp
  moreover have "entry_addr t i = of_nat (unat t + 8 * i)" by (simp add: entry_addr_def)
  ultimately show "unat (entry_addr t i) = unat t + 8 * i" by (simp only: unat_of_nat_small)
qed

lemma entry_addr_eq_iff:
  assumes "t mod PAGE_SIZE = 0" "i < 512" and "s mod PAGE_SIZE = 0" "j < 512"
  shows "entry_addr t i = entry_addr s j \<longleftrightarrow> t = s \<and> i = j"
proof
  assume "entry_addr t i = entry_addr s j"
  then have eq: "unat t + 8 * i = unat s + 8 * j"
    using unat_entry_addr(1) [OF assms(1,2)] unat_entry_addr(1) [OF assms(3,4)] by simp
  obtain k l where k: "unat t = 4096 * k" and l: "unat s = 4096 * l"
    using unat_entry_addr(2) [OF assms(1,2)] unat_entry_addr(2) [OF assms(3,4)]
    by (auto simp: mod_eq_0_iff_dvd elim!: dvdE)
  have "k = l"
  proof -
    have "(4096 * k + 8 * i) div 4096 = k" using assms(2) by simp
    moreover have "(4096 * l + 8 * j) div 4096 = l" using assms(4) by simp
    ultimately show ?thesis using eq k l by simp
  qed
  then show "t = s \<and> i = j" using eq k l by (simp add: word_unat_eq_iff)
qed simp

lemma PageTable_zero_eq:
  "PageTable_zero t mem a = (if \<exists>i < 512. a = entry_addr t i then 0 else mem a)"
proof -
  have "fold (\<lambda>i m. m(entry_addr t i := 0)) [0..<n] mem a
      = (if \<exists>i < n. a = entry_addr t i then 0 else mem a)" for n
    by (induction n) (auto simp: less_Suc_eq)
  then show ?thesis by (simp only: PageTable_zero_def)
qed

end
