(* ===== verification/Serial.thy ===== *)
theory Serial
  imports Prelude
begin

text \<open>
  Serial output (\<open>bin/kernel.rs\<close>, the functions \<open>serial_write_*\<close>).  The status register of the UART
  is a parameter: \<open>status n\<close> is the byte the \<open>n\<close>-th read of port \<open>0x3FD\<close> returns.  The polling loop has
  no bound in the source, so it is a partial function whose value is \<open>None\<close> when the transmitter
  never becomes ready.

  Bytes of messages are characters.  Components that print return the text they print; that a text
  reaches the data port byte by byte is the property at the end.
\<close>

section \<open>The polled transmitter\<close>

record uart =
  polls :: nat
  sent :: "(u16 \<times> char) list"

partial_function (option) wait_ready :: "(nat \<Rightarrow> u8) \<Rightarrow> nat \<Rightarrow> nat option" where
  "wait_ready status n = (if status n AND 0x20 \<noteq> 0 then Some (Suc n) else wait_ready status (Suc n))"

definition serial_write_char :: "(nat \<Rightarrow> u8) \<Rightarrow> char \<Rightarrow> uart \<Rightarrow> uart run" where
  "serial_write_char status c u = do {
     n \<leftarrow> wait_ready status (polls u);
     Some (u\<lparr>polls := n, sent := sent u @ [(0x3F8, c)]\<rparr>) }"

fun serial_write_string :: "(nat \<Rightarrow> u8) \<Rightarrow> string \<Rightarrow> uart \<Rightarrow> uart run" where
  "serial_write_string status [] u = Some u"
| "serial_write_string status (c # s) u = do { u \<leftarrow> serial_write_char status c u; serial_write_string status s u }"

section \<open>Hexadecimal numbers\<close>

text \<open>\<open>b'0' + value\<close> or \<open>b'A' + (value - 10)\<close>, with the overflow checks of the debug profile.\<close>

definition serial_write_hex_digit :: "u8 \<Rightarrow> string run" where
  "serial_write_hex_digit value = do {
     c \<leftarrow> (if value < 10 then padd 0x30 value else do { d \<leftarrow> psub value 10; padd 0x41 d });
     ret [char_of (unat c)] }"

definition serial_write_hex8 :: "u8 \<Rightarrow> string run" where
  "serial_write_hex8 value = do {
     a \<leftarrow> serial_write_hex_digit (drop_bit 4 value AND 0x0F);
     b \<leftarrow> serial_write_hex_digit (value AND 0x0F);
     ret (a @ b) }"

text \<open>The loop of \<open>serial_write_hex32\<close> and \<open>serial_write_hex64\<close>, from a given shift down to 0.\<close>

fun hex_loop :: "'a::len word \<Rightarrow> nat \<Rightarrow> string run" where
  "hex_loop value shift = do {
     let digit = ucast (drop_bit shift value AND 0x0F);
     s \<leftarrow> serial_write_hex_digit digit;
     if shift = 0 then ret s
     else if shift < 4 then panic
     else do { r \<leftarrow> hex_loop value (shift - 4); ret (s @ r) } }"

declare hex_loop.simps [simp del]

definition serial_write_hex32 :: "u32 \<Rightarrow> string run" where
  "serial_write_hex32 value = hex_loop value 28"

definition serial_write_hex64 :: "u64 \<Rightarrow> string run" where
  "serial_write_hex64 value = hex_loop value 60"

text \<open>The end of line \<open>b"\r\n"\<close> of most messages.\<close>

definition crlf :: string where
  "crlf = [CHR 0x0D, CHR 0x0A]"

section \<open>The text of a number\<close>

definition hex_char :: "nat \<Rightarrow> char" where
  "hex_char d = ''0123456789ABCDEF'' ! d"

definition hex_digits :: "'a::len word \<Rightarrow> nat \<Rightarrow> string" where
  "hex_digits v n = map (\<lambda>k. hex_char (unat v div 16 ^ k mod 16)) (rev [0..<n])"

definition hex_value :: "string \<Rightarrow> nat" where
  "hex_value s = foldl (\<lambda>acc c. 16 * acc + (if of_char c < (58 :: nat) then of_char c - 48 else of_char c - 55)) 0 s"

lemma hex_char_cases: "d < 16 \<Longrightarrow> d = 0 \<or> d = 1 \<or> d = 2 \<or> d = 3 \<or> d = 4 \<or> d = 5 \<or> d = 6 \<or> d = 7
    \<or> d = 8 \<or> d = 9 \<or> d = 10 \<or> d = 11 \<or> d = 12 \<or> d = 13 \<or> d = 14 \<or> d = (15 :: nat)"
  by arith

lemma hex_digit_char_nat:
  assumes "d < 16"
  shows "serial_write_hex_digit (of_nat d) = ret [hex_char d]"
  using hex_char_cases [OF assms]
  by (elim disjE)
    (simp_all add: serial_write_hex_digit_def checked_add_def checked_sub_def hex_char_def char_of_def bit_0)

lemma hex_digit_char: "unat w < 16 \<Longrightarrow> serial_write_hex_digit w = ret [hex_char (unat w)]"
  using hex_digit_char_nat [of "unat w"] by simp

lemma unat_low_nibble: "unat (drop_bit n v AND 0x0F) = unat v div 2 ^ n mod 16" for v :: "'a::len word"
proof -
  have "drop_bit n v AND 0x0F = take_bit 4 (drop_bit n v)"
    by (simp add: take_bit_eq_mask mask_eq_exp_minus_1)
  then have "unat (drop_bit n v AND 0x0F) = unat (take_bit 4 (drop_bit n v))" by (rule arg_cong)
  also have "\<dots> = take_bit 4 (drop_bit n (unat v))"
    by (rule bit_eqI) (auto simp: bit_simps dest: bit_imp_le_length)
  also have "\<dots> = unat v div 2 ^ n mod 16" by (simp add: take_bit_eq_mod drop_bit_eq_div)
  finally show ?thesis .
qed

lemma unat_nibble: "unat (ucast (drop_bit n v AND 0x0F) :: u8) = unat v div 2 ^ n mod 16" for v :: "'a::len word"
  using unat_low_nibble [of n v] by (simp add: unsigned_ucast_eq take_bit_nat_eq_self)

lemma hex_loop_digits: "hex_loop v (4 * k) = ret (hex_digits v (Suc k))"
proof (induction k)
  case 0
  have "serial_write_hex_digit (ucast (drop_bit 0 v AND 0x0F)) = ret [hex_char (unat v div 2 ^ 0 mod 16)]"
    using hex_digit_char [of "ucast (drop_bit 0 v AND 0x0F)"] by (simp only: unat_nibble)
  then show ?case by (subst hex_loop.simps) (simp add: hex_digits_def)
next
  case (Suc k)
  have "serial_write_hex_digit (ucast (drop_bit (4 * Suc k) v AND 0x0F)) = ret [hex_char (unat v div 2 ^ (4 * Suc k) mod 16)]"
    using hex_digit_char [of "ucast (drop_bit (4 * Suc k) v AND 0x0F)"] by (simp only: unat_nibble)
  moreover have "2 ^ (4 * Suc k) = (16 :: nat) ^ Suc k" by (simp only: power_mult) simp
  moreover have "4 * Suc k - 4 = 4 * k" by simp
  ultimately show ?case
    using Suc by (subst hex_loop.simps) (simp add: hex_digits_def del: mult_Suc_right mult_Suc power_Suc)
qed

lemma hex_char_value:
  assumes "d < 16"
  shows "(if of_char (hex_char d) < (58 :: nat) then of_char (hex_char d) - 48 else of_char (hex_char d) - 55) = d"
  using hex_char_cases [OF assms] by (elim disjE) (simp_all add: hex_char_def)

lemma hex_value_snoc: "d < 16 \<Longrightarrow> hex_value (s @ [hex_char d]) = 16 * hex_value s + d"
  using hex_char_value [of d] by (simp add: hex_value_def)

lemma hex_value_digits_above: "hex_value (map (\<lambda>k. hex_char (x div 16 ^ k mod 16)) (rev [m..<m + n])) = x div 16 ^ m mod 16 ^ n"
proof (induction n arbitrary: m)
  case 0
  then show ?case by (simp add: hex_value_def)
next
  case (Suc n)
  have "rev [m..<m + Suc n] = rev [Suc m..<Suc m + n] @ [m]" by (simp add: upt_rec)
  then have "hex_value (map (\<lambda>k. hex_char (x div 16 ^ k mod 16)) (rev [m..<m + Suc n]))
      = 16 * (x div 16 ^ Suc m mod 16 ^ n) + x div 16 ^ m mod 16"
    using Suc.IH [of "Suc m"] by (simp add: hex_value_snoc del: upt_Suc power_Suc)
  also have "x div 16 ^ Suc m = x div 16 ^ m div 16" by (metis div_mult2_eq power_Suc2)
  also have "16 * (x div 16 ^ m div 16 mod 16 ^ n) + x div 16 ^ m mod 16 = x div 16 ^ m mod 16 ^ Suc n"
    by (simp add: mod_mult2_eq)
  finally show ?case .
qed

lemma hex_digits_value: "hex_value (hex_digits v n) = unat v mod 16 ^ n"
  using hex_value_digits_above [of "unat v" 0 n] by (simp add: hex_digits_def)

lemma hex_digits_chars: "length (hex_digits v n) = n" "set (hex_digits v n) \<subseteq> set ''0123456789ABCDEF''"
proof -
  have "hex_char (k mod 16) \<in> set ''0123456789ABCDEF''" for k
    unfolding hex_char_def by (rule nth_mem) simp
  then show "set (hex_digits v n) \<subseteq> set ''0123456789ABCDEF''" by (auto simp: hex_digits_def simp del: list.set)
qed (simp add: hex_digits_def)

lemma serial_write_hex8_digits: "serial_write_hex8 v = ret (hex_digits v 2)"
proof -
  have a: "unat (drop_bit 4 v AND 0x0F) = unat v div 16 mod 16" "unat (v AND 0x0F) = unat v mod 16"
    using unat_nibble [of 4 v] unat_nibble [of 0 v] by (simp_all add: ucast_id)
  have "serial_write_hex_digit (drop_bit 4 v AND 0x0F) = ret [hex_char (unat v div 16 mod 16)]"
    and "serial_write_hex_digit (v AND 0x0F) = ret [hex_char (unat v mod 16)]"
    using hex_digit_char [of "drop_bit 4 v AND 0x0F"] hex_digit_char [of "v AND 0x0F"] a by auto
  then show ?thesis by (simp add: serial_write_hex8_def hex_digits_def upt_rec)
qed

lemma serial_write_hex_digits:
  "serial_write_hex32 x = ret (hex_digits x 8)" "serial_write_hex64 y = ret (hex_digits y 16)"
  using hex_loop_digits [of x 7] hex_loop_digits [of y 15]
  by (simp_all add: serial_write_hex32_def serial_write_hex64_def)

text \<open>
  C18.  Printing a number in hexadecimal never panics and loses nothing: the text has exactly 2, 8 or 16
  upper-case hexadecimal digits and reading it back gives the number.
\<close>

theorem serial_hex_roundtrip:
  "\<exists>a b c. serial_write_hex8 x = ret a \<and> length a = 2 \<and> hex_value a = unat x
    \<and> serial_write_hex32 y = ret b \<and> length b = 8 \<and> hex_value b = unat y
    \<and> serial_write_hex64 z = ret c \<and> length c = 16 \<and> hex_value c = unat z
    \<and> set (a @ b @ c) \<subseteq> set ''0123456789ABCDEF''"
proof -
  have "unat x mod 16 ^ 2 = unat x" "unat y mod 16 ^ 8 = unat y" "unat z mod 16 ^ 16 = unat z"
    using unat_bound [of x] unat_bound [of y] unat_bound [of z] by simp_all
  then show ?thesis
    using hex_digits_chars(2) [of x 2] hex_digits_chars(2) [of y 8] hex_digits_chars(2) [of z 16]
    by (simp add: serial_write_hex8_digits serial_write_hex_digits hex_digits_value hex_digits_chars(1) del: list.set)
qed

section \<open>The transmitter delivers\<close>

definition ready :: "u8 \<Rightarrow> bool" where
  "ready b \<longleftrightarrow> b AND 0x20 \<noteq> 0"

text \<open>The UART is fair when its transmitter is ready again and again.\<close>

definition fair_uart :: "(nat \<Rightarrow> u8) \<Rightarrow> bool" where
  "fair_uart status \<longleftrightarrow> (\<forall>n. \<exists>m \<ge> n. ready (status m))"

lemma wait_ready_returns:
  assumes "ready (status (n + k))" shows "\<exists>m. wait_ready status n = Some m \<and> n < m \<and> ready (status (m - 1))"
  using assms
proof (induction k arbitrary: n)
  case 0
  then show ?case by (subst wait_ready.simps) (auto simp: ready_def)
next
  case (Suc k)
  show ?case
  proof (cases "ready (status n)")
    case True
    then show ?thesis by (subst wait_ready.simps) (auto simp: ready_def)
  next
    case False
    obtain m where "wait_ready status (Suc n) = Some m" "Suc n < m" "ready (status (m - 1))"
      using Suc.IH [of "Suc n"] Suc.prems by auto
    with False show ?thesis by (subst wait_ready.simps) (auto simp: ready_def)
  qed
qed

text \<open>
  C19.  If the transmitter becomes ready again and again, printing a text terminates and sends exactly
  the bytes of the text, in order, to the data port \<open>0x3F8\<close>, after at least one status read each.
\<close>

theorem serial_write_string_delivers:
  assumes "fair_uart status"
  shows "\<exists>n. serial_write_string status s u = Some (u\<lparr>polls := n, sent := sent u @ map (Pair 0x3F8) s\<rparr>)
    \<and> polls u + length s \<le> n"
proof (induction s arbitrary: u)
  case Nil
  show ?case by (rule exI [of _ "polls u"]) simp
next
  case (Cons c s)
  obtain m where "m \<ge> polls u" "ready (status m)" using assms by (auto simp: fair_uart_def)
  then obtain n where n: "wait_ready status (polls u) = Some n" "polls u < n"
    using wait_ready_returns [of status "polls u" "m - polls u"] by auto
  obtain k where "serial_write_string status s (u\<lparr>polls := n, sent := sent u @ [(0x3F8, c)]\<rparr>)
      = Some (u\<lparr>polls := k, sent := sent u @ map (Pair 0x3F8) (c # s)\<rparr>)" "n + length s \<le> k"
    using Cons.IH [of "u\<lparr>polls := n, sent := sent u @ [(0x3F8, c)]\<rparr>"] by auto
  with n show ?case by (intro exI [of _ k]) (simp add: serial_write_char_def)
qed

theorem serial_write_string_delivers_witness:
  "\<exists>n. serial_write_string (\<lambda>n. if even n then 0x60 else 0) ''OK'' \<lparr>polls = 0, sent = []\<rparr>
     = Some \<lparr>polls = n, sent = [(0x3F8, CHR ''O''), (0x3F8, CHR ''K'')]\<rparr>"
proof -
  have "\<exists>m \<ge> n. ready (if even m then 0x60 else 0)" for n :: nat
    by (rule exI [of _ "2 * n"]) (simp add: ready_def)
  then have "fair_uart (\<lambda>n. if even n then 0x60 else 0)" by (simp add: fair_uart_def)
  from serial_write_string_delivers [OF this, of "''OK''" "\<lparr>polls = 0, sent = []\<rparr>"]
  show ?thesis by auto
qed

end
