(* ===== verification/Task.thy ===== *)
theory Task
  imports Page_Table Serial
begin

text \<open>
  Tasks (\<open>scheduler/task.rs\<close>): task states, the saved processor contexts, and the two ways a task's
  first context is built on its kernel stack.

  A \<open>Task\<close> embeds its 16 KiB kernel stack.  The stack's bytes are words of memory, so a \<open>Task\<close> of the
  model has every field but the stack; methods that use the stack take the address \<open>base\<close> of
  \<open>self.kernel_stack.data\<close>, which is wherever the value lives.  The addresses of \<open>task_exit\<close> and of
  the trampoline \<open>unbound_start_interrupt_context\<close> are parameters: the linker chooses them.
\<close>

section \<open>Definitions\<close>

type_synonym TaskId = u64

datatype TaskState = Ready | Running | Blocked | Terminated

fun TaskState_name :: "TaskState \<Rightarrow> string" where
  "TaskState_name Ready = ''READY''"
| "TaskState_name Running = ''RUNNING''"
| "TaskState_name Blocked = ''BLOCKED''"
| "TaskState_name Terminated = ''TERMINATED''"

definition KERNEL_STACK_SIZE :: u64 where
  "KERNEL_STACK_SIZE = 16 * 1024"

definition KernelStack_top :: "u64 \<Rightarrow> u64 run" where
  "KernelStack_top base = padd base KERNEL_STACK_SIZE"

record TaskContext =
  ctx_rsp :: u64
  ctx_rbp :: u64
  ctx_rbx :: u64
  ctx_r12 :: u64
  ctx_r13 :: u64
  ctx_r14 :: u64
  ctx_r15 :: u64
  ctx_rip :: u64

definition TaskContext_empty :: TaskContext where
  "TaskContext_empty = \<lparr>ctx_rsp = 0, ctx_rbp = 0, ctx_rbx = 0, ctx_r12 = 0, ctx_r13 = 0, ctx_r14 = 0,
     ctx_r15 = 0, ctx_rip = 0\<rparr>"

definition INTERRUPT_CONTEXT_SIZE :: u64 where
  "INTERRUPT_CONTEXT_SIZE = 19 * 8"

definition INITIAL_STACK_RESERVE :: u64 where
  "INITIAL_STACK_RESERVE = 2048"

record Task =
  task_id :: TaskId
  task_state :: TaskState
  priority :: u8
  time_slice_ticks :: u64
  total_ticks :: u64
  task_context :: TaskContext
  interrupt_rsp :: u64

definition Task_new :: "TaskId \<Rightarrow> u8 \<Rightarrow> Task" where
  "Task_new i p = \<lparr>task_id = i, task_state = Ready, priority = p, time_slice_ticks = 0, total_ticks = 0,
     task_context = TaskContext_empty, interrupt_rsp = 0\<rparr>"

definition Task_set_state :: "TaskState \<Rightarrow> Task \<Rightarrow> Task" where
  "Task_set_state st t = t\<lparr>task_state := st\<rparr>"

definition Task_is_runnable :: "Task \<Rightarrow> bool" where
  "Task_is_runnable t = (task_state t = Ready \<or> task_state t = Running)"

definition Task_initialize_context :: "u64 \<Rightarrow> u64 \<Rightarrow> u64 \<Rightarrow> Task \<times> memory \<Rightarrow> (Task \<times> memory) run" where
  "Task_initialize_context task_exit base entry s = (case s of (t, mem) \<Rightarrow> do {
     stack_top \<leftarrow> KernelStack_top base;
     initial_rsp \<leftarrow> psub stack_top 8;
     let mem = mem(initial_rsp := task_exit);
     ret (t\<lparr>task_context := TaskContext_empty\<lparr>ctx_rsp := initial_rsp, ctx_rip := entry\<rparr>\<rparr>, mem) })"

text \<open>The 19 words of the synthetic interrupt frame, in the order of the writes.\<close>

definition interrupt_frame_words :: "u64 \<Rightarrow> u64 list" where
  "interrupt_frame_words entry =
     [0, 0, 0, 0, 0, 0, 0, 0,  0, 0, 0, 0, 0, 0, 0,  0x20,  entry, 0x08, 0x202]"

text \<open>\<open>frame.add(0).write(..); frame.add(1).write(..); ...\<close>\<close>

fun write_words :: "u64 \<Rightarrow> u64 list \<Rightarrow> memory \<Rightarrow> memory" where
  "write_words p [] mem = mem"
| "write_words p (w # ws) mem = write_words (p + 8) ws (mem(p := w))"

definition Task_initialize_interrupt_context :: "u64 \<Rightarrow> u64 \<Rightarrow> Task \<times> memory \<Rightarrow> (Task \<times> memory) run" where
  "Task_initialize_interrupt_context base entry s = (case s of (t, mem) \<Rightarrow> do {
     stack_top \<leftarrow> KernelStack_top base;
     a \<leftarrow> psub stack_top INITIAL_STACK_RESERVE;
     context_rsp \<leftarrow> psub a INTERRUPT_CONTEXT_SIZE;
     ret (t\<lparr>interrupt_rsp := context_rsp\<rparr>, write_words context_rsp (interrupt_frame_words entry) mem) })"

definition Task_prepare_preemptive_start :: "u64 \<Rightarrow> Task \<Rightarrow> Task run" where
  "Task_prepare_preemptive_start trampoline t =
     (if interrupt_rsp t = 0 then panic
      else ret (t\<lparr>task_context := TaskContext_empty\<lparr>ctx_rsp := interrupt_rsp t, ctx_rip := trampoline\<rparr>\<rparr>))"

text \<open>The text \<open>debug_interrupt_context\<close> prints.\<close>

definition Task_debug_interrupt_context :: "memory \<Rightarrow> Task \<Rightarrow> string run" where
  "Task_debug_interrupt_context mem t = (let rsp = interrupt_rsp t in
     if rsp = 0 then ret ''''
     else do {
       h0 \<leftarrow> serial_write_hex64 rsp;
       h1 \<leftarrow> serial_write_hex64 (mem (rsp + 8 * 15));
       h2 \<leftarrow> serial_write_hex64 (mem (rsp + 8 * 16));
       h3 \<leftarrow> serial_write_hex64 (mem (rsp + 8 * 17));
       h4 \<leftarrow> serial_write_hex64 (mem (rsp + 8 * 18));
       ret (''TASK INTERRUPT FRAME'' @ crlf @ ''  RSP: '' @ h0 @ crlf @ ''  VECTOR: '' @ h1 @ crlf
          @ ''  RIP: '' @ h2 @ crlf @ ''  CS: '' @ h3 @ crlf @ ''  RFLAGS: '' @ h4 @ crlf) })"

text \<open>\<open>NEXT_TASK_ID.fetch_add(1)\<close>: the old value, and the counter, which wraps.\<close>

definition allocate_task_id :: "u64 \<Rightarrow> TaskId \<times> u64" where
  "allocate_task_id next = (next, next + 1)"

section \<open>Stacks in memory\<close>

text \<open>The stack at \<open>base\<close> lies within the address space and is 16-aligned, as \<open>repr(align(16))\<close> demands.\<close>

definition stack_placed :: "u64 \<Rightarrow> bool" where
  "stack_placed base \<longleftrightarrow> unat base mod 16 = 0 \<and> 0 < unat base \<and> unat base + 16384 < 2 ^ 64"

definition in_stack :: "u64 \<Rightarrow> u64 \<Rightarrow> bool" where
  "in_stack base a \<longleftrightarrow> unat base \<le> unat a \<and> unat a + 8 \<le> unat base + 16384"

lemma KernelStack_top_ret:
  assumes "stack_placed base"
  shows "KernelStack_top base = ret (base + 16384)" and "unat (base + 16384) = unat base + 16384"
proof -
  have "unat base + unat (16384 :: u64) < 2 ^ LENGTH(64)" using assms by (simp add: stack_placed_def)
  then have ret: "checked_add base 16384 = ret (base + 16384)" by (rule checked_add_ret)
  show "KernelStack_top base = ret (base + 16384)"
    unfolding KernelStack_top_def ret [symmetric] by (simp add: KERNEL_STACK_SIZE_def)
  show "unat (base + 16384) = unat base + 16384" using checked_add_SomeD(2) [OF ret] by simp
qed

lemma unat_minus_small: "unat k \<le> unat a \<Longrightarrow> unat (a - k) = unat a - unat k" for a k :: "'a::len word"
  by (simp add: unat_sub word_le_nat_alt)

lemma unat_plus_small: "unat a + unat k < 2 ^ LENGTH('a) \<Longrightarrow> unat (a + k) = unat a + unat k" for a k :: "'a::len word"
  by (simp add: unat_word_ariths)

lemma write_words_out:
  assumes "unat p + 8 * length ws < 2 ^ 64" and "unat a < unat p \<or> unat p + 8 * length ws \<le> unat a"
  shows "write_words p ws mem a = mem a"
  using assms
proof (induction ws arbitrary: p mem)
  case Nil
  then show ?case by simp
next
  case (Cons w ws)
  have "unat (p + 8) = unat p + 8" using unat_plus_small [of p 8] Cons.prems(1) by simp
  then show ?case using Cons by (auto simp: word_unat_eq_iff)
qed

lemma write_words_nth:
  assumes "unat p + 8 * length ws < 2 ^ 64" and "i < length ws"
  shows "write_words p ws mem (p + 8 * of_nat i) = ws ! i"
  using assms
proof (induction ws arbitrary: p mem i)
  case Nil
  then show ?case by simp
next
  case (Cons w ws)
  have p8: "unat (p + 8) = unat p + 8" using unat_plus_small [of p 8] Cons.prems(1) by simp
  show ?case
  proof (cases i)
    case 0
    then show ?thesis using Cons.prems p8 by (simp add: write_words_out)
  next
    case (Suc j)
    have "p + 8 * of_nat i = (p + 8) + 8 * of_nat j" by (simp add: Suc algebra_simps)
    moreover have "write_words (p + 8) ws (mem(p := w)) (p + 8 + 8 * of_nat j) = ws ! j"
      by (rule Cons.IH) (use Cons.prems p8 Suc in simp_all)
    ultimately show ?thesis by (simp only: write_words.simps Suc nth_Cons_Suc)
  qed
qed

end
