(* ===== verification/X86.thy ===== *)
theory X86
  imports Task
begin

text \<open>
  The part of the x86-64 processor the assembly of the kernel uses: the general registers, the
  selectors, \<open>RFLAGS\<close> and memory, with the straight-line instructions of the interrupt, system-call
  and context-switch routines.  Memory is a function on the addresses of 8-byte words; the routines
  only use words at multiples of 8 from the stack pointer or a structure.

  Status flags set by arithmetic are not tracked: every routine ends by loading \<open>RFLAGS\<close> from a saved
  value or leaves them undefined for its caller.  Protection checks of the final \<open>iretq\<close> are not
  modelled either; the model says which values it loads.
\<close>

section \<open>Machine state\<close>

datatype reg = RAX | RCX | RDX | RBX | RSP | RBP | RSI | RDI | R8 | R9 | R10 | R11 | R12 | R13 | R14 | R15

record machine =
  m_regs :: "reg \<Rightarrow> u64"
  m_rip :: u64
  m_cs :: u64
  m_ss :: u64
  m_rflags :: u64
  m_mem :: memory

datatype instr =
    Push reg | PushImm u64 | Pop reg
  | Mov reg reg | MovImm reg u64 | Load reg reg u64 | Store reg u64 reg | LoadAbs reg u64
  | Lea reg reg u64 | AddImm reg u64 | SubImm reg u64 | AndImm reg u64 | Cli

abbreviation reg_of :: "machine \<Rightarrow> reg \<Rightarrow> u64" where
  "reg_of m r \<equiv> m_regs m r"

definition set_reg :: "reg \<Rightarrow> u64 \<Rightarrow> machine \<Rightarrow> machine" where
  "set_reg r v m = m\<lparr>m_regs := (m_regs m)(r := v)\<rparr>"

definition store :: "u64 \<Rightarrow> u64 \<Rightarrow> machine \<Rightarrow> machine" where
  "store a v m = m\<lparr>m_mem := (m_mem m)(a := v)\<rparr>"

fun exec_instr :: "instr \<Rightarrow> machine \<Rightarrow> machine" where
  "exec_instr (Push r) m = set_reg RSP (m_regs m RSP - 8) (store (m_regs m RSP - 8) (m_regs m r) m)"
| "exec_instr (PushImm v) m = set_reg RSP (m_regs m RSP - 8) (store (m_regs m RSP - 8) v m)"
| "exec_instr (Pop r) m = set_reg r (m_mem m (m_regs m RSP)) (set_reg RSP (m_regs m RSP + 8) m)"
| "exec_instr (Mov d s) m = set_reg d (m_regs m s) m"
| "exec_instr (MovImm d v) m = set_reg d v m"
| "exec_instr (Load d b off) m = set_reg d (m_mem m (m_regs m b + off)) m"
| "exec_instr (Store b off s) m = store (m_regs m b + off) (m_regs m s) m"
| "exec_instr (LoadAbs d a) m = set_reg d (m_mem m a) m"
| "exec_instr (Lea d b off) m = set_reg d (m_regs m b + off) m"
| "exec_instr (AddImm r v) m = set_reg r (m_regs m r + v) m"
| "exec_instr (SubImm r v) m = set_reg r (m_regs m r - v) m"
| "exec_instr (AndImm r v) m = set_reg r (m_regs m r AND v) m"
| "exec_instr Cli m = m\<lparr>m_rflags := m_rflags m AND NOT 0x200\<rparr>"

fun exec :: "instr list \<Rightarrow> machine \<Rightarrow> machine" where
  "exec [] m = m"
| "exec (i # is) m = exec is (exec_instr i m)"

text \<open>The transfers of control the routines end with.\<close>

definition jmp_reg :: "reg \<Rightarrow> machine \<Rightarrow> machine" where
  "jmp_reg r m = m\<lparr>m_rip := m_regs m r\<rparr>"

text \<open>In 64-bit mode \<open>iretq\<close> always pops five words: \<open>RIP\<close>, \<open>CS\<close>, \<open>RFLAGS\<close>, \<open>RSP\<close>, \<open>SS\<close>.\<close>

definition iretq :: "machine \<Rightarrow> machine" where
  "iretq m = (let p = m_regs m RSP in
     m\<lparr>m_rip := m_mem m p, m_cs := m_mem m (p + 8), m_rflags := m_mem m (p + 16), m_ss := m_mem m (p + 32),
       m_regs := (m_regs m)(RSP := m_mem m (p + 24))\<rparr>)"

text \<open>
  Delivery of an interrupt in 64-bit mode on the stack that ends at \<open>sp\<close> (the current one, or one of the task
  state segment): the stack pointer is aligned down to 16 and \<open>SS\<close>, \<open>RSP\<close>, \<open>RFLAGS\<close>, \<open>CS\<close>, \<open>RIP\<close> are
  pushed, for some exceptions followed by an error code; an interrupt gate clears \<open>IF\<close>.
\<close>

definition deliver :: "u64 \<Rightarrow> u64 list \<Rightarrow> machine \<Rightarrow> machine" where
  "deliver sp error_code m =
     exec (Cli # map PushImm ([m_ss m, m_regs m RSP, m_rflags m, m_cs m, m_rip m] @ error_code)) (set_reg RSP (sp AND NOT 15) m)"

text \<open>
  A call of a function pushes the return address \<open>ra\<close>; the function's own \<open>ret\<close> removes it.  A function
  compiled for the System V calling convention returns with the callee-saved registers and the stack
  pointer of the call and leaves the \<open>n\<close> words from the stack pointer upwards alone.
\<close>

definition call_fn :: "u64 \<Rightarrow> (machine \<Rightarrow> machine) \<Rightarrow> machine \<Rightarrow> machine" where
  "call_fn ra f m = (let m' = f (exec_instr (PushImm ra) m) in set_reg RSP (m_regs m' RSP + 8) m')"

definition callee_saved :: "reg list" where
  "callee_saved = [RSP, RBX, RBP, R12, R13, R14, R15]"

definition sysv :: "nat \<Rightarrow> (machine \<Rightarrow> machine) \<Rightarrow> bool" where
  "sysv n f \<longleftrightarrow> (\<forall>m. map (m_regs (f m)) callee_saved = map (m_regs m) callee_saved
     \<and> (\<forall>i < n. m_mem (f m) (m_regs m RSP + 8 * of_nat i) = m_mem m (m_regs m RSP + 8 * of_nat i)))"

section \<open>Symbolic execution\<close>

named_theorems machine_simps

lemma machine_accessors [machine_simps, simp]:
  "m_regs (set_reg r v m) = (m_regs m)(r := v)" "m_mem (set_reg r v m) = m_mem m" "m_rip (set_reg r v m) = m_rip m"
  "m_cs (set_reg r v m) = m_cs m" "m_ss (set_reg r v m) = m_ss m" "m_rflags (set_reg r v m) = m_rflags m"
  "m_regs (store a v m) = m_regs m" "m_mem (store a v m) = (m_mem m)(a := v)" "m_rip (store a v m) = m_rip m"
  "m_cs (store a v m) = m_cs m" "m_ss (store a v m) = m_ss m" "m_rflags (store a v m) = m_rflags m"
  by (simp_all add: set_reg_def store_def)

lemma exec_append: "exec (is @ js) m = exec js (exec is m)"
  by (induction "is" arbitrary: m) auto

text \<open>Popping a list of registers: the registers are loaded from consecutive words.\<close>

fun popped :: "reg list \<Rightarrow> u64 \<Rightarrow> memory \<Rightarrow> (reg \<Rightarrow> u64) \<Rightarrow> reg \<Rightarrow> u64" where
  "popped [] p mm f = f"
| "popped (r # rs) p mm f = popped rs (p + 8) mm (f(r := mm p))"

lemma popped_RSP: "RSP \<notin> set rs \<Longrightarrow> popped rs p mm (f(RSP := v)) = (popped rs p mm f)(RSP := v)"
proof (induction rs arbitrary: p f)
  case (Cons r rs)
  then have "f(RSP := v, r := mm p) = f(r := mm p, RSP := v)" by (auto simp: fun_upd_twist)
  moreover have "popped rs (p + 8) mm (f(r := mm p, RSP := v)) = (popped rs (p + 8) mm (f(r := mm p)))(RSP := v)"
    by (rule Cons.IH) (use Cons.prems in simp)
  ultimately show ?case by (simp only: popped.simps)
qed simp

lemma exec_pops_frame:
  "m_mem (exec (map Pop rs) m) = m_mem m" "m_rip (exec (map Pop rs) m) = m_rip m" "m_cs (exec (map Pop rs) m) = m_cs m"
  "m_ss (exec (map Pop rs) m) = m_ss m" "m_rflags (exec (map Pop rs) m) = m_rflags m"
  by (induction rs arbitrary: m) simp_all

lemma exec_pops:
  assumes "RSP \<notin> set rs"
  shows "m_regs (exec (map Pop rs) m)
    = (popped rs (m_regs m RSP) (m_mem m) (m_regs m))(RSP := m_regs m RSP + 8 * of_nat (length rs))"
  using assms
proof (induction rs arbitrary: m)
  case Nil
  show ?case by (simp add: fun_upd_idem)
next
  case (Cons r rs)
  let ?p = "m_regs m RSP" let ?m = "exec_instr (Pop r) m"
  have regs: "m_regs ?m = (m_regs m)(r := m_mem m ?p, RSP := ?p + 8)" using Cons.prems by (simp add: fun_upd_twist)
  have rs: "RSP \<notin> set rs" using Cons.prems by simp
  have rsp: "((m_regs m)(r := m_mem m ?p, RSP := ?p + 8)) RSP = ?p + 8" by simp
  have len: "?p + 8 + 8 * of_nat (length rs) = ?p + 8 * of_nat (length (r # rs))" by (simp add: algebra_simps)
  have mem: "m_mem ?m = m_mem m" by simp
  show ?case
    using Cons.IH [OF rs, of ?m] unfolding regs mem rsp popped_RSP [OF rs] fun_upd_upd len
    by (simp only: list.map exec.simps popped.simps)
qed

text \<open>Pushing a list of words, each a register or an immediate value: the words lie below the stack pointer.\<close>

fun pushed :: "u64 list \<Rightarrow> u64 \<Rightarrow> memory \<Rightarrow> memory" where
  "pushed [] p mm = mm"
| "pushed (v # vs) p mm = pushed vs (p - 8) (mm(p - 8 := v))"

lemma exec_push_imms:
  "m_mem (exec (map PushImm vs) m) = pushed vs (m_regs m RSP) (m_mem m)"
  "m_regs (exec (map PushImm vs) m) = (m_regs m)(RSP := m_regs m RSP - 8 * of_nat (length vs))"
  "m_rip (exec (map PushImm vs) m) = m_rip m" "m_cs (exec (map PushImm vs) m) = m_cs m"
  "m_ss (exec (map PushImm vs) m) = m_ss m" "m_rflags (exec (map PushImm vs) m) = m_rflags m"
proof (induction vs arbitrary: m)
  case (Cons v vs)
  { case 1 show ?case using Cons.IH(1) [of "exec_instr (PushImm v) m"]
      by (simp only: list.map exec.simps exec_instr.simps pushed.simps machine_accessors fun_upd_same) }
  { case 2 have "m_regs m RSP - 8 - 8 * of_nat (length vs) = m_regs m RSP - 8 * of_nat (length (v # vs))"
      by (simp add: algebra_simps)
    then show ?case using Cons.IH(2) [of "exec_instr (PushImm v) m"]
      by (simp only: list.map exec.simps exec_instr.simps machine_accessors fun_upd_same fun_upd_upd) }
  { case 3 show ?case using Cons.IH(3) [of "exec_instr (PushImm v) m"] by simp }
  { case 4 show ?case using Cons.IH(4) [of "exec_instr (PushImm v) m"] by simp }
  { case 5 show ?case using Cons.IH(5) [of "exec_instr (PushImm v) m"] by simp }
  { case 6 show ?case using Cons.IH(6) [of "exec_instr (PushImm v) m"] by simp }
qed (simp_all add: fun_upd_idem)

lemma exec_pushes:
  assumes "RSP \<notin> set rs"
  shows "exec (map Push rs) m = exec (map PushImm (map (m_regs m) rs)) m"
  using assms
proof (induction rs arbitrary: m)
  case (Cons r rs)
  let ?m = "exec_instr (Push r) m"
  have "map (m_regs ?m) rs = map (m_regs m) rs" using Cons.prems by (auto intro!: map_cong)
  moreover have "?m = exec_instr (PushImm (m_regs m r)) m" by simp
  moreover have "exec (map Push rs) ?m = exec (map PushImm (map (m_regs ?m) rs)) ?m" by (rule Cons.IH) (use Cons.prems in simp)
  ultimately show ?case by (simp only: list.map exec.simps)
qed simp

section \<open>Words on the stack\<close>

text \<open>The \<open>n\<close> words from address \<open>p\<close> upwards.\<close>

fun words_at :: "memory \<Rightarrow> u64 \<Rightarrow> nat \<Rightarrow> u64 list" where
  "words_at mm p 0 = []"
| "words_at mm p (Suc n) = mm p # words_at mm (p + 8) n"

lemma length_words_at [simp]: "length (words_at mm p n) = n"
  by (induction n arbitrary: p) auto

lemma words_at_nth: "i < n \<Longrightarrow> words_at mm p n ! i = mm (p + 8 * of_nat i)"
proof (induction n arbitrary: p i)
  case (Suc n)
  then show ?case by (cases i) (simp_all add: algebra_simps)
qed simp

lemma words_at_append: "words_at mm p (k + n) = words_at mm p k @ words_at mm (p + 8 * of_nat k) n"
  by (induction k arbitrary: p) (simp_all add: algebra_simps)

lemma words_at_cong:
  "(\<And>i. i < n \<Longrightarrow> mm' (p + 8 * of_nat i) = mm (p + 8 * of_nat i)) \<Longrightarrow> words_at mm' p n = words_at mm p n"
  by (rule nth_equalityI) (simp_all add: words_at_nth)

text \<open>Different small offsets are different addresses.\<close>

lemma word_offset_neq:
  assumes "0 < k" and "k < 2 ^ 61"
  shows "(p :: u64) + 8 * of_nat k \<noteq> p"
proof
  assume "p + 8 * of_nat k = p"
  then have "(of_nat (8 * k) :: u64) = 0" by simp
  then have "2 ^ 64 dvd 8 * k" unfolding word_of_nat_eq_0_iff by simp
  with assms show False by (auto dest: dvd_imp_le)
qed

lemma popped_other: "r \<notin> set rs \<Longrightarrow> popped rs p mm f r = f r"
  by (induction rs arbitrary: p f) auto

lemma popped_words: "distinct rs \<Longrightarrow> map (popped rs p mm f) rs = words_at mm p (length rs)"
  by (induction rs arbitrary: p f) (auto simp: popped_other)

lemma pushed_above:
  assumes "k + length vs < 2 ^ 61"
  shows "pushed vs p mm (p + 8 * of_nat k) = mm (p + 8 * of_nat k)"
  using assms
proof (induction vs arbitrary: p mm k)
  case (Cons v vs)
  have "p - 8 + 8 * of_nat (Suc k) = p + 8 * of_nat k" by (simp add: algebra_simps)
  moreover from this have "p + 8 * of_nat k \<noteq> p - 8"
    using word_offset_neq [of "Suc k" "p - 8"] Cons.prems by simp
  moreover have "pushed vs (p - 8) (mm(p - 8 := v)) (p - 8 + 8 * of_nat (Suc k)) = (mm(p - 8 := v)) (p - 8 + 8 * of_nat (Suc k))"
    by (rule Cons.IH) (use Cons.prems in simp)
  ultimately show ?case by (simp only: pushed.simps fun_upd_other not_False_eq_True)
qed simp

lemma pushed_append: "pushed ys (p - 8 * of_nat (length xs)) (pushed xs p mm) = pushed (xs @ ys) p mm"
proof (induction xs arbitrary: p mm)
  case (Cons x xs)
  have "p - 8 * of_nat (length (x # xs)) = p - 8 - 8 * of_nat (length xs)" by (simp add: algebra_simps)
  then show ?case using Cons.IH [of "p - 8" "mm(p - 8 := x)"] by (simp only: pushed.simps append.simps)
qed simp

text \<open>What is pushed lies on the stack with the word pushed last lowest.\<close>

lemma pushed_words:
  assumes "length vs < 2 ^ 61"
  shows "words_at (pushed vs p mm) (p - 8 * of_nat (length vs)) (length vs) = rev vs"
  using assms
proof (induction vs arbitrary: p mm)
  case (Cons v vs)
  let ?mm = "pushed vs (p - 8) (mm(p - 8 := v))" let ?q = "p - 8 - 8 * of_nat (length vs)"
  have q: "p - 8 * of_nat (length (v # vs)) = ?q" by (simp add: algebra_simps)
  have "words_at ?mm ?q (length vs + 1) = rev vs @ words_at ?mm (?q + 8 * of_nat (length vs)) 1"
    unfolding words_at_append using Cons by simp
  also have "?q + 8 * of_nat (length vs) = p - 8" by simp
  also have "words_at ?mm (p - 8) 1 = [v]" using pushed_above [of 0 vs "p - 8" "mm(p - 8 := v)"] Cons.prems by simp
  finally show ?case unfolding q by (simp only: pushed.simps rev.simps list.size One_nat_def)
qed simp

lemma pushed_out:
  assumes "8 * length vs \<le> unat p" and "unat a < unat p - 8 * length vs \<or> unat p \<le> unat a"
  shows "pushed vs p mm a = mm a"
  using assms
proof (induction vs arbitrary: p mm)
  case (Cons v vs)
  have p8: "unat (p - 8) = unat p - 8" using unat_minus_small [of 8 p] Cons.prems(1) by simp
  have "pushed vs (p - 8) (mm(p - 8 := v)) a = (mm(p - 8 := v)) a" by (rule Cons.IH) (use Cons.prems p8 in auto)
  moreover have "a \<noteq> p - 8" using Cons.prems p8 by (auto simp: word_unat_eq_iff)
  ultimately show ?case by (simp only: pushed.simps fun_upd_other not_False_eq_True)
qed simp

section \<open>Alignment of the stack pointer\<close>

lemma align_down: "(x :: u64) AND NOT 15 = push_bit 4 (drop_bit 4 x)"
proof -
  have "(15 :: u64) = mask 4" by (simp add: mask_eq_exp_minus_1)
  then show ?thesis by (auto simp: bit_eq_iff bit_simps)
qed

lemma half_aligned: "(push_bit 4 c + 8 :: u64) AND 15 = 8" "(push_bit 4 c + 8 :: u64) AND NOT 15 = push_bit 4 c"
proof -
  have m: "(15 :: u64) = mask 4" by (simp add: mask_eq_exp_minus_1)
  have e: "(8 :: u64) = push_bit 3 1" by (simp add: push_bit_eq_mult)
  have b: "bit (8 :: u64) n \<longleftrightarrow> n = 3" for n unfolding e bit_push_bit_iff by (auto simp: bit_1_iff)
  have "push_bit 4 c AND (8 :: u64) = 0" by (auto intro!: bit_eqI simp: bit_and_iff bit_or_iff bit_not_iff bit_push_bit_iff bit_mask_iff b simp del: bit_numeral_word_iff)
  then have "push_bit 4 c + 8 = push_bit 4 c OR (8 :: u64)" by (rule disjunctive_add_eq_or)
  then show "(push_bit 4 c + 8 :: u64) AND 15 = 8" "(push_bit 4 c + 8 :: u64) AND NOT 15 = push_bit 4 c"
    unfolding m by (auto intro!: bit_eqI simp: bit_and_iff bit_or_iff bit_not_iff bit_push_bit_iff bit_mask_iff b simp del: bit_numeral_word_iff)
qed

lemma aligned_sub:
  fixes sp :: "u64"
  shows "((sp AND NOT 15) - 16 * k + 8) AND 15 = 8" "((sp AND NOT 15) - 16 * k + 8) AND NOT 15 = (sp AND NOT 15) - 16 * k"
proof -
  have e: "(sp AND NOT 15) - 16 * k = push_bit 4 (drop_bit 4 sp - k)"
    unfolding align_down by (simp add: push_bit_eq_mult algebra_simps)
  show "((sp AND NOT 15) - 16 * k + 8) AND 15 = 8" "((sp AND NOT 15) - 16 * k + 8) AND NOT 15 = (sp AND NOT 15) - 16 * k"
    unfolding e by (rule half_aligned)+
qed

section \<open>Calls\<close>

lemma sysv_regs: "sysv n f \<Longrightarrow> r \<in> set callee_saved \<Longrightarrow> m_regs (f m) r = m_regs m r"
  unfolding sysv_def by (auto simp: callee_saved_def)

lemma sysv_words:
  "sysv n f \<Longrightarrow> i < n \<Longrightarrow> m_mem (f m) (m_regs m RSP + 8 * of_nat i) = m_mem m (m_regs m RSP + 8 * of_nat i)"
  unfolding sysv_def by blast

lemma call_fn_regs:
  assumes "sysv n f" and "r \<in> set callee_saved"
  shows "m_regs (call_fn ra f m) r = m_regs m r"
  using assms sysv_regs [OF assms(1) assms(2)] sysv_regs [OF assms(1), of RSP]
  by (auto simp: call_fn_def Let_def callee_saved_def)

text \<open>The words above the return address survive the call.\<close>

lemma call_fn_words:
  assumes f: "sysv n f" and n: "k + j < n" "k + j < 2 ^ 60"
  shows "words_at (m_mem (call_fn ra f m)) (m_regs m RSP + 8 * of_nat k) j = words_at (m_mem m) (m_regs m RSP + 8 * of_nat k) j"
proof (rule words_at_cong)
  fix i assume i: "i < j"
  let ?m = "exec_instr (PushImm ra) m"
  have a: "m_regs m RSP + 8 * of_nat k + 8 * of_nat i = m_regs m RSP - 8 + 8 * of_nat (Suc (k + i))" by (simp add: algebra_simps)
  have "m_mem (f ?m) (m_regs ?m RSP + 8 * of_nat (Suc (k + i))) = m_mem ?m (m_regs ?m RSP + 8 * of_nat (Suc (k + i)))"
    by (rule sysv_words [OF f]) (use i n in simp)
  moreover have "m_regs m RSP - 8 + 8 * of_nat (Suc (k + i)) \<noteq> m_regs m RSP - 8"
    by (rule word_offset_neq) (use i n in simp_all)
  ultimately show "m_mem (call_fn ra f m) (m_regs m RSP + 8 * of_nat k + 8 * of_nat i) = m_mem m (m_regs m RSP + 8 * of_nat k + 8 * of_nat i)"
    unfolding a by (simp add: call_fn_def Let_def del: of_nat_Suc)
qed

section \<open>Interrupt frames\<close>

text \<open>
  The interrupt routines save every general register but \<open>RSP\<close>, \<open>RAX\<close> first, so \<open>R15\<close> lies lowest.  All of
  a processor's state that a return from an interrupt reloads is its \<open>cpu_frame\<close>.
\<close>

definition saved_regs :: "reg list" where
  "saved_regs = [R15, R14, R13, R12, R11, R10, R9, R8, RDI, RSI, RBP, RBX, RDX, RCX, RAX]"

definition hw_frame :: "machine \<Rightarrow> u64 list" where
  "hw_frame m = [m_rip m, m_cs m, m_rflags m, m_regs m RSP, m_ss m]"

definition cpu_frame :: "machine \<Rightarrow> u64 list" where
  "cpu_frame m = map (m_regs m) saved_regs @ hw_frame m"

lemma saved_regs_facts: "distinct saved_regs" "RSP \<notin> set saved_regs" "length saved_regs = 15"
  by (simp_all add: saved_regs_def)

lemma iretq_frame: "hw_frame (iretq m) = words_at (m_mem m) (m_regs m RSP) 5"
  by (simp add: hw_frame_def iretq_def Let_def eval_nat_numeral algebra_simps)

lemma iretq_regs: "r \<noteq> RSP \<Longrightarrow> m_regs (iretq m) r = m_regs m r" and iretq_mem: "m_mem (iretq m) = m_mem m"
  by (simp_all add: iretq_def Let_def)

text \<open>Popping all registers and skipping \<open>k\<close> words before \<open>iretq\<close>.\<close>

definition resume_code :: "u64 \<Rightarrow> instr list" where
  "resume_code k = map Pop saved_regs @ [AddImm RSP k]"

lemma exec_resume:
  "m_mem (exec (resume_code k) m) = m_mem m"
  "map (m_regs (exec (resume_code k) m)) saved_regs = words_at (m_mem m) (m_regs m RSP) 15"
  "m_regs (exec (resume_code k) m) RSP = m_regs m RSP + 120 + k"
proof -
  note regs = exec_pops [OF saved_regs_facts(2), of m]
  show "m_mem (exec (resume_code k) m) = m_mem m" by (simp add: resume_code_def exec_append exec_pops_frame)
  show "m_regs (exec (resume_code k) m) RSP = m_regs m RSP + 120 + k"
    by (simp add: resume_code_def exec_append regs saved_regs_facts)
  have "map (m_regs (exec (resume_code k) m)) saved_regs = map (popped saved_regs (m_regs m RSP) (m_mem m) (m_regs m)) saved_regs"
    by (rule map_cong [OF refl]) (use saved_regs_facts in \<open>auto simp: resume_code_def exec_append regs\<close>)
  then show "map (m_regs (exec (resume_code k) m)) saved_regs = words_at (m_mem m) (m_regs m RSP) 15"
    using popped_words [OF saved_regs_facts(1)] saved_regs_facts(3) by simp
qed

text \<open>Returning through a frame whose first skipped word is at \<open>RSP + 120\<close> reloads the words of the frame around it.\<close>

lemma resume_frame:
  "cpu_frame (iretq (exec (resume_code k) m))
    = words_at (m_mem m) (m_regs m RSP) 15 @ words_at (m_mem m) (m_regs m RSP + 120 + k) 5"
proof -
  have regs: "map (m_regs (iretq m')) saved_regs = map (m_regs m') saved_regs" for m'
    by (rule map_cong [OF refl], rule iretq_regs) (use saved_regs_facts(2) in auto)
  show ?thesis unfolding cpu_frame_def iretq_frame regs exec_resume ..
qed

text \<open>A machine whose every word of memory holds its own address, for examples.\<close>

definition example_machine :: machine where
  "example_machine = \<lparr>m_regs = (\<lambda>r. 0)(RDI := 0x1000, RSI := 0x2000, RSP := 0x3000, RAX := 7, R12 := 5), m_rip = 0x100000, m_cs = 8,
     m_ss = 16, m_rflags = 0x202, m_mem = (\<lambda>a. a)\<rparr>"

end
