(* ===== verification/Run_Queue.thy ===== *)
theory Run_Queue
  imports Task
begin

text \<open>
  The run queue (\<open>scheduler/queue.rs\<close>): 64 slots, each empty or holding a task id, and a count.
  A queue represents the set of ids in its slots; \<open>rotate\<close> is shown to be a rotation of all slots,
  which gives every task its turn within 64 rotations but is not the round robin its comment names.
\<close>

section \<open>Definitions\<close>

definition MAX_TASKS :: usize where
  "MAX_TASKS = 64"

record RunQueue =
  queue_tasks :: "TaskId option list"
  queue_count :: usize

definition RunQueue_new :: RunQueue where
  "RunQueue_new = \<lparr>queue_tasks = replicate MAX_TASKS None, queue_count = 0\<rparr>"

definition RunQueue_push :: "TaskId \<Rightarrow> RunQueue \<Rightarrow> (bool \<times> RunQueue) run" where
  "RunQueue_push i q =
     (if MAX_TASKS \<le> queue_count q then ret (False, q)
      else if first_index (\<lambda>slot. slot = Some i) (queue_tasks q) \<noteq> None then ret (False, q)
      else case first_index (\<lambda>slot. slot = None) (queue_tasks q) of
        None \<Rightarrow> ret (False, q)
      | Some k \<Rightarrow> do {
          n \<leftarrow> usize_add (queue_count q) 1;
          ret (True, q\<lparr>queue_tasks := (queue_tasks q)[k := Some i], queue_count := n\<rparr>) })"

definition RunQueue_remove :: "TaskId \<Rightarrow> RunQueue \<Rightarrow> (bool \<times> RunQueue) run" where
  "RunQueue_remove i q =
     (case first_index (\<lambda>slot. slot = Some i) (queue_tasks q) of
        None \<Rightarrow> ret (False, q)
      | Some k \<Rightarrow> do {
          n \<leftarrow> usize_sub (queue_count q) 1;
          ret (True, q\<lparr>queue_tasks := (queue_tasks q)[k := None], queue_count := n\<rparr>) })"

definition RunQueue_contains :: "TaskId \<Rightarrow> RunQueue \<Rightarrow> bool" where
  "RunQueue_contains i q = (first_index (\<lambda>slot. slot = Some i) (queue_tasks q) \<noteq> None)"

definition RunQueue_len :: "RunQueue \<Rightarrow> usize" where
  "RunQueue_len q = queue_count q"

definition RunQueue_is_empty :: "RunQueue \<Rightarrow> bool" where
  "RunQueue_is_empty q = (queue_count q = 0)"

definition RunQueue_first :: "RunQueue \<Rightarrow> TaskId option" where
  "RunQueue_first q =
     (case first_index (\<lambda>slot. slot \<noteq> None) (queue_tasks q) of None \<Rightarrow> None | Some k \<Rightarrow> queue_tasks q ! k)"

text \<open>\<open>for index in 0..n { a[index] = a[index + 1]; }\<close>\<close>

fun shift_loop :: "usize list \<Rightarrow> 'a list \<Rightarrow> 'a list run" where
  "shift_loop [] a = ret a"
| "shift_loop (index # is) a = do {
     j \<leftarrow> usize_add index 1;
     v \<leftarrow> arr_get a j;
     a \<leftarrow> arr_set a index v;
     shift_loop is a }"

definition RunQueue_rotate :: "RunQueue \<Rightarrow> RunQueue run" where
  "RunQueue_rotate q =
     (if queue_count q \<le> 1 then ret q
      else do {
        first \<leftarrow> arr_get (queue_tasks q) 0;
        a \<leftarrow> shift_loop [0..<MAX_TASKS - 1] (queue_tasks q);
        a \<leftarrow> arr_set a (MAX_TASKS - 1) first;
        ret (q\<lparr>queue_tasks := a\<rparr>) })"

definition RunQueue_state_for :: "TaskId \<Rightarrow> RunQueue \<Rightarrow> TaskState option" where
  "RunQueue_state_for i q = (if RunQueue_contains i q then Some Ready else None)"

section \<open>The invariant and the queued tasks\<close>

definition queued :: "RunQueue \<Rightarrow> TaskId set" where
  "queued q = {i. Some i \<in> set (queue_tasks q)}"

abbreviation slots_used :: "TaskId option list \<Rightarrow> nat" where
  "slots_used xs \<equiv> length (filter (\<lambda>x. x \<noteq> None) xs)"

fun no_duplicates :: "'a option list \<Rightarrow> bool" where
  "no_duplicates [] = True"
| "no_duplicates (x # xs) = ((x = None \<or> x \<notin> set xs) \<and> no_duplicates xs)"

definition RunQueue_inv :: "RunQueue \<Rightarrow> bool" where
  "RunQueue_inv q \<longleftrightarrow> length (queue_tasks q) = MAX_TASKS \<and> queue_count q = slots_used (queue_tasks q)
     \<and> no_duplicates (queue_tasks q)"

lemma no_duplicates_empty: "no_duplicates (replicate n None)"
  by (induction n) auto

lemma RunQueue_new_inv [inv_intros]: "RunQueue_inv RunQueue_new"
  by (simp add: RunQueue_inv_def RunQueue_new_def no_duplicates_empty)

lemma queued_new [simp]: "queued RunQueue_new = {}"
  by (auto simp: queued_def RunQueue_new_def)

lemma no_duplicates_append:
  "no_duplicates (xs @ ys) \<longleftrightarrow> no_duplicates xs \<and> no_duplicates ys \<and> (\<forall>v. \<not> (Some v \<in> set xs \<and> Some v \<in> set ys))"
  by (induction xs) auto

lemma no_duplicates_nth:
  assumes "no_duplicates xs" and "i < length xs" "j < length xs" and "xs ! i = Some v" "xs ! j = Some v"
  shows "i = j"
  using assms
proof (induction xs arbitrary: i j)
  case (Cons x xs)
  then show ?case by (cases i; cases j) (auto dest: nth_mem)
qed simp

lemma split_at:
  assumes "k < length xs"
  obtains us vs where "xs = us @ xs ! k # vs" and "\<And>v. xs[k := v] = us @ v # vs" and "length us = k"
  by (rule that [of "take k xs" "drop (Suc k) xs"]) (use assms in \<open>simp_all add: id_take_nth_drop upd_conv_take_nth_drop\<close>)

lemma slots_fill:
  assumes "k < length xs" and "xs ! k = None" and "no_duplicates xs" and "Some v \<notin> set xs"
  shows "no_duplicates (xs[k := Some v])" and "{i. Some i \<in> set (xs[k := Some v])} = insert v {i. Some i \<in> set xs}"
    and "slots_used (xs[k := Some v]) = Suc (slots_used xs)"
proof -
  obtain us vs where xs: "xs = us @ None # vs" "xs[k := Some v] = us @ Some v # vs"
    using split_at [OF assms(1)] assms(2) by metis
  show "no_duplicates (xs[k := Some v])" "slots_used (xs[k := Some v]) = Suc (slots_used xs)"
    "{i. Some i \<in> set (xs[k := Some v])} = insert v {i. Some i \<in> set xs}"
    unfolding xs(2) using assms(3,4) by (auto simp: xs(1) no_duplicates_append)
qed

lemma slots_clear:
  assumes "k < length xs" and "xs ! k = Some v" and "no_duplicates xs"
  shows "no_duplicates (xs[k := None])" and "{i. Some i \<in> set (xs[k := None])} = {i. Some i \<in> set xs} - {v}"
    and "slots_used xs = Suc (slots_used (xs[k := None]))"
proof -
  obtain us vs where xs: "xs = us @ Some v # vs" "xs[k := None] = us @ None # vs"
    using split_at [OF assms(1)] assms(2) by metis
  show "no_duplicates (xs[k := None])" "slots_used xs = Suc (slots_used (xs[k := None]))"
    "{i. Some i \<in> set (xs[k := None])} = {i. Some i \<in> set xs} - {v}"
    unfolding xs(2) using assms(3) by (auto simp: xs(1) no_duplicates_append)
qed

lemma card_slots: "no_duplicates xs \<Longrightarrow> card {i. Some i \<in> set xs} = slots_used xs"
proof (induction xs)
  case Nil
  then show ?case by simp
next
  case (Cons x xs)
  then have IH: "card {i. Some i \<in> set xs} = slots_used xs" by simp
  have fin: "finite {i. Some i \<in> set xs}"
    by (rule finite_subset [of _ "the ` set xs"]) force+
  show ?case
  proof (cases x)
    case None
    then show ?thesis using IH by simp
  next
    case (Some v)
    then have "{i. Some i \<in> set (x # xs)} = insert v {i. Some i \<in> set xs}" by auto
    then show ?thesis using Some IH fin Cons.prems by simp
  qed
qed

lemma RunQueue_count_card: "RunQueue_inv q \<Longrightarrow> queue_count q = card (queued q)"
  by (simp add: RunQueue_inv_def queued_def card_slots)

lemma RunQueue_contains_iff [simp]: "RunQueue_contains i q \<longleftrightarrow> i \<in> queued q"
  by (auto simp: RunQueue_contains_def first_index_None queued_def)

lemma finite_queued [simp]: "finite (queued q)"
proof -
  have "queued q \<subseteq> the ` set (queue_tasks q)" by (force simp: queued_def)
  then show ?thesis by (rule finite_subset) simp
qed

section \<open>Operations\<close>

lemma RunQueue_push_cases:
  assumes "RunQueue_inv q"
  obtains (pushed) q' where "i \<notin> queued q" "card (queued q) < MAX_TASKS" "RunQueue_push i q = ret (True, q')"
      "RunQueue_inv q'" "queued q' = insert i (queued q)"
  | (refused) "i \<in> queued q \<or> card (queued q) = MAX_TASKS" "RunQueue_push i q = ret (False, q)"
proof -
  have inv: "length (queue_tasks q) = MAX_TASKS" "queue_count q = slots_used (queue_tasks q)" "no_duplicates (queue_tasks q)"
    and card: "queue_count q = card (queued q)"
    using assms RunQueue_count_card [OF assms] by (auto simp: RunQueue_inv_def)
  have le: "queue_count q \<le> MAX_TASKS" unfolding inv(2) inv(1) [symmetric] by (rule length_filter_le)
  show ?thesis
  proof (cases "i \<in> queued q \<or> MAX_TASKS \<le> queue_count q")
    case True
    then have "RunQueue_push i q = ret (False, q)"
      by (auto simp: RunQueue_push_def queued_def first_index_None)
    then show ?thesis using refused True le card by auto
  next
    case False
    then have "slots_used (queue_tasks q) < length (queue_tasks q)" using inv by auto
    then obtain k where k: "first_index (\<lambda>s. s = None) (queue_tasks q) = Some k"
      using first_index_ex [of None "queue_tasks q"] by (metis (mono_tags) filter_True less_irrefl)
    have free: "k < length (queue_tasks q)" "queue_tasks q ! k = None" using first_index_SomeD [OF k] by auto
    have new: "Some i \<notin> set (queue_tasks q)" using False by (simp add: queued_def)
    note fill = slots_fill [OF free inv(3) new]
    have "first_index (\<lambda>s. s = Some i) (queue_tasks q) = None" using new by (auto simp: first_index_None)
    moreover have "usize_add (queue_count q) 1 = ret (Suc (queue_count q))"
      using le by (simp add: usize_add_def MAX_TASKS_def)
    ultimately have "RunQueue_push i q
        = ret (True, q\<lparr>queue_tasks := (queue_tasks q)[k := Some i], queue_count := Suc (queue_count q)\<rparr>)"
      using False k by (simp add: RunQueue_push_def)
    then show ?thesis
      by (rule pushed [rotated 2]) (use False card fill inv in \<open>simp_all add: RunQueue_inv_def queued_def\<close>)
  qed
qed

lemma RunQueue_remove_cases:
  assumes "RunQueue_inv q"
  obtains (removed) q' where "i \<in> queued q" "RunQueue_remove i q = ret (True, q')" "RunQueue_inv q'" "queued q' = queued q - {i}"
  | (absent) "i \<notin> queued q" "RunQueue_remove i q = ret (False, q)"
proof (cases "first_index (\<lambda>s. s = Some i) (queue_tasks q)")
  case None
  then have "i \<notin> queued q" by (auto simp: queued_def first_index_None)
  then show ?thesis by (rule absent) (simp add: RunQueue_remove_def None)
next
  case (Some k)
  have inv: "length (queue_tasks q) = MAX_TASKS" "queue_count q = slots_used (queue_tasks q)" "no_duplicates (queue_tasks q)"
    using assms by (auto simp: RunQueue_inv_def)
  have at: "k < length (queue_tasks q)" "queue_tasks q ! k = Some i" using first_index_SomeD [OF Some] by auto
  note clear = slots_clear [OF at inv(3)]
  have "usize_sub (queue_count q) 1 = ret (slots_used ((queue_tasks q)[k := None]))"
    using clear(3) inv(2) by (simp add: usize_sub_def)
  then have run: "RunQueue_remove i q
      = ret (True, q\<lparr>queue_tasks := (queue_tasks q)[k := None], queue_count := slots_used ((queue_tasks q)[k := None])\<rparr>)"
    using Some by (simp add: RunQueue_remove_def)
  have "i \<in> queued q" using at by (auto simp: queued_def in_set_conv_nth)
  then show ?thesis
    by (rule removed [OF _ run]) (use inv clear in \<open>simp_all add: RunQueue_inv_def queued_def\<close>)
qed

lemma RunQueue_first_None: "RunQueue_first q = None \<longleftrightarrow> queued q = {}"
proof (cases "first_index (\<lambda>s. s \<noteq> None) (queue_tasks q)")
  case None
  then have "queued q = {}" by (auto simp: queued_def first_index_None)
  with None show ?thesis by (simp add: RunQueue_first_def del: not_None_eq)
next
  case (Some k)
  then show ?thesis
    using first_index_SomeD [OF Some] by (auto simp: RunQueue_first_def queued_def dest: nth_mem)
qed

lemma RunQueue_first_queued: "RunQueue_first q = Some i \<Longrightarrow> i \<in> queued q"
  using first_index_SomeD by (fastforce simp: RunQueue_first_def queued_def in_set_conv_nth split: option.splits)

section \<open>Rotation\<close>

lemma shift_loop_eq:
  assumes "length us + length ys < 2 ^ 64"
  shows "shift_loop [length us..<length us + length ys] (us @ x # ys) = ret (us @ ys @ [last (x # ys)])"
  using assms
proof (induction ys arbitrary: us x)
  case Nil
  then show ?case by simp
next
  case (Cons y ys)
  have "[length us..<length us + length (y # ys)] = length us # [length (us @ [y])..<length (us @ [y]) + length ys]"
    by (subst upt_conv_Cons) simp_all
  moreover have "usize_add (length us) 1 = ret (Suc (length us))" using Cons.prems by (simp add: usize_add_def)
  moreover have "arr_get (us @ x # y # ys) (Suc (length us)) = ret y" by (simp add: arr_get_def nth_append)
  moreover have "arr_set (us @ x # y # ys) (length us) y = ret ((us @ [y]) @ y # ys)"
    by (simp add: arr_set_def list_update_append)
  ultimately show ?case using Cons.IH [of "us @ [y]" y] Cons.prems by simp
qed

lemma RunQueue_rotate_eq:
  assumes "RunQueue_inv q"
  shows "RunQueue_rotate q = ret (if queue_count q \<le> 1 then q else q\<lparr>queue_tasks := rotate1 (queue_tasks q)\<rparr>)"
proof -
  have len: "length (queue_tasks q) = 64" using assms by (simp add: RunQueue_inv_def MAX_TASKS_def)
  then obtain x ys where xs: "queue_tasks q = x # ys" by (cases "queue_tasks q") auto
  with len have ys: "length ys = 63" by simp
  have "shift_loop [0..<63] (x # ys) = ret (ys @ [last (x # ys)])"
    using shift_loop_eq [of "[]" ys x] ys by simp
  moreover have "arr_set (ys @ [last (x # ys)]) 63 x = ret (ys @ [x])"
    using ys by (simp add: arr_set_def list_update_append)
  moreover have "arr_get (x # ys) 0 = ret x" by (simp add: arr_get_def)
  ultimately show ?thesis by (simp add: RunQueue_rotate_def xs MAX_TASKS_def)
qed

lemma rotate1_slots:
  "no_duplicates (rotate1 xs) = no_duplicates xs" "length (filter P (rotate1 xs)) = length (filter P xs)"
  by (cases xs; auto simp: no_duplicates_append)+

lemma RunQueue_rotate_inv:
  assumes "RunQueue_inv q"
  obtains q' where "RunQueue_rotate q = ret q'" "RunQueue_inv q'" "queued q' = queued q"
proof -
  have "RunQueue_inv (if queue_count q \<le> 1 then q else q\<lparr>queue_tasks := rotate1 (queue_tasks q)\<rparr>)"
    "queued (if queue_count q \<le> 1 then q else q\<lparr>queue_tasks := rotate1 (queue_tasks q)\<rparr>) = queued q"
    using assms by (simp_all add: RunQueue_inv_def rotate1_slots queued_def)
  then show ?thesis using that RunQueue_rotate_eq [OF assms] by blast
qed

text \<open>\<open>n\<close> calls of \<open>rotate\<close>, and the calls of \<open>push\<close> that fill a queue.\<close>

fun rotations :: "nat \<Rightarrow> RunQueue \<Rightarrow> RunQueue run" where
  "rotations 0 q = ret q"
| "rotations (Suc n) q = do { q \<leftarrow> RunQueue_rotate q; rotations n q }"

fun pushes :: "TaskId list \<Rightarrow> RunQueue \<Rightarrow> (bool list \<times> RunQueue) run" where
  "pushes [] q = ret ([], q)"
| "pushes (i # is) q = do { (b, q) \<leftarrow> RunQueue_push i q; (bs, q) \<leftarrow> pushes is q; ret (b # bs, q) }"

lemma rotations_eq:
  assumes "RunQueue_inv q"
  shows "rotations n q = ret (if queue_count q \<le> 1 then q else q\<lparr>queue_tasks := rotate n (queue_tasks q)\<rparr>)"
  using assms
proof (induction n arbitrary: q)
  case 0
  then show ?case by simp
next
  case (Suc n)
  let ?q = "q\<lparr>queue_tasks := rotate1 (queue_tasks q)\<rparr>"
  have "RunQueue_inv ?q" using Suc.prems by (simp add: RunQueue_inv_def rotate1_slots)
  from Suc.IH [OF this] Suc.IH [OF Suc.prems] show ?case
    by (simp add: RunQueue_rotate_eq [OF Suc.prems] rotate1_rotate_swap)
qed

lemma first_at_front: "queue_tasks q \<noteq> [] \<Longrightarrow> hd (queue_tasks q) = Some i \<Longrightarrow> RunQueue_first q = Some i"
  by (cases "queue_tasks q") (auto simp: RunQueue_first_def)

lemma first_after_rotations:
  assumes "RunQueue_inv q" and "1 < queue_count q" and "queue_tasks q ! (n mod MAX_TASKS) = Some i"
  shows "\<exists>q'. rotations n q = ret q' \<and> RunQueue_first q' = Some i"
proof -
  have len: "length (queue_tasks q) = MAX_TASKS" "queue_tasks q \<noteq> []"
    using assms(1) by (auto simp: RunQueue_inv_def MAX_TASKS_def)
  then have "hd (rotate n (queue_tasks q)) = Some i" using assms(3) by (simp add: hd_rotate_conv_nth)
  then show ?thesis
    using assms(2) len first_at_front [of "q\<lparr>queue_tasks := rotate n (queue_tasks q)\<rparr>"]
    by (simp add: rotations_eq [OF assms(1)])
qed

section \<open>Properties\<close>

text \<open>
  The element-by-element loop of \<open>rotate\<close> is the rotation of the array by one slot: it never panics,
  keeps the set of queued tasks and the count, and does nothing with at most one task.
\<close>

theorem run_queue_rotate_equiv:
  assumes "RunQueue_inv q"
  shows "\<exists>q'. RunQueue_rotate q = ret q' \<and> RunQueue_inv q' \<and> queued q' = queued q \<and> queue_count q' = queue_count q
    \<and> queue_tasks q' = (if queue_count q \<le> 1 then queue_tasks q else rotate1 (queue_tasks q))"
proof -
  obtain q' where q': "RunQueue_rotate q = ret q'" "RunQueue_inv q'" "queued q' = queued q"
    by (rule RunQueue_rotate_inv [OF assms])
  then have "q' = (if queue_count q \<le> 1 then q else q\<lparr>queue_tasks := rotate1 (queue_tasks q)\<rparr>)"
    using RunQueue_rotate_eq [OF assms] by simp
  with q' show ?thesis by (intro exI [of _ q']) simp
qed

text \<open>
  No task starves: every queued task is the one \<open>first\<close> selects after some number of rotations
  below 64.
\<close>

theorem run_queue_no_starvation:
  assumes "RunQueue_inv q" and "i \<in> queued q"
  shows "\<exists>n < MAX_TASKS. \<exists>q'. rotations n q = ret q' \<and> RunQueue_first q' = Some i"
proof (cases "queue_count q \<le> 1")
  case True
  then have "queued q = {i}"
    using assms RunQueue_count_card [OF assms(1)] card_le_Suc0_iff_eq [of "queued q"] by auto
  then have "RunQueue_first q = Some i"
    using RunQueue_first_None [of q] RunQueue_first_queued [of q] by (cases "RunQueue_first q") auto
  then show ?thesis by (intro exI [of _ 0]) (simp add: MAX_TASKS_def)
next
  case False
  obtain k where "k < MAX_TASKS" "queue_tasks q ! k = Some i"
    using assms by (auto simp: queued_def in_set_conv_nth RunQueue_inv_def)
  then show ?thesis using first_after_rotations [OF assms(1), of k i] False by auto
qed

text \<open>The queue that pushing distinct tasks onto the empty queue gives.\<close>

definition filled :: "TaskId list \<Rightarrow> RunQueue" where
  "filled is = \<lparr>queue_tasks = map Some is @ replicate (MAX_TASKS - length is) None, queue_count = length is\<rparr>"

lemma filled_inv:
  assumes "distinct is" and "length is \<le> MAX_TASKS"
  shows "RunQueue_inv (filled is)" and "queued (filled is) = set is"
proof -
  have "no_duplicates (map Some is)" using assms(1) by (induction "is") auto
  moreover have "slots_used (map Some is) = length is" by (induction "is") auto
  ultimately show "RunQueue_inv (filled is)" using assms
    by (auto simp: RunQueue_inv_def filled_def no_duplicates_append no_duplicates_empty)
qed (auto simp: queued_def filled_def)

lemma pushes_filled:
  assumes "distinct (xs @ ys)" and "length (xs @ ys) \<le> MAX_TASKS"
  shows "pushes ys (filled xs) = ret (replicate (length ys) True, filled (xs @ ys))"
  using assms
proof (induction ys arbitrary: xs)
  case Nil
  then show ?case by simp
next
  case (Cons y ys)
  let ?a = "map Some xs @ replicate (MAX_TASKS - length xs) None"
  have lt: "length xs < MAX_TASKS" using Cons.prems by simp
  then obtain m where m: "MAX_TASKS - length xs = Suc m" "MAX_TASKS - Suc (length xs) = m"
    by (cases "MAX_TASKS - length xs") auto
  have "first_index (\<lambda>s. s = None) ?a = Some (length xs)"
    using m by (auto simp: first_index_Some nth_append)
  moreover have "first_index (\<lambda>s. s = Some y) ?a = None" using Cons.prems by (auto simp: first_index_None)
  moreover have "?a[length xs := Some y] = map Some (xs @ [y]) @ replicate m None"
    using m by (simp add: list_update_append)
  ultimately have "RunQueue_push y (filled xs) = ret (True, filled (xs @ [y]))"
    using lt m by (simp add: RunQueue_push_def filled_def usize_add_def MAX_TASKS_def)
  then show ?case using Cons.IH [of "xs @ [y]"] Cons.prems by simp
qed

lemma first_rotate_filled:
  assumes "is \<noteq> []" and "length is \<le> j" and "j < MAX_TASKS"
  shows "RunQueue_first (filled is\<lparr>queue_tasks := rotate j (queue_tasks (filled is))\<rparr>) = Some (hd is)"
proof -
  let ?xs = "map Some is @ replicate (MAX_TASKS - length is) None"
  have "rotate j ?xs = drop j ?xs @ take j ?xs" using assms by (simp add: rotate_drop_take)
  also have "drop j ?xs = replicate (MAX_TASKS - j) None" using assms by simp
  also have "take j ?xs = Some (hd is) # map Some (tl is) @ replicate (j - length is) None"
    using assms by (simp add: take_map min_def) (cases "is"; simp)
  finally have "first_index (\<lambda>s. s \<noteq> None) (rotate j ?xs) = Some (MAX_TASKS - j)"
    and "rotate j ?xs ! (MAX_TASKS - j) = Some (hd is)"
    by (auto simp: first_index_Some nth_append)
  then show ?thesis by (simp add: RunQueue_first_def filled_def)
qed

text \<open>
  \<open>rotate\<close> is not round robin.  With \<open>n\<close> tasks pushed onto an empty queue, \<open>2 \<le> n \<le> 64\<close>, the task
  selected after \<open>k\<close> rotations is task \<open>k mod 64\<close> when there is one and otherwise the first task, so in
  every 64 rotations the first task is selected \<open>65 - n\<close> times and every other task once.
\<close>

theorem run_queue_first_task_favoured:
  assumes "distinct is" and "2 \<le> length is" and "length is \<le> MAX_TASKS"
  shows "\<exists>q q'. pushes is RunQueue_new = ret (replicate (length is) True, q) \<and> rotations k q = ret q'
    \<and> RunQueue_first q' = Some (if k mod MAX_TASKS < length is then is ! (k mod MAX_TASKS) else is ! 0)"
proof -
  let ?q = "filled is"
  have push: "pushes is RunQueue_new = ret (replicate (length is) True, ?q)"
    using pushes_filled [of "[]" "is"] assms by (simp add: filled_def RunQueue_new_def)
  have inv: "RunQueue_inv ?q" "1 < queue_count ?q" using filled_inv [OF assms(1,3)] assms(2) by (auto simp: filled_def)
  have len: "length (queue_tasks ?q) = MAX_TASKS" using inv(1) by (simp add: RunQueue_inv_def)
  show ?thesis
  proof (cases "k mod MAX_TASKS < length is")
    case True
    then have "queue_tasks ?q ! (k mod MAX_TASKS) = Some (is ! (k mod MAX_TASKS))" by (simp add: filled_def nth_append)
    from first_after_rotations [OF inv this] show ?thesis using push True by auto
  next
    case False
    have ne: "is \<noteq> []" using assms(2) by auto
    have "rotate k (queue_tasks ?q) = rotate (k mod MAX_TASKS) (queue_tasks ?q)"
      using rotate_conv_mod [of k "queue_tasks ?q"] len by simp
    then have "RunQueue_first (?q\<lparr>queue_tasks := rotate k (queue_tasks ?q)\<rparr>) = Some (hd is)"
      using first_rotate_filled [OF ne, of "k mod MAX_TASKS"] False by (simp add: MAX_TASKS_def)
    then show ?thesis using push False inv(2) ne by (simp add: rotations_eq [OF inv(1)] hd_conv_nth)
  qed
qed

theorem run_queue_rotate_equiv_witness:
  "\<exists>q'. RunQueue_rotate (filled [7, 9]) = ret q' \<and> queued q' = {7, 9} \<and> RunQueue_inv q'"
proof -
  have "RunQueue_inv (filled [7, 9])" "queued (filled [7, 9]) = {7, 9}"
    using filled_inv [of "[7, 9]"] by (simp_all add: MAX_TASKS_def)
  then show ?thesis using run_queue_rotate_equiv [of "filled [7, 9]"] by auto
qed

theorem run_queue_no_starvation_witness:
  "\<exists>n < MAX_TASKS. \<exists>q'. rotations n (filled [7, 9]) = ret q' \<and> RunQueue_first q' = Some 9"
  by (rule run_queue_no_starvation) (use filled_inv [of "[7, 9]"] in \<open>simp_all add: MAX_TASKS_def\<close>)

theorem run_queue_first_task_favoured_witness:
  "\<exists>q q'. pushes [7, 9] RunQueue_new = ret ([True, True], q) \<and> rotations 5 q = ret q' \<and> RunQueue_first q' = Some 7"
  using run_queue_first_task_favoured [of "[7, 9]" 5] by (simp add: MAX_TASKS_def numeral_2_eq_2)

end
