(* ===== verification/Scheduler.thy ===== *)
theory Scheduler
  imports Run_Queue
begin

text \<open>
  The scheduler (\<open>scheduler/mod.rs\<close>): the table of tasks, the run queue, the timer interrupt that
  preempts the current task, and the routines that create and start tasks.

  The static variables of the module, the memory the task stacks live in, the callee-saved registers
  of the processor and the text printed form the record \<open>Globals\<close>.  The addresses the linker chooses
  are the record \<open>Layout\<close>, a parameter.  A \<open>Task\<close> that is moved takes the bytes of its stack along.
\<close>

section \<open>The scheduler object\<close>

definition MAX_SCHEDULER_TASKS :: usize where
  "MAX_SCHEDULER_TASKS = 8"

definition DEFAULT_TIME_SLICE_TICKS :: u64 where
  "DEFAULT_TIME_SLICE_TICKS = 5"

record Scheduler =
  run_queue :: RunQueue
  current_task :: "TaskId option"
  task_count :: usize
  scheduler_ticks :: u64
  tasks :: "Task option list"

definition Scheduler_new :: Scheduler where
  "Scheduler_new = \<lparr>run_queue = RunQueue_new, current_task = None, task_count = 0, scheduler_ticks = 0,
     tasks = replicate MAX_SCHEDULER_TASKS None\<rparr>"

text \<open>
  \<open>create_task\<close> also returns the slot the task was moved to, which decides the address of its stack.
\<close>

definition Scheduler_create_task :: "Task \<Rightarrow> Scheduler \<Rightarrow> ((TaskId \<times> usize) option \<times> Scheduler) run" where
  "Scheduler_create_task t s =
     (if MAX_SCHEDULER_TASKS \<le> task_count s then ret (None, s)
      else do {
        (pushed, q) \<leftarrow> RunQueue_push (task_id t) (run_queue s);
        let s = s\<lparr>run_queue := q\<rparr>;
        if \<not> pushed then ret (None, s)
        else case first_index (\<lambda>slot. slot = None) (tasks s) of
          Some k \<Rightarrow> do {
            n \<leftarrow> usize_add (task_count s) 1;
            ret (Some (task_id t, k), s\<lparr>tasks := (tasks s)[k := Some t], task_count := n\<rparr>) }
        | None \<Rightarrow> do {
            (_, q) \<leftarrow> RunQueue_remove (task_id t) (run_queue s);
            ret (None, s\<lparr>run_queue := q\<rparr>) } })"

text \<open>The loop of \<open>task\<close>, \<open>task_mut\<close> and \<open>remove_task\<close>: the first slot with the task.\<close>

definition holds_task :: "TaskId \<Rightarrow> Task option \<Rightarrow> bool" where
  "holds_task i slot = (case slot of Some t \<Rightarrow> task_id t = i | None \<Rightarrow> False)"

definition Scheduler_task :: "TaskId \<Rightarrow> Scheduler \<Rightarrow> Task option" where
  "Scheduler_task i s = (case first_index (holds_task i) (tasks s) of None \<Rightarrow> None | Some k \<Rightarrow> tasks s ! k)"

text \<open>\<open>if let Some(task) = self.task_mut(i) { f(task) }\<close>\<close>

definition Scheduler_task_mut :: "TaskId \<Rightarrow> (Task \<Rightarrow> Task) \<Rightarrow> Scheduler \<Rightarrow> Scheduler" where
  "Scheduler_task_mut i f s =
     (case first_index (holds_task i) (tasks s) of
        None \<Rightarrow> s
      | Some k \<Rightarrow> s\<lparr>tasks := (tasks s)[k := map_option f (tasks s ! k)]\<rparr>)"

definition Scheduler_set_current :: "TaskId \<Rightarrow> Scheduler \<Rightarrow> bool \<times> Scheduler" where
  "Scheduler_set_current i s =
     (if \<not> RunQueue_contains i (run_queue s) then (False, s) else (True, s\<lparr>current_task := Some i\<rparr>))"

definition Scheduler_current :: "Scheduler \<Rightarrow> TaskId option" where
  "Scheduler_current s = current_task s"

definition Scheduler_tick :: "Scheduler \<Rightarrow> Scheduler" where
  "Scheduler_tick s =
     (let s = s\<lparr>scheduler_ticks := scheduler_ticks s + 1\<rparr> in
      case current_task s of
        None \<Rightarrow> s
      | Some i \<Rightarrow> Scheduler_task_mut i
          (\<lambda>t. t\<lparr>total_ticks := total_ticks t + 1, time_slice_ticks := time_slice_ticks t + 1\<rparr>) s)"

definition Scheduler_schedule :: "Scheduler \<Rightarrow> Scheduler run" where
  "Scheduler_schedule s =
     (if RunQueue_is_empty (run_queue s) then ret (s\<lparr>current_task := None\<rparr>)
      else do {
        q \<leftarrow> RunQueue_rotate (run_queue s);
        ret (s\<lparr>run_queue := q, current_task := RunQueue_first q\<rparr>) })"

definition Scheduler_has_runnable_task :: "Scheduler \<Rightarrow> bool" where
  "Scheduler_has_runnable_task s = (\<not> RunQueue_is_empty (run_queue s))"

definition Scheduler_remove_task :: "TaskId \<Rightarrow> Scheduler \<Rightarrow> (bool \<times> Scheduler) run" where
  "Scheduler_remove_task i s = do {
     (removed, q) \<leftarrow> RunQueue_remove i (run_queue s);
     let s = s\<lparr>run_queue := q\<rparr>;
     if \<not> removed then ret (False, s)
     else do {
       let s = (case first_index (holds_task i) (tasks s) of
                  None \<Rightarrow> s | Some k \<Rightarrow> s\<lparr>tasks := (tasks s)[k := None]\<rparr>);
       n \<leftarrow> (if 0 < task_count s then usize_sub (task_count s) 1 else ret (task_count s));
       let s = s\<lparr>task_count := n\<rparr>;
       ret (True, if current_task s = Some i then s\<lparr>current_task := RunQueue_first (run_queue s)\<rparr> else s) } }"

definition Scheduler_task_state :: "TaskId \<Rightarrow> Scheduler \<Rightarrow> TaskState option" where
  "Scheduler_task_state i s = map_option task_state (Scheduler_task i s)"

section \<open>The invariant\<close>

definition task_ids :: "Scheduler \<Rightarrow> TaskId option list" where
  "task_ids s = map (map_option task_id) (tasks s)"

definition Scheduler_inv :: "Scheduler \<Rightarrow> bool" where
  "Scheduler_inv s \<longleftrightarrow> RunQueue_inv (run_queue s) \<and> length (tasks s) = MAX_SCHEDULER_TASKS
     \<and> no_duplicates (task_ids s) \<and> {i. Some i \<in> set (task_ids s)} = queued (run_queue s)
     \<and> task_count s = slots_used (task_ids s) \<and> set_option (current_task s) \<subseteq> queued (run_queue s)"

lemma Scheduler_invD:
  assumes "Scheduler_inv s"
  shows "RunQueue_inv (run_queue s)" and "length (tasks s) = MAX_SCHEDULER_TASKS" and "no_duplicates (task_ids s)"
    and "{i. Some i \<in> set (task_ids s)} = queued (run_queue s)" and "task_count s = slots_used (task_ids s)"
    and "set_option (current_task s) \<subseteq> queued (run_queue s)"
  using assms by (simp_all add: Scheduler_inv_def)

lemma Scheduler_new_inv [inv_intros]: "Scheduler_inv Scheduler_new"
  by (auto simp: Scheduler_inv_def Scheduler_new_def task_ids_def no_duplicates_empty RunQueue_new_inv)

text \<open>A scheduler represents a map from ids to tasks.\<close>

definition tasks_of :: "Scheduler \<Rightarrow> TaskId \<rightharpoonup> Task" where
  "tasks_of s = (\<lambda>i. Scheduler_task i s)"

text \<open>Lists of slots, seen as a map: what filling, clearing and changing a slot does.\<close>

definition slot_map :: "Task option list \<Rightarrow> TaskId \<rightharpoonup> Task" where
  "slot_map xs i = (case first_index (holds_task i) xs of None \<Rightarrow> None | Some k \<Rightarrow> xs ! k)"

lemma tasks_of_slot_map: "tasks_of s = slot_map (tasks s)"
  by (simp add: tasks_of_def Scheduler_task_def slot_map_def fun_eq_iff)

abbreviation ids :: "Task option list \<Rightarrow> TaskId option list" where
  "ids xs \<equiv> map (map_option task_id) xs"

lemma holds_task_iff: "holds_task i slot \<longleftrightarrow> map_option task_id slot = Some i"
  by (auto simp: holds_task_def split: option.splits)

lemma slot_map_Cons: "slot_map (x # xs) i = (if holds_task i x then x else slot_map xs i)"
  by (auto simp: slot_map_def split: option.splits)

lemma slot_map_Nil [simp]: "slot_map [] i = None"
  by (simp add: slot_map_def)

lemma slot_map_SomeD: "slot_map xs i = Some t \<Longrightarrow> task_id t = i \<and> Some t \<in> set xs"
  by (induction xs) (auto simp: slot_map_Cons holds_task_def split: option.splits if_splits)

lemma slot_map_None: "slot_map xs i = None \<longleftrightarrow> Some i \<notin> set (ids xs)"
proof (induction xs)
  case (Cons x xs)
  then show ?case by (cases x) (auto simp: slot_map_Cons holds_task_def)
qed simp

lemma dom_slot_map: "dom (slot_map xs) = {i. Some i \<in> set (ids xs)}"
  using slot_map_None by (auto simp: dom_def)

lemma slot_map_append: "slot_map (xs @ ys) i = (case slot_map xs i of None \<Rightarrow> slot_map ys i | Some t \<Rightarrow> Some t)"
  by (induction xs) (auto simp: slot_map_Cons holds_task_def split: option.splits)

lemma slot_map_fill:
  assumes "k < length xs" "xs ! k = None" "Some (task_id t) \<notin> set (ids xs)"
  shows "slot_map (xs[k := Some t]) = (slot_map xs)(task_id t \<mapsto> t)"
proof
  fix i
  obtain us vs where xs: "xs = us @ None # vs" "xs[k := Some t] = us @ Some t # vs"
    using split_at [OF assms(1)] assms(2) by metis
  have "slot_map us (task_id t) = None" using assms(3) by (simp add: slot_map_None xs(1))
  then show "slot_map (xs[k := Some t]) i = ((slot_map xs)(task_id t \<mapsto> t)) i"
    unfolding xs(2) by (auto simp: xs(1) slot_map_append slot_map_Cons holds_task_def split: option.splits)
qed

lemma slot_map_clear:
  assumes "k < length xs" "xs ! k = Some t" "no_duplicates (ids xs)"
  shows "slot_map (xs[k := None]) = (slot_map xs)(task_id t := None)"
proof
  fix i
  obtain us vs where xs: "xs = us @ Some t # vs" "xs[k := None] = us @ None # vs"
    using split_at [OF assms(1)] assms(2) by metis
  have "slot_map us (task_id t) = None" "slot_map vs (task_id t) = None"
    using assms(3) by (auto simp: slot_map_None xs(1) no_duplicates_append)
  then show "slot_map (xs[k := None]) i = ((slot_map xs)(task_id t := None)) i"
    unfolding xs(2) by (auto simp: xs(1) slot_map_append slot_map_Cons holds_task_def split: option.splits)
qed

lemma slot_map_change:
  assumes "k < length xs" "xs ! k = Some t" "no_duplicates (ids xs)" "task_id t' = task_id t"
  shows "slot_map (xs[k := Some t']) = (slot_map xs)(task_id t \<mapsto> t')" and "ids (xs[k := Some t']) = ids xs"
proof -
  obtain us vs where xs: "xs = us @ Some t # vs" "xs[k := Some t'] = us @ Some t' # vs"
    using split_at [OF assms(1)] assms(2) by metis
  then show "ids (xs[k := Some t']) = ids xs" using assms(4) by simp
  have *: "slot_map us (task_id t) = None"
    using assms(3) by (auto simp: slot_map_None xs(1) no_duplicates_append)
  show "slot_map (xs[k := Some t']) = (slot_map xs)(task_id t \<mapsto> t')"
  proof
    fix i
    show "slot_map (xs[k := Some t']) i = ((slot_map xs)(task_id t \<mapsto> t')) i"
      unfolding xs(2) using * assms(4)
      by (auto simp: xs(1) slot_map_append slot_map_Cons holds_task_def split: option.splits)
  qed
qed

section \<open>Operations keep the invariant\<close>

lemma tasks_of_id: "tasks_of s i = Some t \<Longrightarrow> task_id t = i"
  using slot_map_SomeD by (simp add: tasks_of_slot_map)

lemma dom_tasks_of: "Scheduler_inv s \<Longrightarrow> dom (tasks_of s) = queued (run_queue s)"
  by (simp add: tasks_of_slot_map dom_slot_map Scheduler_inv_def task_ids_def)

lemma task_count_card: "Scheduler_inv s \<Longrightarrow> task_count s = card (dom (tasks_of s))"
  using card_slots [of "task_ids s"] by (simp add: tasks_of_slot_map dom_slot_map Scheduler_inv_def task_ids_def)

lemma current_in_tasks: "Scheduler_inv s \<Longrightarrow> current_task s = Some i \<Longrightarrow> \<exists>t. tasks_of s i = Some t"
  using dom_tasks_of [of s] by (auto simp: Scheduler_inv_def dom_def)

lemma Scheduler_task_mut_frame:
  "run_queue (Scheduler_task_mut i f s) = run_queue s" "current_task (Scheduler_task_mut i f s) = current_task s"
  "task_count (Scheduler_task_mut i f s) = task_count s" "scheduler_ticks (Scheduler_task_mut i f s) = scheduler_ticks s"
  by (simp_all add: Scheduler_task_mut_def split: option.splits)

lemma Scheduler_task_mut_ok:
  assumes "Scheduler_inv s" and "\<And>t. task_id (f t) = task_id t"
  shows "Scheduler_inv (Scheduler_task_mut i f s)"
    and "tasks_of (Scheduler_task_mut i f s) = (tasks_of s)(i := map_option f (tasks_of s i))"
proof -
  have inv: "no_duplicates (ids (tasks s))" using assms(1) by (simp add: Scheduler_inv_def task_ids_def)
  show "Scheduler_inv (Scheduler_task_mut i f s)"
    and "tasks_of (Scheduler_task_mut i f s) = (tasks_of s)(i := map_option f (tasks_of s i))"
  proof (atomize (full), cases "first_index (holds_task i) (tasks s)")
    case None
    then have "tasks_of s i = None" by (simp add: tasks_of_slot_map slot_map_def)
    with None assms(1) show "Scheduler_inv (Scheduler_task_mut i f s)
      \<and> tasks_of (Scheduler_task_mut i f s) = (tasks_of s)(i := map_option f (tasks_of s i))"
      by (simp add: Scheduler_task_mut_def fun_upd_idem)
  next
    case (Some k)
    then obtain t where t: "k < length (tasks s)" "tasks s ! k = Some t" "task_id t = i"
      using first_index_SomeD [OF Some] by (auto simp: holds_task_def split: option.splits)
    then have "tasks_of s i = Some t" using Some by (simp add: tasks_of_slot_map slot_map_def)
    with slot_map_change [OF t(1,2) inv, of "f t"] Some t assms show "Scheduler_inv (Scheduler_task_mut i f s)
      \<and> tasks_of (Scheduler_task_mut i f s) = (tasks_of s)(i := map_option f (tasks_of s i))"
      by (simp add: Scheduler_task_mut_def tasks_of_slot_map Scheduler_inv_def task_ids_def)
  qed
qed

lemma Scheduler_tick_ok:
  assumes "Scheduler_inv s"
  shows "Scheduler_inv (Scheduler_tick s)" and "run_queue (Scheduler_tick s) = run_queue s"
    and "current_task (Scheduler_tick s) = current_task s" and "scheduler_ticks (Scheduler_tick s) = scheduler_ticks s + 1"
    and "tasks_of (Scheduler_tick s) = (case current_task s of None \<Rightarrow> tasks_of s
      | Some i \<Rightarrow> (tasks_of s)(i := map_option
          (\<lambda>t. t\<lparr>total_ticks := total_ticks t + 1, time_slice_ticks := time_slice_ticks t + 1\<rparr>) (tasks_of s i)))"
proof -
  let ?s = "s\<lparr>scheduler_ticks := scheduler_ticks s + 1\<rparr>"
  have inv: "Scheduler_inv ?s" using assms by (simp add: Scheduler_inv_def task_ids_def)
  have same: "tasks_of ?s = tasks_of s" by (simp add: tasks_of_slot_map)
  show "Scheduler_inv (Scheduler_tick s)" "run_queue (Scheduler_tick s) = run_queue s"
    "current_task (Scheduler_tick s) = current_task s" "scheduler_ticks (Scheduler_tick s) = scheduler_ticks s + 1"
    "tasks_of (Scheduler_tick s) = (case current_task s of None \<Rightarrow> tasks_of s
      | Some i \<Rightarrow> (tasks_of s)(i := map_option
          (\<lambda>t. t\<lparr>total_ticks := total_ticks t + 1, time_slice_ticks := time_slice_ticks t + 1\<rparr>) (tasks_of s i)))"
    using inv Scheduler_task_mut_ok [OF inv, of "\<lambda>t. t\<lparr>total_ticks := total_ticks t + 1, time_slice_ticks := time_slice_ticks t + 1\<rparr>"]
    by (auto simp: Scheduler_tick_def Let_def same Scheduler_task_mut_frame split: option.splits)
qed

lemma Scheduler_create_cases:
  assumes "Scheduler_inv s"
  obtains (created) k s' where "Scheduler_create_task t s = ret (Some (task_id t, k), s')" "Scheduler_inv s'"
      "task_id t \<notin> dom (tasks_of s)" "card (dom (tasks_of s)) < MAX_SCHEDULER_TASKS"
      "tasks_of s' = (tasks_of s)(task_id t \<mapsto> t)" "current_task s' = current_task s" "scheduler_ticks s' = scheduler_ticks s"
      "k < MAX_SCHEDULER_TASKS" "tasks s ! k = None" "tasks s' = (tasks s)[k := Some t]"
  | (refused) "Scheduler_create_task t s = ret (None, s)" "task_id t \<in> dom (tasks_of s) \<or> card (dom (tasks_of s)) = MAX_SCHEDULER_TASKS"
proof (cases "MAX_SCHEDULER_TASKS \<le> task_count s")
  case True
  moreover have "task_count s \<le> MAX_SCHEDULER_TASKS"
    using Scheduler_invD(2,5) [OF assms] length_filter_le [of "\<lambda>x. x \<noteq> None" "task_ids s"] by (simp add: task_ids_def)
  ultimately show ?thesis using refused task_count_card [OF assms] by (simp add: Scheduler_create_task_def)
next
  case False
  note inv = Scheduler_invD [OF assms]
  have card: "card (queued (run_queue s)) < MAX_SCHEDULER_TASKS"
    using False task_count_card [OF assms] dom_tasks_of [OF assms] by simp
  from inv(1) show ?thesis
  proof (cases rule: RunQueue_push_cases [of _ "task_id t"])
    case refused
    then have "task_id t \<in> dom (tasks_of s)" using card dom_tasks_of [OF assms] by (auto simp: MAX_TASKS_def MAX_SCHEDULER_TASKS_def)
    then show ?thesis using that(2) refused False by (simp add: Scheduler_create_task_def)
  next
    case (pushed q)
    have "\<not> (\<forall>x \<in> set (tasks s). x \<noteq> None)"
    proof
      assume "\<forall>x \<in> set (tasks s). x \<noteq> None"
      then have "filter (\<lambda>x. x \<noteq> None) (task_ids s) = task_ids s" by (auto simp: task_ids_def intro!: filter_True)
      then have "slots_used (task_ids s) = length (task_ids s)" by metis
      then show False using False inv(2,5) by (simp add: task_ids_def)
    qed
    then obtain k where k: "first_index (\<lambda>s. s = None) (tasks s) = Some k"
      using first_index_None [of "\<lambda>s. s = None" "tasks s"] by (cases "first_index (\<lambda>s. s = None) (tasks s)") auto
    have free: "k < length (tasks s)" "tasks s ! k = None" using first_index_SomeD [OF k] by auto
    have new: "Some (task_id t) \<notin> set (ids (tasks s))" using pushed(1) inv(4) by (auto simp: task_ids_def)
    have fill: "no_duplicates (ids ((tasks s)[k := Some t]))"
      "{i. Some i \<in> set (ids ((tasks s)[k := Some t]))} = insert (task_id t) (queued (run_queue s))"
      "slots_used (ids ((tasks s)[k := Some t])) = Suc (task_count s)"
      using slots_fill [of k "ids (tasks s)" "task_id t"] free new inv(3,4,5) by (simp_all add: map_update task_ids_def)
    let ?s = "s\<lparr>run_queue := q, tasks := (tasks s)[k := Some t], task_count := Suc (task_count s)\<rparr>"
    have run: "Scheduler_create_task t s = ret (Some (task_id t, k), ?s)"
      using False pushed(3) k by (simp add: Scheduler_create_task_def usize_add_def MAX_SCHEDULER_TASKS_def)
    have "Scheduler_inv ?s" using fill inv(2,6) pushed by (auto simp: Scheduler_inv_def task_ids_def)
    then show ?thesis
      by (rule that(1) [OF run]) (use slot_map_fill [OF free new] card dom_tasks_of [OF assms] pushed(1) free inv(2)
          in \<open>simp_all add: tasks_of_slot_map\<close>)
  qed
qed

lemma Scheduler_schedule_ok:
  assumes "Scheduler_inv s"
  obtains s' where "Scheduler_schedule s = ret s'" "Scheduler_inv s'" "tasks_of s' = tasks_of s" "tasks s' = tasks s"
    "scheduler_ticks s' = scheduler_ticks s"
    "current_task s' = None \<longleftrightarrow> dom (tasks_of s) = {}" "set_option (current_task s') \<subseteq> dom (tasks_of s)"
proof (cases "RunQueue_is_empty (run_queue s)")
  case True
  then have "queued (run_queue s) = {}"
    using RunQueue_count_card [OF Scheduler_invD(1) [OF assms]] by (simp add: RunQueue_is_empty_def)
  then show ?thesis
    using that [of "s\<lparr>current_task := None\<rparr>"] True assms dom_tasks_of [OF assms]
    by (simp add: Scheduler_schedule_def Scheduler_inv_def task_ids_def tasks_of_slot_map)
next
  case False
  then have ne: "queued (run_queue s) \<noteq> {}"
    using RunQueue_count_card [OF Scheduler_invD(1) [OF assms]] by (auto simp: RunQueue_is_empty_def)
  obtain q where q: "RunQueue_rotate (run_queue s) = ret q" "RunQueue_inv q" "queued q = queued (run_queue s)"
    by (rule RunQueue_rotate_inv [OF Scheduler_invD(1) [OF assms]])
  obtain i where i: "RunQueue_first q = Some i" "i \<in> queued (run_queue s)"
    using RunQueue_first_None [of q] RunQueue_first_queued [of q] ne q(3) by (cases "RunQueue_first q") auto
  let ?s = "s\<lparr>run_queue := q, current_task := RunQueue_first q\<rparr>"
  have "Scheduler_schedule s = ret ?s" using False q(1) by (simp add: Scheduler_schedule_def)
  moreover have "Scheduler_inv ?s" using assms q i by (simp add: Scheduler_inv_def task_ids_def)
  ultimately show ?thesis
    by (rule that) (use i ne dom_tasks_of [OF assms] in \<open>simp_all add: tasks_of_slot_map\<close>)
qed

lemma Scheduler_set_current_ok:
  assumes "Scheduler_inv s"
  obtains s' where "Scheduler_set_current i s = (i \<in> dom (tasks_of s), s')" "Scheduler_inv s'" "tasks_of s' = tasks_of s"
    "scheduler_ticks s' = scheduler_ticks s" "current_task s' = (if i \<in> dom (tasks_of s) then Some i else current_task s)"
proof -
  let ?s = "if i \<in> dom (tasks_of s) then s\<lparr>current_task := Some i\<rparr> else s"
  have "Scheduler_set_current i s = (i \<in> dom (tasks_of s), ?s)"
    using dom_tasks_of [OF assms] by (simp add: Scheduler_set_current_def)
  moreover have "Scheduler_inv ?s"
    using assms dom_tasks_of [OF assms] by (auto simp: Scheduler_inv_def task_ids_def)
  ultimately show ?thesis by (rule that) (simp_all add: tasks_of_slot_map)
qed

lemma Scheduler_remove_cases:
  assumes "Scheduler_inv s"
  obtains (removed) s' where "Scheduler_remove_task i s = ret (True, s')" "Scheduler_inv s'" "i \<in> dom (tasks_of s)"
      "tasks_of s' = (tasks_of s)(i := None)" "scheduler_ticks s' = scheduler_ticks s"
      "current_task s \<noteq> Some i \<Longrightarrow> current_task s' = current_task s"
      "current_task s = Some i \<Longrightarrow> current_task s' = None \<longleftrightarrow> dom (tasks_of s') = {}"
      "set_option (current_task s') \<subseteq> dom (tasks_of s')"
  | (absent) "Scheduler_remove_task i s = ret (False, s)" "i \<notin> dom (tasks_of s)"
  using Scheduler_invD(1) [OF assms]
proof (cases rule: RunQueue_remove_cases [of _ i])
  case absent
  then show ?thesis using that(2) dom_tasks_of [OF assms] by (simp add: Scheduler_remove_task_def)
next
  case (removed q)
  note inv = Scheduler_invD [OF assms]
  obtain k where k: "first_index (holds_task i) (tasks s) = Some k"
    using removed(1) dom_tasks_of [OF assms] by (fastforce simp: tasks_of_slot_map slot_map_def split: option.splits)
  obtain t where t: "k < length (tasks s)" "tasks s ! k = Some t" "task_id t = i"
    using first_index_SomeD [OF k] by (auto simp: holds_task_def split: option.splits)
  have dup: "no_duplicates (ids (tasks s))" using inv(3) by (simp add: task_ids_def)
  have clear: "no_duplicates (ids ((tasks s)[k := None]))"
    "{j. Some j \<in> set (ids ((tasks s)[k := None]))} = queued (run_queue s) - {i}"
    "task_count s = Suc (slots_used (ids ((tasks s)[k := None])))"
    using slots_clear [of k "ids (tasks s)" i] t inv(3,4,5) by (simp_all add: map_update task_ids_def)
  let ?s = "s\<lparr>run_queue := q, tasks := (tasks s)[k := None], task_count := task_count s - 1,
     current_task := if current_task s = Some i then RunQueue_first q else current_task s\<rparr>"
  have run: "Scheduler_remove_task i s = ret (True, ?s)"
    using removed(2) k clear(3) by (simp add: Scheduler_remove_task_def usize_sub_def)
  have map: "tasks_of ?s = (tasks_of s)(i := None)"
    using slot_map_clear [OF t(1,2) dup] t(3) by (simp add: tasks_of_slot_map)
  have cur: "set_option (current_task ?s) \<subseteq> queued q"
    using inv(6) removed(4) RunQueue_first_queued [of q] by (auto split: if_splits)
  have inv': "Scheduler_inv ?s" using clear inv(2) removed(3,4) cur by (simp add: Scheduler_inv_def task_ids_def)
  show ?thesis
    by (rule that(1) [OF run inv']) (use removed map dom_tasks_of [OF assms] dom_tasks_of [OF inv'] cur RunQueue_first_None [of q] in simp_all)
qed

end
