(* ===== verification/Preemption.thy ===== *)
theory Preemption
  imports Scheduler
begin

text \<open>
  The scheduler module's entry points (\<open>scheduler/mod.rs\<close>, from line 258 on): the timer interrupt that
  preempts the current task, the cooperative switches between kernel and tasks, and the two test
  drivers.

  \<open>g_cpu\<close> is the context \<open>context::switch\<close> would save: the callee-saved registers, the stack pointer
  after the call returns and the return address.  A switch saves \<open>g_cpu\<close> in one context and loads
  another into it; code that has been switched away from continues, when its context is loaded
  again, in the definition that models its remaining statements.
\<close>

section \<open>Static variables and layout\<close>

record Globals =
  SCHEDULER :: Scheduler
  TEST_KERNEL_CONTEXT :: TaskContext
  TEST_TASK_A_ID :: TaskId
  TEST_TASK_B_ID :: TaskId
  PREEMPT_SWITCH_DEBUG_COUNT :: u64
  PREEMPT_TASK_A_ID :: TaskId
  PREEMPT_TASK_B_ID :: TaskId
  PREEMPT_TICKS_A :: u64
  PREEMPT_TICKS_B :: u64
  NEXT_TASK_ID :: u64
  g_cpu :: TaskContext
  g_mem :: memory
  g_out :: string

text \<open>
  Addresses fixed at link time or by the stack frame of the caller: the stack of the task in each
  slot of the scheduler, those of the local \<open>Task\<close> values that are moved into it, and functions.
\<close>

record Layout =
  slot_stack :: "usize \<Rightarrow> u64"
  local_stack :: "usize \<Rightarrow> u64"
  task_exit_addr :: u64
  start_interrupt_context_addr :: u64
  task_bootstrap_addr :: u64
  preemptive_task_a_addr :: u64
  preemptive_task_b_addr :: u64

definition say :: "string \<Rightarrow> Globals \<Rightarrow> Globals" where
  "say s g = g\<lparr>g_out := g_out g @ s\<rparr>"

text \<open>\<open>Task::new\<close> of a local: its stack is zeroed.  A move copies the stack.\<close>

definition zero_stack :: "u64 \<Rightarrow> memory \<Rightarrow> memory" where
  "zero_stack base m = (\<lambda>a. if unat base \<le> unat a \<and> unat a < unat base + 16384 then 0 else m a)"

definition copy_stack :: "u64 \<Rightarrow> u64 \<Rightarrow> memory \<Rightarrow> memory" where
  "copy_stack src dst m = (\<lambda>a. if unat dst \<le> unat a \<and> unat a < unat dst + 16384 then m (src + (a - dst)) else m a)"

definition create_task_from :: "Layout \<Rightarrow> usize \<Rightarrow> Task \<Rightarrow> Globals \<Rightarrow> (TaskId option \<times> Globals) run" where
  "create_task_from L loc t g = do {
     (r, s) \<leftarrow> Scheduler_create_task t (SCHEDULER g);
     ret (map_option fst r, g\<lparr>SCHEDULER := s, g_mem := (case r of None \<Rightarrow> g_mem g
        | Some (_, k) \<Rightarrow> copy_stack (local_stack L loc) (slot_stack L k) (g_mem g))\<rparr>) }"

definition init :: "Globals \<Rightarrow> Globals" where
  "init g = g\<lparr>SCHEDULER := Scheduler_new, TEST_KERNEL_CONTEXT := TaskContext_empty, TEST_TASK_A_ID := 0, TEST_TASK_B_ID := 0\<rparr>"

definition timer_tick :: "Globals \<Rightarrow> Globals" where
  "timer_tick g = g\<lparr>SCHEDULER := Scheduler_tick (SCHEDULER g)\<rparr>"

section \<open>Interrupt frames\<close>

definition read_interrupt_frame_word :: "memory \<Rightarrow> u64 \<Rightarrow> usize \<Rightarrow> u64" where
  "read_interrupt_frame_word m rsp offset = m (rsp + of_nat offset)"

definition is_canonical_address :: "u64 \<Rightarrow> bool" where
  "is_canonical_address addr = (let upper = drop_bit 48 addr in upper = 0x0000 \<or> upper = 0xFFFF)"

definition validate_interrupt_frame :: "memory \<Rightarrow> u64 \<Rightarrow> bool" where
  "validate_interrupt_frame m rsp =
     (if rsp = 0 then False
      else
        let vector = read_interrupt_frame_word m rsp (15 * 8);
            rip = read_interrupt_frame_word m rsp (16 * 8);
            cs = read_interrupt_frame_word m rsp (17 * 8);
            rflags = read_interrupt_frame_word m rsp (18 * 8) in
        if vector \<noteq> 0x20 then False
        else if cs \<noteq> 0x08 then False
        else if rflags AND 0x2 = 0 then False
        else if \<not> is_canonical_address rip then False
        else if rip < 0x100000 \<or> 0x200000 \<le> rip then False
        else True)"

definition debug_interrupt_frame :: "memory \<Rightarrow> string \<Rightarrow> u64 \<Rightarrow> string run" where
  "debug_interrupt_frame m label rsp = do {
     h \<leftarrow> serial_write_hex64 rsp;
     let head = label @ ''RSP: 0x'' @ h @ crlf;
     if rsp = 0 then ret (head @ ''FRAME: NULL'' @ crlf)
     else do {
       h1 \<leftarrow> serial_write_hex64 (read_interrupt_frame_word m rsp (15 * 8));
       h2 \<leftarrow> serial_write_hex64 (read_interrupt_frame_word m rsp (16 * 8));
       h3 \<leftarrow> serial_write_hex64 (read_interrupt_frame_word m rsp (17 * 8));
       h4 \<leftarrow> serial_write_hex64 (read_interrupt_frame_word m rsp (18 * 8));
       ret (head @ ''VECTOR: 0x'' @ h1 @ crlf @ ''RIP: 0x'' @ h2 @ crlf @ ''CS: 0x'' @ h3 @ crlf
         @ ''RFLAGS: 0x'' @ h4 @ crlf
         @ (if validate_interrupt_frame m rsp then ''FRAME VALIDATION: PASS'' @ crlf
            else ''FRAME VALIDATION: FAIL'' @ crlf)) } }"

section \<open>The timer interrupt\<close>

definition preemptive_switch_text :: "memory \<Rightarrow> TaskId \<Rightarrow> TaskId \<Rightarrow> u64 \<Rightarrow> u64 \<Rightarrow> string run" where
  "preemptive_switch_text m current_id next_id current_interrupt_rsp next_rsp = do {
     h1 \<leftarrow> serial_write_hex64 current_id;
     h2 \<leftarrow> serial_write_hex64 next_id;
     h3 \<leftarrow> serial_write_hex64 current_interrupt_rsp;
     h4 \<leftarrow> serial_write_hex64 next_rsp;
     f \<leftarrow> debug_interrupt_frame m (''NEXT INTERRUPT FRAME'' @ crlf) next_rsp;
     ret (crlf @ ''*** PREEMPTIVE SWITCH ***'' @ crlf @ ''CURRENT TASK: 0x'' @ h1 @ crlf @ ''NEXT TASK: 0x'' @ h2 @ crlf
       @ ''CURRENT IRQ RSP: 0x'' @ h3 @ crlf @ ''NEXT IRQ RSP: 0x'' @ h4 @ crlf @ f) }"

text \<open>\<open>task.state = Running; task.time_slice_ticks = 0;\<close>\<close>

definition restart_slice :: "Task \<Rightarrow> Task" where
  "restart_slice t = t\<lparr>task_state := Running, time_slice_ticks := 0\<rparr>"

definition timer_interrupt :: "u64 \<Rightarrow> Globals \<Rightarrow> (u64 \<times> Globals) run" where
  "timer_interrupt current_interrupt_rsp g = (case current_task (SCHEDULER g) of
     None \<Rightarrow> ret (0, g)
   | Some current_id \<Rightarrow> (case Scheduler_task current_id (SCHEDULER g) of
       None \<Rightarrow> ret (0, g)
     | Some _ \<Rightarrow> do {
         let s = Scheduler_task_mut current_id
           (\<lambda>t. t\<lparr>interrupt_rsp := current_interrupt_rsp, task_state := Running\<rparr>) (SCHEDULER g);
         let s = Scheduler_tick s;
         let slice_expired = (case Scheduler_task current_id s of
           Some t \<Rightarrow> DEFAULT_TIME_SLICE_TICKS \<le> time_slice_ticks t | None \<Rightarrow> False);
         if \<not> slice_expired then ret (0, g\<lparr>SCHEDULER := s\<rparr>)
         else do {
           s \<leftarrow> Scheduler_schedule s;
           (case current_task s of
              None \<Rightarrow> ret (0, g\<lparr>SCHEDULER := Scheduler_task_mut current_id restart_slice s\<rparr>)
            | Some next_id \<Rightarrow>
                if next_id = current_id
                then ret (0, g\<lparr>SCHEDULER := Scheduler_task_mut current_id restart_slice s\<rparr>)
                else case Scheduler_task next_id s of
                  None \<Rightarrow> ret (0, g\<lparr>SCHEDULER :=
                    Scheduler_task_mut current_id restart_slice (s\<lparr>current_task := Some current_id\<rparr>)\<rparr>)
                | Some t \<Rightarrow> do {
                    let next_rsp = interrupt_rsp t;
                    debug_count \<leftarrow> padd (PREEMPT_SWITCH_DEBUG_COUNT g) 1;
                    let g = g\<lparr>PREEMPT_SWITCH_DEBUG_COUNT := debug_count\<rparr>;
                    msg \<leftarrow> (if debug_count \<le> 4
                            then preemptive_switch_text (g_mem g) current_id next_id current_interrupt_rsp next_rsp
                            else ret '''');
                    let g = say msg g;
                    if \<not> validate_interrupt_frame (g_mem g) next_rsp then do {
                      let g = say (crlf @ ''*** PREEMPTIVE SWITCH ABORTED ***'' @ crlf) g;
                      let g = say (''INVALID NEXT INTERRUPT FRAME'' @ crlf) g;
                      let s = s\<lparr>current_task := Some current_id\<rparr>;
                      let s = Scheduler_task_mut current_id restart_slice s;
                      let s = Scheduler_task_mut next_id (\<lambda>t. t\<lparr>task_state := Ready\<rparr>) s;
                      ret (0, g\<lparr>SCHEDULER := s\<rparr>) }
                    else do {
                      let s = Scheduler_task_mut current_id (\<lambda>t. t\<lparr>task_state := Ready\<rparr>) s;
                      let s = Scheduler_task_mut next_id restart_slice s;
                      ret (next_rsp, g\<lparr>SCHEDULER := s\<rparr>) } }) } }))"

definition schedule :: "Globals \<Rightarrow> Globals run" where
  "schedule g = do { s \<leftarrow> Scheduler_schedule (SCHEDULER g); ret (g\<lparr>SCHEDULER := s\<rparr>) }"

section \<open>Creating tasks and cooperative switches\<close>

definition create_initial_task :: "Layout \<Rightarrow> Globals \<Rightarrow> (TaskId option \<times> Globals) run" where
  "create_initial_task L g = do {
     let (i, n) = allocate_task_id (NEXT_TASK_ID g);
     let g = g\<lparr>NEXT_TASK_ID := n, g_mem := zero_stack (local_stack L 0) (g_mem g)\<rparr>;
     (t, m) \<leftarrow> Task_initialize_context (task_exit_addr L) (local_stack L 0) (task_bootstrap_addr L) (Task_new i 1, g_mem g);
     create_task_from L 0 t (g\<lparr>g_mem := m\<rparr>) }"

definition switch_kernel_to_task :: "TaskId \<Rightarrow> Globals \<Rightarrow> Globals" where
  "switch_kernel_to_task i g = (case Scheduler_task i (SCHEDULER g) of
     None \<Rightarrow> g
   | Some t \<Rightarrow> g\<lparr>SCHEDULER := (SCHEDULER g)\<lparr>current_task := Some i\<rparr>, TEST_KERNEL_CONTEXT := g_cpu g, g_cpu := task_context t\<rparr>)"

definition switch_task_to_task :: "TaskId \<Rightarrow> TaskId \<Rightarrow> Globals \<Rightarrow> Globals" where
  "switch_task_to_task old_id new_id g =
     (if old_id = new_id then g
      else case Scheduler_task old_id (SCHEDULER g) of
        None \<Rightarrow> g
      | Some _ \<Rightarrow> (case Scheduler_task new_id (SCHEDULER g) of
          None \<Rightarrow> g
        | Some t \<Rightarrow>
            let s = (SCHEDULER g)\<lparr>current_task := Some new_id\<rparr> in
            g\<lparr>SCHEDULER := Scheduler_task_mut old_id (\<lambda>old. old\<lparr>task_context := g_cpu g\<rparr>) s, g_cpu := task_context t\<rparr>))"

text \<open>The flag says whether the switch took place; without the task the caller spins forever.\<close>

definition switch_task_to_kernel :: "TaskId \<Rightarrow> Globals \<Rightarrow> bool \<times> Globals" where
  "switch_task_to_kernel i g = (case Scheduler_task i (SCHEDULER g) of
     None \<Rightarrow> (False, g)
   | Some _ \<Rightarrow>
       let s = (SCHEDULER g)\<lparr>current_task := None\<rparr> in
       (True, g\<lparr>SCHEDULER := Scheduler_task_mut i (\<lambda>t. t\<lparr>task_context := g_cpu g\<rparr>) s, g_cpu := TEST_KERNEL_CONTEXT g\<rparr>))"

definition context_test_task_a :: "Globals \<Rightarrow> Globals" where
  "context_test_task_a g =
     (let g = say (''TASK A: START'' @ crlf) g;
          task_a = TEST_TASK_A_ID g;
          task_b = TEST_TASK_B_ID g;
          g = say (''TASK A: SWITCH -> TASK B'' @ crlf) g in
      switch_task_to_task task_a task_b g)"

definition context_test_task_a_resumed :: "TaskId \<Rightarrow> Globals \<Rightarrow> bool \<times> Globals" where
  "context_test_task_a_resumed task_a g =
     (let g = say (''TASK A: RESUMED'' @ crlf) g;
          g = say (''TASK A: SWITCH -> KERNEL'' @ crlf) g in
      switch_task_to_kernel task_a g)"

definition context_test_task_b :: "Globals \<Rightarrow> Globals" where
  "context_test_task_b g =
     (let g = say (''TASK B: START'' @ crlf) g;
          task_a = TEST_TASK_A_ID g;
          task_b = TEST_TASK_B_ID g;
          g = say (''TASK B: SWITCH -> TASK A'' @ crlf) g in
      switch_task_to_task task_b task_a g)"

text \<open>
  \<open>run_context_switch_test\<close> up to the switch into task A; the flag says that the switch was reached.
  \<open>run_context_switch_test_resumed\<close> is what follows when the kernel's context is loaded again.
\<close>

definition run_context_switch_test :: "Layout \<Rightarrow> Globals \<Rightarrow> (bool \<times> TaskId \<times> TaskId \<times> Globals) run" where
  "run_context_switch_test L g = do {
     let g = say crlf g;
     let g = say (''================================'' @ crlf) g;
     let g = say (''PHASE 3.3 CONTEXT SWITCH TEST'' @ crlf) g;
     let g = say (''================================'' @ crlf) g;
     let (task_a_id, n) = allocate_task_id (NEXT_TASK_ID g);
     let (task_b_id, n) = allocate_task_id n;
     let g = g\<lparr>NEXT_TASK_ID := n, g_mem := zero_stack (local_stack L 1) (zero_stack (local_stack L 0) (g_mem g))\<rparr>;
     (created_a, g) \<leftarrow> create_task_from L 0 (Task_new task_a_id 1) g;
     if created_a = None
     then ret (False, task_a_id, task_b_id, say (''CONTEXT SWITCH: TASK A CREATE FAILED'' @ crlf) g)
     else do {
       (created_b, g) \<leftarrow> create_task_from L 1 (Task_new task_b_id 1) g;
       if created_b = None
       then ret (False, task_a_id, task_b_id, say (''CONTEXT SWITCH: TASK B CREATE FAILED'' @ crlf) g)
       else do {
         let g = g\<lparr>TEST_TASK_A_ID := task_a_id, TEST_TASK_B_ID := task_b_id\<rparr>;
         ha \<leftarrow> serial_write_hex64 task_a_id;
         hb \<leftarrow> serial_write_hex64 task_b_id;
         let g = say (''TASK A ID: 0x'' @ ha @ crlf @ ''TASK B ID: 0x'' @ hb @ crlf) g;
         ret (True, task_a_id, task_b_id, switch_kernel_to_task task_a_id g) } } }"

definition run_context_switch_test_resumed :: "TaskId \<Rightarrow> TaskId \<Rightarrow> Globals \<Rightarrow> Globals run" where
  "run_context_switch_test_resumed task_a_id task_b_id g = do {
     let g = say (''CONTEXT SWITCH: PASS'' @ crlf) g;
     (_, s) \<leftarrow> Scheduler_remove_task task_a_id (SCHEDULER g);
     (_, s) \<leftarrow> Scheduler_remove_task task_b_id s;
     let g = g\<lparr>SCHEDULER := s, TEST_TASK_A_ID := 0, TEST_TASK_B_ID := 0\<rparr>;
     ret (say (''CONTEXT TEST TASKS: CLEANED UP'' @ crlf) g) }"

definition current_task_id :: "Globals \<Rightarrow> TaskId option" where
  "current_task_id g = Scheduler_current (SCHEDULER g)"

section \<open>The preemptive test\<close>

text \<open>One pass of the loop of \<open>preemptive_task_a\<close> and of \<open>preemptive_task_b\<close>.\<close>

definition preemptive_task_a_iteration :: "Globals \<Rightarrow> Globals run" where
  "preemptive_task_a_iteration g = do {
     ticks \<leftarrow> padd (PREEMPT_TICKS_A g) 1;
     let g = g\<lparr>PREEMPT_TICKS_A := PREEMPT_TICKS_A g + 1\<rparr>;
     ret (if ticks = 1 then say (''PREEMPT A: RUNNING'' @ crlf) g else g) }"

definition preemptive_task_b_iteration :: "Globals \<Rightarrow> Globals run" where
  "preemptive_task_b_iteration g = do {
     ticks \<leftarrow> padd (PREEMPT_TICKS_B g) 1;
     let g = g\<lparr>PREEMPT_TICKS_B := PREEMPT_TICKS_B g + 1\<rparr>;
     ret (if ticks = 1 then say (''PREEMPT B: RUNNING'' @ crlf) g else g) }"

text \<open>
  \<open>if let Some(task) = task_mut(i) { task.initialize_interrupt_context(entry); task.prepare_preemptive_start(); }\<close>
  with the stack of the slot the task is in; the result is \<open>None\<close> in the \<open>else\<close> branch.
\<close>

definition start_preemptive :: "Layout \<Rightarrow> TaskId \<Rightarrow> u64 \<Rightarrow> Globals \<Rightarrow> Globals option run" where
  "start_preemptive L i entry g = (let s = SCHEDULER g in
     case first_index (holds_task i) (tasks s) of
       None \<Rightarrow> ret None
     | Some k \<Rightarrow> (case tasks s ! k of
         None \<Rightarrow> ret None
       | Some t \<Rightarrow> do {
           (t, m) \<leftarrow> Task_initialize_interrupt_context (slot_stack L k) entry (t, g_mem g);
           t \<leftarrow> Task_prepare_preemptive_start (start_interrupt_context_addr L) t;
           ret (Some (g\<lparr>SCHEDULER := s\<lparr>tasks := (tasks s)[k := Some t]\<rparr>, g_mem := m\<rparr>)) }))"

definition run_preemptive_test :: "Layout \<Rightarrow> Globals \<Rightarrow> (bool \<times> Globals) run" where
  "run_preemptive_test L g = do {
     let g = say (crlf @ ''PREEMPTIVE TEST: CREATING TASKS'' @ crlf) g;
     let (task_a_id, n) = allocate_task_id (NEXT_TASK_ID g);
     let (task_b_id, n) = allocate_task_id n;
     let g = g\<lparr>NEXT_TASK_ID := n, g_mem := zero_stack (local_stack L 1) (zero_stack (local_stack L 0) (g_mem g))\<rparr>;
     (created_a, g) \<leftarrow> create_task_from L 0 (Task_new task_a_id 1) g;
     if created_a = None then ret (False, say (''PREEMPTIVE TEST: TASK A CREATE FAILED'' @ crlf) g)
     else do {
       started \<leftarrow> start_preemptive L task_a_id (preemptive_task_a_addr L) g;
       (case started of
          None \<Rightarrow> do {
            let g = say (''PREEMPTIVE TEST: TASK A CONTEXT INIT FAILED'' @ crlf) g;
            (_, s) \<leftarrow> Scheduler_remove_task task_a_id (SCHEDULER g);
            ret (False, g\<lparr>SCHEDULER := s\<rparr>) }
        | Some g \<Rightarrow> do {
            (created_b, g) \<leftarrow> create_task_from L 1 (Task_new task_b_id 1) g;
            if created_b = None then do {
              let g = say (''PREEMPTIVE TEST: TASK B CREATE FAILED'' @ crlf) g;
              (_, s) \<leftarrow> Scheduler_remove_task task_a_id (SCHEDULER g);
              ret (False, g\<lparr>SCHEDULER := s\<rparr>) }
            else do {
              started \<leftarrow> start_preemptive L task_b_id (preemptive_task_b_addr L) g;
              (case started of
                 None \<Rightarrow> do {
                   let g = say (''PREEMPTIVE TEST: TASK B CONTEXT INIT FAILED'' @ crlf) g;
                   (_, s) \<leftarrow> Scheduler_remove_task task_b_id (SCHEDULER g);
                   (_, s) \<leftarrow> Scheduler_remove_task task_a_id s;
                   ret (False, g\<lparr>SCHEDULER := s\<rparr>) }
               | Some g \<Rightarrow> do {
                   let g = g\<lparr>PREEMPT_TASK_A_ID := task_a_id, PREEMPT_TASK_B_ID := task_b_id,
                             PREEMPT_TICKS_A := 0, PREEMPT_TICKS_B := 0\<rparr>;
                   let (_, s) = Scheduler_set_current task_a_id (SCHEDULER g);
                   let g = g\<lparr>SCHEDULER := Scheduler_task_mut task_a_id restart_slice s\<rparr>;
                   let g = say (''PREEMPTIVE TEST: TASK A READY'' @ crlf) g;
                   let g = say (''PREEMPTIVE TEST: TASK B READY'' @ crlf) g;
                   let g = say (''PREEMPTIVE TEST: STARTING TASK A'' @ crlf) g;
                   ret (True, switch_kernel_to_task task_a_id g) }) } }) } }"

section \<open>The timer interrupt on the map of tasks\<close>

text \<open>The current task once its frame is saved and the tick is accounted.\<close>

definition interrupted :: "u64 \<Rightarrow> Task \<Rightarrow> Task" where
  "interrupted rsp t = t\<lparr>interrupt_rsp := rsp, task_state := Running, total_ticks := total_ticks t + 1,
     time_slice_ticks := time_slice_ticks t + 1\<rparr>"

lemma Scheduler_task_of: "Scheduler_task i s = tasks_of s i"
  by (simp add: tasks_of_def)

lemma timer_text_ret: "\<exists>msg. preemptive_switch_text m c n r r' = ret msg"
  by (simp add: preemptive_switch_text_def debug_interrupt_frame_def serial_write_hex_digits Let_def)

inductive timer_spec :: "memory \<Rightarrow> u64 \<Rightarrow> TaskId option \<times> (TaskId \<rightharpoonup> Task) \<Rightarrow> u64 \<Rightarrow> TaskId option \<times> (TaskId \<rightharpoonup> Task) \<Rightarrow> bool"
  for m :: memory and rsp :: u64 where
  idle: "timer_spec m rsp (None, M) 0 (None, M)"
| continue: "M c = Some t \<Longrightarrow> time_slice_ticks t + 1 < DEFAULT_TIME_SLICE_TICKS
    \<Longrightarrow> timer_spec m rsp (Some c, M) 0 (Some c, M(c \<mapsto> interrupted rsp t))"
| same: "M c = Some t \<Longrightarrow> DEFAULT_TIME_SLICE_TICKS \<le> time_slice_ticks t + 1
    \<Longrightarrow> timer_spec m rsp (Some c, M) 0 (Some c, M(c \<mapsto> restart_slice (interrupted rsp t)))"
| abort: "M c = Some t \<Longrightarrow> DEFAULT_TIME_SLICE_TICKS \<le> time_slice_ticks t + 1 \<Longrightarrow> M n = Some u \<Longrightarrow> n \<noteq> c
    \<Longrightarrow> \<not> validate_interrupt_frame m (interrupt_rsp u)
    \<Longrightarrow> timer_spec m rsp (Some c, M) 0
          (Some c, M(c \<mapsto> restart_slice (interrupted rsp t), n \<mapsto> u\<lparr>task_state := Ready\<rparr>))"
| switch: "M c = Some t \<Longrightarrow> DEFAULT_TIME_SLICE_TICKS \<le> time_slice_ticks t + 1 \<Longrightarrow> M n = Some u \<Longrightarrow> n \<noteq> c
    \<Longrightarrow> validate_interrupt_frame m (interrupt_rsp u)
    \<Longrightarrow> timer_spec m rsp (Some c, M) (interrupt_rsp u)
          (Some n, M(c \<mapsto> (interrupted rsp t)\<lparr>task_state := Ready\<rparr>, n \<mapsto> restart_slice u))"

inductive_cases timer_spec_switchE: "timer_spec m rsp (Some c, M) r x"

definition sched_view :: "Globals \<Rightarrow> TaskId option \<times> (TaskId \<rightharpoonup> Task)" where
  "sched_view g = (current_task (SCHEDULER g), tasks_of (SCHEDULER g))"

lemma say_simps [simp]: "SCHEDULER (say s g) = SCHEDULER g" "g_mem (say s g) = g_mem g" "g_cpu (say s g) = g_cpu g"
  "PREEMPT_SWITCH_DEBUG_COUNT (say s g) = PREEMPT_SWITCH_DEBUG_COUNT g" "NEXT_TASK_ID (say s g) = NEXT_TASK_ID g"
  "TEST_TASK_A_ID (say s g) = TEST_TASK_A_ID g" "TEST_TASK_B_ID (say s g) = TEST_TASK_B_ID g"
  "TEST_KERNEL_CONTEXT (say s g) = TEST_KERNEL_CONTEXT g"
  by (simp_all add: say_def)

lemma set_current_inv:
  assumes "Scheduler_inv s" and "i \<in> dom (tasks_of s)"
  shows "Scheduler_inv (s\<lparr>current_task := Some i\<rparr>)" and "tasks_of (s\<lparr>current_task := x\<rparr>) = tasks_of s"
  using assms dom_tasks_of [OF assms(1)] by (simp_all add: Scheduler_inv_def task_ids_def tasks_of_slot_map)

text \<open>Saving the frame and accounting the tick.\<close>

lemma timer_account:
  fixes rsp :: u64
  assumes inv: "Scheduler_inv s" and cur: "current_task s = Some c" and t: "tasks_of s c = Some t"
  defines "s' \<equiv> Scheduler_tick (Scheduler_task_mut c (\<lambda>t. t\<lparr>interrupt_rsp := rsp, task_state := Running\<rparr>) s)"
  shows "Scheduler_inv s'" and "current_task s' = Some c" and "tasks_of s' = (tasks_of s)(c \<mapsto> interrupted rsp t)"
proof -
  let ?f = "\<lambda>t. t\<lparr>interrupt_rsp := rsp, task_state := Running\<rparr>"
  have mut: "Scheduler_inv (Scheduler_task_mut c ?f s)"
    "tasks_of (Scheduler_task_mut c ?f s) = (tasks_of s)(c := map_option ?f (tasks_of s c))"
    by (rule Scheduler_task_mut_ok [OF inv]; simp)+
  then show "Scheduler_inv s'" "current_task s' = Some c" "tasks_of s' = (tasks_of s)(c \<mapsto> interrupted rsp t)"
    using Scheduler_tick_ok [OF mut(1)] cur t mut(2) unfolding s'_def
    by (simp_all add: Scheduler_task_mut_frame interrupted_def)
qed

lemma restart_slice_id [simp]: "task_id (restart_slice t) = task_id t" "interrupt_rsp (restart_slice t) = interrupt_rsp t"
  "task_state (restart_slice t) = Running" "time_slice_ticks (restart_slice t) = 0" "total_ticks (restart_slice t) = total_ticks t"
  by (simp_all add: restart_slice_def)

lemma interrupted_simps [simp]: "task_id (interrupted r t) = task_id t" "interrupt_rsp (interrupted r t) = r"
  "task_state (interrupted r t) = Running" "time_slice_ticks (interrupted r t) = time_slice_ticks t + 1"
  "total_ticks (interrupted r t) = total_ticks t + 1"
  by (simp_all add: interrupted_def)

lemma task_mut_map:
  assumes "Scheduler_inv s" and "tasks_of s = M" and "M i = Some t" and "\<And>t. task_id (f t) = task_id t"
  shows "Scheduler_inv (Scheduler_task_mut i f s)" and "tasks_of (Scheduler_task_mut i f s) = M(i \<mapsto> f t)"
  using Scheduler_task_mut_ok [OF assms(1,4)] assms(2,3) by simp_all

text \<open>The decision after an expired time slice, with the scheduler's choice made.\<close>

lemma timer_decides:
  assumes inv: "Scheduler_inv s" and M: "tasks_of s = M(c \<mapsto> interrupted rsp t)" and c: "M c = Some t"
    and slice: "DEFAULT_TIME_SLICE_TICKS \<le> time_slice_ticks t + 1"
    and n: "current_task s = Some n" "n \<noteq> c" "M n = Some u"
  shows "\<not> validate_interrupt_frame m (interrupt_rsp u) \<Longrightarrow>
      let s' = Scheduler_task_mut n (\<lambda>t. t\<lparr>task_state := Ready\<rparr>) (Scheduler_task_mut c restart_slice (s\<lparr>current_task := Some c\<rparr>)) in
      Scheduler_inv s' \<and> timer_spec m rsp (Some c, M) 0 (current_task s', tasks_of s')"
    and "validate_interrupt_frame m (interrupt_rsp u) \<Longrightarrow>
      let s' = Scheduler_task_mut n restart_slice (Scheduler_task_mut c (\<lambda>t. t\<lparr>task_state := Ready\<rparr>) s) in
      Scheduler_inv s' \<and> timer_spec m rsp (Some c, M) (interrupt_rsp u) (current_task s', tasks_of s')"
proof -
  have cin: "c \<in> dom (tasks_of s)" using M by simp
  assume bad: "\<not> validate_interrupt_frame m (interrupt_rsp u)"
  let ?s1 = "Scheduler_task_mut c restart_slice (s\<lparr>current_task := Some c\<rparr>)"
  have "tasks_of (s\<lparr>current_task := Some c\<rparr>) = M(c \<mapsto> interrupted rsp t)" using set_current_inv(2) [OF inv cin] M by simp
  from task_mut_map [OF set_current_inv(1) [OF inv cin] this, of c "interrupted rsp t" restart_slice]
  have "Scheduler_inv ?s1" "tasks_of ?s1 = M(c \<mapsto> restart_slice (interrupted rsp t))" by simp_all
  note s2 = task_mut_map [OF this, of n u "\<lambda>t. t\<lparr>task_state := Ready\<rparr>"]
  then show "let s' = Scheduler_task_mut n (\<lambda>t. t\<lparr>task_state := Ready\<rparr>) ?s1 in
      Scheduler_inv s' \<and> timer_spec m rsp (Some c, M) 0 (current_task s', tasks_of s')"
    using timer_spec.abort [of M c t n u m rsp, OF c slice n(3,2) bad] n by (simp add: Scheduler_task_mut_frame)
next
  assume good: "validate_interrupt_frame m (interrupt_rsp u)"
  let ?s1 = "Scheduler_task_mut c (\<lambda>t. t\<lparr>task_state := Ready\<rparr>) s"
  from task_mut_map [OF inv M, of c "interrupted rsp t" "\<lambda>t. t\<lparr>task_state := Ready\<rparr>"]
  have "Scheduler_inv ?s1" "tasks_of ?s1 = M(c \<mapsto> (interrupted rsp t)\<lparr>task_state := Ready\<rparr>)" by simp_all
  note s2 = task_mut_map [OF this, of n u restart_slice]
  then show "let s' = Scheduler_task_mut n restart_slice ?s1 in
      Scheduler_inv s' \<and> timer_spec m rsp (Some c, M) (interrupt_rsp u) (current_task s', tasks_of s')"
    using timer_spec.switch [of M c t n u m rsp, OF c slice n(3,2) good] n by (simp add: Scheduler_task_mut_frame)
qed

lemma timer_interrupt_refines:
  assumes inv: "Scheduler_inv (SCHEDULER g)" and count: "unat (PREEMPT_SWITCH_DEBUG_COUNT g) + 1 < 2 ^ 64"
  shows "\<exists>r g'. timer_interrupt rsp g = ret (r, g') \<and> Scheduler_inv (SCHEDULER g') \<and> g_mem g' = g_mem g \<and> g_cpu g' = g_cpu g
    \<and> timer_spec (g_mem g) rsp (sched_view g) r (sched_view g')
    \<and> unat (PREEMPT_SWITCH_DEBUG_COUNT g') \<le> unat (PREEMPT_SWITCH_DEBUG_COUNT g) + 1"
proof (cases "current_task (SCHEDULER g)")
  case None
  then show ?thesis
    using inv timer_spec.idle [of "g_mem g" rsp] by (simp add: timer_interrupt_def sched_view_def)
next
  case (Some c)
  let ?s = "SCHEDULER g" let ?M = "tasks_of ?s"
  obtain t where t: "?M c = Some t" using current_in_tasks [OF inv Some] by blast
  let ?s1 = "Scheduler_tick (Scheduler_task_mut c (\<lambda>t. t\<lparr>interrupt_rsp := rsp, task_state := Running\<rparr>) ?s)"
  note s1 = timer_account [OF inv Some t, of rsp]
  have slice: "(case Scheduler_task c ?s1 of Some t \<Rightarrow> DEFAULT_TIME_SLICE_TICKS \<le> time_slice_ticks t | None \<Rightarrow> False)
      \<longleftrightarrow> DEFAULT_TIME_SLICE_TICKS \<le> time_slice_ticks t + 1"
    by (simp add: Scheduler_task_of s1(3))
  show ?thesis
  proof (cases "DEFAULT_TIME_SLICE_TICKS \<le> time_slice_ticks t + 1")
    case False
    then have "timer_interrupt rsp g = ret (0, g\<lparr>SCHEDULER := ?s1\<rparr>)"
      using Some t slice by (simp add: timer_interrupt_def Scheduler_task_of)
    then show ?thesis
      using s1 timer_spec.continue [of ?M c t "g_mem g" rsp, OF t] False Some by (simp add: sched_view_def)
  next
    case expired: True
    obtain s2 where sch: "Scheduler_schedule ?s1 = ret s2" "Scheduler_inv s2" "tasks_of s2 = tasks_of ?s1" "tasks s2 = tasks ?s1"
      "scheduler_ticks s2 = scheduler_ticks ?s1" "current_task s2 = None \<longleftrightarrow> dom (tasks_of ?s1) = {}"
      "set_option (current_task s2) \<subseteq> dom (tasks_of ?s1)"
      by (rule Scheduler_schedule_ok [OF s1(1)])
    have s2: "Scheduler_schedule ?s1 = ret s2" "Scheduler_inv s2" "tasks_of s2 = ?M(c \<mapsto> interrupted rsp t)"
      using sch(1,2,3) s1(3) by simp_all
    obtain n where n: "current_task s2 = Some n" "n \<in> dom (?M(c \<mapsto> interrupted rsp t))"
      using sch(6,7) unfolding s1(3) by (cases "current_task s2") auto
    show ?thesis
    proof (cases "n = c")
      case True
      have run: "timer_interrupt rsp g = ret (0, g\<lparr>SCHEDULER := Scheduler_task_mut c restart_slice s2\<rparr>)"
        using Some t slice expired s2(1) n(1) True by (simp add: timer_interrupt_def Scheduler_task_of)
      show ?thesis
        using run task_mut_map [OF s2(2,3), of c _ restart_slice] timer_spec.same [of ?M c t "g_mem g" rsp, OF t expired] n(1) True Some
        by (simp add: sched_view_def Scheduler_task_mut_frame)
    next
      case False
      then obtain u where u: "?M n = Some u" using n(2) by auto
      then have u2: "tasks_of s2 n = Some u" using s2(3) False by simp
      obtain msg where msg: "preemptive_switch_text (g_mem g) c n rsp (interrupt_rsp u) = ret msg" using timer_text_ret by blast
      have pad: "padd (PREEMPT_SWITCH_DEBUG_COUNT g) 1 = ret (PREEMPT_SWITCH_DEBUG_COUNT g + 1)"
        using count by (intro checked_add_ret) simp
      have "unat (PREEMPT_SWITCH_DEBUG_COUNT g + 1) \<le> Suc (unat (PREEMPT_SWITCH_DEBUG_COUNT g))"
        using checked_add_SomeD(2) [OF pad] by simp
      moreover note decide = timer_decides [of s2 ?M c rsp t n u "g_mem g", OF s2(2,3) t expired n(1) False u]
      ultimately show ?thesis
        using Some t slice expired s2(1) n(1) False u2 pad msg decide
        by (cases "validate_interrupt_frame (g_mem g) (interrupt_rsp u)")
          (simp_all add: timer_interrupt_def Scheduler_task_of sched_view_def Let_def cong: if_cong)
    qed
  qed
qed

section \<open>Sequences of scheduler calls\<close>

datatype SchedOp = CreateTask Task | RemoveTask TaskId | SetCurrent TaskId | ScheduleNext | TimerTick | TimerInterrupt u64

datatype SchedAnswer = Created "TaskId option" | Flag bool | NoAnswer | NextFrame u64

fun sched_exec :: "Layout \<Rightarrow> SchedOp \<Rightarrow> Globals \<Rightarrow> (SchedAnswer \<times> Globals) run" where
  "sched_exec L (CreateTask t) g = do { (r, g) \<leftarrow> create_task_from L 0 t g; ret (Created r, g) }"
| "sched_exec L (RemoveTask i) g = do { (b, s) \<leftarrow> Scheduler_remove_task i (SCHEDULER g); ret (Flag b, g\<lparr>SCHEDULER := s\<rparr>) }"
| "sched_exec L (SetCurrent i) g = (case Scheduler_set_current i (SCHEDULER g) of (b, s) \<Rightarrow> ret (Flag b, g\<lparr>SCHEDULER := s\<rparr>))"
| "sched_exec L ScheduleNext g = do { g \<leftarrow> schedule g; ret (NoAnswer, g) }"
| "sched_exec L TimerTick g = ret (NoAnswer, timer_tick g)"
| "sched_exec L (TimerInterrupt rsp) g = do { (r, g) \<leftarrow> timer_interrupt rsp g; ret (NextFrame r, g) }"

type_synonym sched_state = "TaskId option \<times> (TaskId \<rightharpoonup> Task)"

inductive sched_spec :: "memory \<Rightarrow> SchedOp \<Rightarrow> sched_state \<Rightarrow> SchedAnswer \<Rightarrow> sched_state \<Rightarrow> bool" for m :: memory where
  create: "task_id t \<notin> dom M \<Longrightarrow> card (dom M) < MAX_SCHEDULER_TASKS
    \<Longrightarrow> sched_spec m (CreateTask t) (c, M) (Created (Some (task_id t))) (c, M(task_id t \<mapsto> t))"
| create_refused: "task_id t \<in> dom M \<or> card (dom M) = MAX_SCHEDULER_TASKS
    \<Longrightarrow> sched_spec m (CreateTask t) (c, M) (Created None) (c, M)"
| remove_other: "i \<in> dom M \<Longrightarrow> c \<noteq> Some i \<Longrightarrow> sched_spec m (RemoveTask i) (c, M) (Flag True) (c, M(i := None))"
| remove_current: "i \<in> dom M \<Longrightarrow> set_option c \<subseteq> dom (M(i := None)) \<Longrightarrow> c = None \<longleftrightarrow> dom (M(i := None)) = {}
    \<Longrightarrow> sched_spec m (RemoveTask i) (Some i, M) (Flag True) (c, M(i := None))"
| remove_absent: "i \<notin> dom M \<Longrightarrow> sched_spec m (RemoveTask i) (c, M) (Flag False) (c, M)"
| set_current: "sched_spec m (SetCurrent i) (c, M) (Flag (i \<in> dom M)) (if i \<in> dom M then Some i else c, M)"
| schedule: "set_option c' \<subseteq> dom M \<Longrightarrow> c' = None \<longleftrightarrow> dom M = {} \<Longrightarrow> sched_spec m ScheduleNext (c, M) NoAnswer (c', M)"
| tick_idle: "sched_spec m TimerTick (None, M) NoAnswer (None, M)"
| tick: "M i = Some t \<Longrightarrow> sched_spec m TimerTick (Some i, M) NoAnswer
    (Some i, M(i \<mapsto> t\<lparr>total_ticks := total_ticks t + 1, time_slice_ticks := time_slice_ticks t + 1\<rparr>))"
| timer: "timer_spec m rsp x r x' \<Longrightarrow> sched_spec m (TimerInterrupt rsp) x (NextFrame r) x'"

lemma sched_exec_refines:
  assumes inv: "Scheduler_inv (SCHEDULER g)" and count: "unat (PREEMPT_SWITCH_DEBUG_COUNT g) + 1 < 2 ^ 64"
  shows "\<exists>a g'. sched_exec L op g = ret (a, g') \<and> Scheduler_inv (SCHEDULER g')
    \<and> sched_spec (g_mem g) op (sched_view g) a (sched_view g')
    \<and> unat (PREEMPT_SWITCH_DEBUG_COUNT g') \<le> unat (PREEMPT_SWITCH_DEBUG_COUNT g) + 1"
proof (cases op)
  case (CreateTask t)
  from inv show ?thesis
  proof (cases rule: Scheduler_create_cases [of _ t])
    case (created k s')
    then show ?thesis using CreateTask sched_spec.create [of t "tasks_of (SCHEDULER g)"]
      by (simp add: create_task_from_def sched_view_def)
  next
    case refused
    then show ?thesis using CreateTask inv sched_spec.create_refused [of t "tasks_of (SCHEDULER g)"]
      by (simp add: create_task_from_def sched_view_def)
  qed
next
  case (RemoveTask i)
  from inv show ?thesis
  proof (cases rule: Scheduler_remove_cases [of _ i])
    case (removed s')
    have "sched_spec (g_mem g) (RemoveTask i) (sched_view g) (Flag True) (current_task s', tasks_of s')"
    proof (cases "current_task (SCHEDULER g) = Some i")
      case True
      then show ?thesis
        using removed sched_spec.remove_current [of i "tasks_of (SCHEDULER g)" "current_task s'"]
        by (simp add: sched_view_def del: dom_fun_upd dom_eq_empty_conv)
    next
      case False
      then show ?thesis
        using removed sched_spec.remove_other [of i "tasks_of (SCHEDULER g)"] by (simp add: sched_view_def)
    qed
    then show ?thesis using RemoveTask removed(1,2) by (simp add: sched_view_def)
  next
    case absent
    then show ?thesis using RemoveTask inv sched_spec.remove_absent [of i "tasks_of (SCHEDULER g)"]
      by (simp add: sched_view_def)
  qed
next
  case (SetCurrent i)
  obtain s' where "Scheduler_set_current i (SCHEDULER g) = (i \<in> dom (tasks_of (SCHEDULER g)), s')" "Scheduler_inv s'"
    "tasks_of s' = tasks_of (SCHEDULER g)" "scheduler_ticks s' = scheduler_ticks (SCHEDULER g)"
    "current_task s' = (if i \<in> dom (tasks_of (SCHEDULER g)) then Some i else current_task (SCHEDULER g))"
    by (rule Scheduler_set_current_ok [OF inv])
  then show ?thesis using SetCurrent sched_spec.set_current [of "g_mem g" i] by (simp add: sched_view_def)
next
  case ScheduleNext
  obtain s' where "Scheduler_schedule (SCHEDULER g) = ret s'" "Scheduler_inv s'" "tasks_of s' = tasks_of (SCHEDULER g)"
    "tasks s' = tasks (SCHEDULER g)" "scheduler_ticks s' = scheduler_ticks (SCHEDULER g)"
    "current_task s' = None \<longleftrightarrow> dom (tasks_of (SCHEDULER g)) = {}" "set_option (current_task s') \<subseteq> dom (tasks_of (SCHEDULER g))"
    by (rule Scheduler_schedule_ok [OF inv])
  then show ?thesis using ScheduleNext sched_spec.schedule [of "current_task s'" "tasks_of (SCHEDULER g)"]
    by (simp add: schedule_def sched_view_def)
next
  case TimerTick
  show ?thesis
  proof (cases "current_task (SCHEDULER g)")
    case None
    then show ?thesis using TimerTick Scheduler_tick_ok [OF inv] sched_spec.tick_idle
      by (simp add: timer_tick_def sched_view_def)
  next
    case (Some i)
    obtain t where t: "tasks_of (SCHEDULER g) i = Some t" using current_in_tasks [OF inv Some] by blast
    show ?thesis using TimerTick Some Scheduler_tick_ok [OF inv] t sched_spec.tick [of "tasks_of (SCHEDULER g)" i t]
      by (simp add: timer_tick_def sched_view_def)
  qed
next
  case (TimerInterrupt rsp)
  then show ?thesis using timer_interrupt_refines [OF assms, of rsp] sched_spec.timer by fastforce
qed

fun sched_run :: "Layout \<Rightarrow> SchedOp list \<Rightarrow> Globals \<Rightarrow> (SchedAnswer list \<times> Globals) run" where
  "sched_run L [] g = ret ([], g)"
| "sched_run L (op # ops) g = do { (a, g) \<leftarrow> sched_exec L op g; (as, g) \<leftarrow> sched_run L ops g; ret (a # as, g) }"

lemma sched_run_inv:
  assumes "Scheduler_inv (SCHEDULER g)" and "unat (PREEMPT_SWITCH_DEBUG_COUNT g) + length ops < 2 ^ 64"
  shows "\<exists>as g'. sched_run L ops g = ret (as, g') \<and> Scheduler_inv (SCHEDULER g')
    \<and> unat (PREEMPT_SWITCH_DEBUG_COUNT g') \<le> unat (PREEMPT_SWITCH_DEBUG_COUNT g) + length ops"
  using assms
proof (induction ops arbitrary: g)
  case Nil
  then show ?case by simp
next
  case (Cons op ops)
  then obtain a g1 where g1: "sched_exec L op g = ret (a, g1)" "Scheduler_inv (SCHEDULER g1)"
    "unat (PREEMPT_SWITCH_DEBUG_COUNT g1) \<le> unat (PREEMPT_SWITCH_DEBUG_COUNT g) + 1"
    using sched_exec_refines [of g L op] by auto
  then obtain as g2 where "sched_run L ops g1 = ret (as, g2)" "Scheduler_inv (SCHEDULER g2)"
    "unat (PREEMPT_SWITCH_DEBUG_COUNT g2) \<le> unat (PREEMPT_SWITCH_DEBUG_COUNT g1) + length ops"
    using Cons.IH [of g1] Cons.prems(2) by auto
  then show ?case using g1 by auto
qed

end
