(* ===== verification/Scheduling.thy ===== *)
theory Scheduling
  imports Preemption
begin

text \<open>
  Properties of scheduling: any sequence of calls implements a map of tasks with a current task, time
  slices are respected, a preemption goes to a validated frame only, every task gets its turn, and
  cooperative switches come back to where they left.  The last section records two defects of the
  routines that start tasks.
\<close>

section \<open>Time slices and turns\<close>

fun schedule_times :: "nat \<Rightarrow> Scheduler \<Rightarrow> Scheduler run" where
  "schedule_times 0 s = ret s"
| "schedule_times (Suc n) s = do { s \<leftarrow> Scheduler_schedule s; schedule_times n s }"

lemma schedule_times_rotations:
  assumes "RunQueue_inv (run_queue s)" and "queued (run_queue s) \<noteq> {}"
  shows "\<exists>q c. rotations n (run_queue s) = ret q \<and> schedule_times n s = ret (s\<lparr>run_queue := q, current_task := c\<rparr>)
    \<and> (0 < n \<longrightarrow> c = RunQueue_first q)"
  using assms
proof (induction n arbitrary: s)
  case 0
  show ?case by (intro exI [of _ "run_queue s"] exI [of _ "current_task s"]) simp
next
  case (Suc n)
  obtain q where q: "RunQueue_rotate (run_queue s) = ret q" "RunQueue_inv q" "queued q = queued (run_queue s)"
    by (rule RunQueue_rotate_inv [OF Suc.prems(1)])
  have "\<not> RunQueue_is_empty (run_queue s)"
    using Suc.prems RunQueue_count_card [OF Suc.prems(1)] by (simp add: RunQueue_is_empty_def)
  then have step: "Scheduler_schedule s = ret (s\<lparr>run_queue := q, current_task := RunQueue_first q\<rparr>)"
    using q(1) by (simp add: Scheduler_schedule_def)
  from Suc.IH [of "s\<lparr>run_queue := q, current_task := RunQueue_first q\<rparr>"] q Suc.prems(2)
  obtain q' c where q': "rotations n q = ret q'" "0 < n \<longrightarrow> c = RunQueue_first q'"
    "schedule_times n (s\<lparr>run_queue := q, current_task := RunQueue_first q\<rparr>) = ret (s\<lparr>run_queue := q', current_task := c\<rparr>)"
    by auto
  show ?case
  proof (cases n)
    case 0
    then show ?thesis using q step by simp
  next
    case (Suc m)
    then show ?thesis using q q' step by simp
  qed
qed

text \<open>
  C16.  No task starves under \<open>schedule\<close>: from any state every task becomes the current one within the
  next 64 calls.
\<close>

theorem scheduler_no_starvation:
  assumes "Scheduler_inv s" and "i \<in> dom (tasks_of s)"
  shows "\<exists>n s'. 1 \<le> n \<and> n \<le> 64 \<and> schedule_times n s = ret s' \<and> current_task s' = Some i"
proof -
  let ?q = "run_queue s"
  have inv: "RunQueue_inv ?q" and i: "i \<in> queued ?q"
    using Scheduler_invD(1) [OF assms(1)] dom_tasks_of [OF assms(1)] assms(2) by auto
  have found: "\<exists>n s'. 1 \<le> n \<and> n \<le> 64 \<and> schedule_times n s = ret s' \<and> current_task s' = Some i"
    if "rotations n ?q = ret q" "RunQueue_first q = Some i" "1 \<le> n" "n \<le> 64" for n q
  proof -
    have ne: "queued ?q \<noteq> {}" using i by blast
    from schedule_times_rotations [OF inv ne, of n] that
    have "schedule_times n s = ret (s\<lparr>run_queue := q, current_task := Some i\<rparr>)" by auto
    then show ?thesis using that(3,4) by (intro exI [of _ n] exI [of _ "s\<lparr>run_queue := q, current_task := Some i\<rparr>"]) simp
  qed
  show ?thesis
  proof (cases "queue_count ?q \<le> 1")
    case True
    then have "queued ?q = {i}" using i RunQueue_count_card [OF inv] card_le_Suc0_iff_eq [of "queued ?q"] by auto
    then have "RunQueue_first ?q = Some i"
      using RunQueue_first_None [of ?q] RunQueue_first_queued [of ?q] by (cases "RunQueue_first ?q") auto
    moreover have "rotations 1 ?q = ret ?q" using True by (simp add: rotations_eq [OF inv])
    ultimately show ?thesis using found [of 1] by auto
  next
    case False
    obtain k where k: "k < MAX_TASKS" "queue_tasks ?q ! k = Some i"
      using i inv by (auto simp: queued_def in_set_conv_nth RunQueue_inv_def)
    define n where "n = (if k = 0 then 64 else k)"
    have "n mod MAX_TASKS = k" "1 \<le> n" "n \<le> 64" using k(1) by (auto simp: n_def MAX_TASKS_def)
    moreover from this obtain q where "rotations n ?q = ret q" "RunQueue_first q = Some i"
      using first_after_rotations [OF inv, of n i] False k(2) by auto
    ultimately show ?thesis using found by blast
  qed
qed

text \<open>
  C13.  Any sequence of scheduler calls, with fewer than \<open>2 ^ 64\<close> of them, runs without panic, and every
  further call implements the specification: creation adds a task unless its id is taken or eight
  tasks exist, removal deletes it and picks a new current task when needed, \<open>schedule\<close> chooses some
  task, ticks count, and the timer interrupt follows \<open>timer_spec\<close>.
\<close>

theorem scheduler_refines:
  assumes "PREEMPT_SWITCH_DEBUG_COUNT g = 0" and "length ops + 1 < 2 ^ 64"
  shows "\<exists>as g'. sched_run L ops (init g) = ret (as, g') \<and> card (dom (snd (sched_view g'))) \<le> 8
    \<and> (\<forall>op. \<exists>a g''. sched_exec L op g' = ret (a, g'') \<and> sched_spec (g_mem g') op (sched_view g') a (sched_view g''))"
proof -
  have "Scheduler_inv (SCHEDULER (init g))" by (simp add: init_def Scheduler_new_inv)
  moreover have "unat (PREEMPT_SWITCH_DEBUG_COUNT (init g)) = 0" using assms(1) by (simp add: init_def)
  ultimately obtain as g' where run: "sched_run L ops (init g) = ret (as, g')" and inv: "Scheduler_inv (SCHEDULER g')"
    and "unat (PREEMPT_SWITCH_DEBUG_COUNT g') \<le> length ops"
    using sched_run_inv [of "init g" ops L] assms(2) by auto
  then have "unat (PREEMPT_SWITCH_DEBUG_COUNT g') + 1 < 2 ^ 64" using assms(2) by linarith
  from sched_exec_refines [OF inv this, of L]
  have step: "\<forall>op. \<exists>a g''. sched_exec L op g' = ret (a, g'') \<and> sched_spec (g_mem g') op (sched_view g') a (sched_view g'')" by blast
  have "task_count (SCHEDULER g') \<le> 8"
    using Scheduler_invD(2,5) [OF inv] length_filter_le [of "\<lambda>x. x \<noteq> None" "task_ids (SCHEDULER g')"]
    by (simp add: task_ids_def MAX_SCHEDULER_TASKS_def)
  then have "card (dom (snd (sched_view g'))) \<le> 8" using task_count_card [OF inv] by (simp add: sched_view_def)
  with run step show ?thesis by blast
qed

lemma validate_interrupt_frameD:
  assumes "validate_interrupt_frame m r"
  shows "read_interrupt_frame_word m r (15 * 8) = 0x20 \<and> read_interrupt_frame_word m r (17 * 8) = 8
    \<and> read_interrupt_frame_word m r (18 * 8) AND 2 \<noteq> 0 \<and> read_interrupt_frame_word m r (16 * 8) \<in> {0x100000 ..< 0x200000}"
  using assms by (auto simp: validate_interrupt_frame_def Let_def split: if_splits)

text \<open>
  C14.  A preemption is safe.  When the timer interrupt returns a stack pointer to switch to, the time
  slice of the current task had expired, the pointer is the saved frame of another existing task and
  holds vector 32, the kernel's code segment, the fixed flag bit and an instruction
  pointer inside the kernel image, that task becomes current with a fresh slice, the interrupted task keeps
  exactly the frame it was interrupted with, and no third task changes.
\<close>

theorem timer_switch_safe:
  assumes "Scheduler_inv (SCHEDULER g)" and "unat (PREEMPT_SWITCH_DEBUG_COUNT g) + 1 < 2 ^ 64"
    and "timer_interrupt rsp g = ret (r, g')" and "r \<noteq> 0" and "current_task (SCHEDULER g) = Some c"
  shows "\<exists>n t u. n \<noteq> c \<and> tasks_of (SCHEDULER g) c = Some t \<and> tasks_of (SCHEDULER g) n = Some u
    \<and> 5 \<le> time_slice_ticks t + 1 \<and> r = interrupt_rsp u
    \<and> read_interrupt_frame_word (g_mem g) r (15 * 8) = 0x20 \<and> read_interrupt_frame_word (g_mem g) r (17 * 8) = 8
    \<and> read_interrupt_frame_word (g_mem g) r (18 * 8) AND 2 \<noteq> 0 \<and> read_interrupt_frame_word (g_mem g) r (16 * 8) \<in> {0x100000 ..< 0x200000}
    \<and> sched_view g' = (Some n, (tasks_of (SCHEDULER g))(c \<mapsto> (interrupted rsp t)\<lparr>task_state := Ready\<rparr>, n \<mapsto> restart_slice u))"
proof -
  have "timer_spec (g_mem g) rsp (Some c, tasks_of (SCHEDULER g)) r (sched_view g')"
    using timer_interrupt_refines [OF assms(1,2), of rsp] assms(3,5) by (auto simp: sched_view_def)
  then show ?thesis using assms(4)
    by (cases rule: timer_spec_switchE) (auto simp: DEFAULT_TIME_SLICE_TICKS_def dest!: validate_interrupt_frameD)
qed

definition one_running :: "TaskId option \<times> (TaskId \<rightharpoonup> Task) \<Rightarrow> bool" where
  "one_running x \<longleftrightarrow> (\<forall>i t. snd x i = Some t \<longrightarrow> task_state t = Running \<longrightarrow> fst x = Some i)"

text \<open>
  Under timer interrupts only the current task is ever in state \<open>Running\<close>.
\<close>

theorem timer_one_running:
  assumes "Scheduler_inv (SCHEDULER g)" and "unat (PREEMPT_SWITCH_DEBUG_COUNT g) + 1 < 2 ^ 64"
    and "one_running (sched_view g)" and "timer_interrupt rsp g = ret (r, g')"
  shows "one_running (sched_view g')"
proof -
  have "timer_spec (g_mem g) rsp (sched_view g) r (sched_view g')"
    using timer_interrupt_refines [OF assms(1,2), of rsp] assms(4) by auto
  then show ?thesis
    using assms(3) by (cases rule: timer_spec.cases) (auto simp: one_running_def split: if_splits)
qed

text \<open>
  C17.  A time slice lasts five ticks: as long as the ticks of the current task's slice stay below five,
  timer interrupts leave it the current task, request no switch and touch no other task.
\<close>

theorem time_slice_respected:
  assumes "Scheduler_inv (SCHEDULER g)" and "unat (PREEMPT_SWITCH_DEBUG_COUNT g) + length rsps + 1 < 2 ^ 64"
    and "sched_view g = (Some c, M)" and "M c = Some t" and "unat (time_slice_ticks t) + length rsps < 5"
  shows "\<exists>g' t'. sched_run L (map TimerInterrupt rsps) g = ret (map (\<lambda>_. NextFrame 0) rsps, g')
    \<and> sched_view g' = (Some c, M(c \<mapsto> t')) \<and> unat (time_slice_ticks t') = unat (time_slice_ticks t) + length rsps"
  using assms
proof (induction rsps arbitrary: g t M)
  case Nil
  then show ?case by (intro exI [of _ g] exI [of _ t]) (auto simp: fun_upd_idem)
next
  case (Cons rsp rsps)
  obtain r g1 where g1: "timer_interrupt rsp g = ret (r, g1)" "Scheduler_inv (SCHEDULER g1)"
    "timer_spec (g_mem g) rsp (Some c, M) r (sched_view g1)"
    "unat (PREEMPT_SWITCH_DEBUG_COUNT g1) \<le> unat (PREEMPT_SWITCH_DEBUG_COUNT g) + 1"
    using timer_interrupt_refines [OF Cons.prems(1), of rsp] Cons.prems(2,3) by auto
  have tick: "unat (time_slice_ticks t + 1) = unat (time_slice_ticks t) + 1"
    using unat_plus_small [of "time_slice_ticks t" 1] Cons.prems(5) by simp
  then have "\<not> DEFAULT_TIME_SLICE_TICKS \<le> time_slice_ticks t + 1"
    using Cons.prems(5) by (simp add: DEFAULT_TIME_SLICE_TICKS_def word_le_nat_alt)
  then have r: "r = 0" "sched_view g1 = (Some c, M(c \<mapsto> interrupted rsp t))"
    using g1(3) Cons.prems(4) by (auto elim!: timer_spec_switchE)
  have "\<exists>g' t'. sched_run L (map TimerInterrupt rsps) g1 = ret (map (\<lambda>_. NextFrame 0) rsps, g')
    \<and> sched_view g' = (Some c, (M(c \<mapsto> interrupted rsp t))(c \<mapsto> t'))
    \<and> unat (time_slice_ticks t') = unat (time_slice_ticks (interrupted rsp t)) + length rsps"
    by (rule Cons.IH [OF g1(2) _ r(2)]) (use g1(4) Cons.prems(2,5) tick in simp_all)
  then obtain g' t' where "sched_run L (map TimerInterrupt rsps) g1 = ret (map (\<lambda>_. NextFrame 0) rsps, g')"
    "sched_view g' = (Some c, M(c \<mapsto> t'))" "unat (time_slice_ticks t') = unat (time_slice_ticks t) + 1 + length rsps"
    using tick unfolding fun_upd_upd interrupted_simps by metis
  note rest = this
  have "sched_run L (map TimerInterrupt (rsp # rsps)) g = ret (map (\<lambda>_. NextFrame 0) (rsp # rsps), g')"
    using rest(1) g1(1) r(1) by simp
  moreover have "unat (time_slice_ticks t') = unat (time_slice_ticks t) + length (rsp # rsps)" using rest(3) by simp
  ultimately show ?case using rest(2) by blast
qed

section \<open>Cooperative switches\<close>

lemma task_mut_context:
  assumes "Scheduler_inv s" and "tasks_of s i = Some t"
  shows "Scheduler_inv (Scheduler_task_mut i (\<lambda>t. t\<lparr>task_context := c\<rparr>) s)"
    and "tasks_of (Scheduler_task_mut i (\<lambda>t. t\<lparr>task_context := c\<rparr>) s) = (tasks_of s)(i \<mapsto> t\<lparr>task_context := c\<rparr>)"
  using Scheduler_task_mut_ok [OF assms(1), of "\<lambda>t. t\<lparr>task_context := c\<rparr>"] assms(2) by simp_all

lemma switch_kernel_to_task_view:
  assumes "Scheduler_inv (SCHEDULER g)" and "tasks_of (SCHEDULER g) i = Some t"
  shows "Scheduler_inv (SCHEDULER (switch_kernel_to_task i g))" "sched_view (switch_kernel_to_task i g) = (Some i, tasks_of (SCHEDULER g))"
    "g_cpu (switch_kernel_to_task i g) = task_context t" "TEST_KERNEL_CONTEXT (switch_kernel_to_task i g) = g_cpu g"
    "TEST_TASK_A_ID (switch_kernel_to_task i g) = TEST_TASK_A_ID g" "TEST_TASK_B_ID (switch_kernel_to_task i g) = TEST_TASK_B_ID g"
    "g_mem (switch_kernel_to_task i g) = g_mem g"
  using assms set_current_inv [OF assms(1), of i]
  by (auto simp: switch_kernel_to_task_def Scheduler_task_of sched_view_def)

lemma switch_task_to_task_view:
  assumes inv: "Scheduler_inv (SCHEDULER g)" and a: "tasks_of (SCHEDULER g) i = Some t" and b: "tasks_of (SCHEDULER g) j = Some u"
    and "i \<noteq> j"
  shows "Scheduler_inv (SCHEDULER (switch_task_to_task i j g))"
    "sched_view (switch_task_to_task i j g) = (Some j, (tasks_of (SCHEDULER g))(i \<mapsto> t\<lparr>task_context := g_cpu g\<rparr>))"
    "g_cpu (switch_task_to_task i j g) = task_context u" "TEST_KERNEL_CONTEXT (switch_task_to_task i j g) = TEST_KERNEL_CONTEXT g"
    "TEST_TASK_A_ID (switch_task_to_task i j g) = TEST_TASK_A_ID g" "TEST_TASK_B_ID (switch_task_to_task i j g) = TEST_TASK_B_ID g"
proof -
  have j: "j \<in> dom (tasks_of (SCHEDULER g))" using b by blast
  note cur = set_current_inv [OF inv j]
  have t: "tasks_of (SCHEDULER g\<lparr>current_task := Some j\<rparr>) i = Some t" using a cur(2) by simp
  note mut = task_mut_context [OF cur(1) t, of "g_cpu g"]
  show "Scheduler_inv (SCHEDULER (switch_task_to_task i j g))"
    "sched_view (switch_task_to_task i j g) = (Some j, (tasks_of (SCHEDULER g))(i \<mapsto> t\<lparr>task_context := g_cpu g\<rparr>))"
    "g_cpu (switch_task_to_task i j g) = task_context u" "TEST_KERNEL_CONTEXT (switch_task_to_task i j g) = TEST_KERNEL_CONTEXT g"
    "TEST_TASK_A_ID (switch_task_to_task i j g) = TEST_TASK_A_ID g" "TEST_TASK_B_ID (switch_task_to_task i j g) = TEST_TASK_B_ID g"
    using assms(4) a b mut cur(2)
    by (simp_all add: switch_task_to_task_def Scheduler_task_of sched_view_def Let_def Scheduler_task_mut_frame)
qed

lemma switch_task_to_kernel_view:
  assumes inv: "Scheduler_inv (SCHEDULER g)" and a: "tasks_of (SCHEDULER g) i = Some t"
  shows "switch_task_to_kernel i g = (True, snd (switch_task_to_kernel i g))"
    "sched_view (snd (switch_task_to_kernel i g)) = (None, (tasks_of (SCHEDULER g))(i \<mapsto> t\<lparr>task_context := g_cpu g\<rparr>))"
    "g_cpu (snd (switch_task_to_kernel i g)) = TEST_KERNEL_CONTEXT g"
proof -
  let ?s = "SCHEDULER g\<lparr>current_task := None\<rparr>"
  have s: "Scheduler_inv ?s" "tasks_of ?s = tasks_of (SCHEDULER g)"
    using inv by (simp_all add: Scheduler_inv_def task_ids_def tasks_of_slot_map)
  have t: "tasks_of ?s i = Some t" using a s(2) by simp
  note mut = task_mut_context [OF s(1) t, of "g_cpu g"]
  show "switch_task_to_kernel i g = (True, snd (switch_task_to_kernel i g))"
    "sched_view (snd (switch_task_to_kernel i g)) = (None, (tasks_of (SCHEDULER g))(i \<mapsto> t\<lparr>task_context := g_cpu g\<rparr>))"
    "g_cpu (snd (switch_task_to_kernel i g)) = TEST_KERNEL_CONTEXT g"
    using a mut s by (simp_all add: switch_task_to_kernel_def Scheduler_task_of sched_view_def Let_def Scheduler_task_mut_frame)
qed

text \<open>
  C15.  The cooperative switches of the context test come back where they left: from the kernel to
  task A, to task B, back to A and to the kernel, each task enters with its own context, A resumes with
  exactly the registers it had when it called \<open>switch\<close>, and the kernel with those of its call, whatever the
  code in between did to the registers (\<open>cpu_a\<close>, \<open>cpu_b\<close>, \<open>cpu_a'\<close> are the contexts at the calls).
\<close>

theorem context_switch_roundtrip:
  assumes inv: "Scheduler_inv (SCHEDULER g)" and a: "tasks_of (SCHEDULER g) a = Some ta" and b: "tasks_of (SCHEDULER g) b = Some tb"
    and ids: "a \<noteq> b" "TEST_TASK_A_ID g = a" "TEST_TASK_B_ID g = b"
  shows "\<exists>g1 g2 g3 g4. g1 = switch_kernel_to_task a g \<and> g2 = context_test_task_a (g1\<lparr>g_cpu := cpu_a\<rparr>)
    \<and> g3 = context_test_task_b (g2\<lparr>g_cpu := cpu_b\<rparr>) \<and> context_test_task_a_resumed a (g3\<lparr>g_cpu := cpu_a'\<rparr>) = (True, g4)
    \<and> g_cpu g1 = task_context ta \<and> g_cpu g2 = task_context tb \<and> g_cpu g3 = cpu_a \<and> g_cpu g4 = g_cpu g
    \<and> current_task (SCHEDULER g4) = None"
proof -
  define g1 where "g1 = switch_kernel_to_task a g"
  note s1 = switch_kernel_to_task_view [OF inv a, folded g1_def]
  define h1 where "h1 = say (''TASK A: SWITCH -> TASK B'' @ crlf) (say (''TASK A: START'' @ crlf) (g1\<lparr>g_cpu := cpu_a\<rparr>))"
  have h1: "Scheduler_inv (SCHEDULER h1)" "tasks_of (SCHEDULER h1) = tasks_of (SCHEDULER g)" "g_cpu h1 = cpu_a"
    "TEST_KERNEL_CONTEXT h1 = g_cpu g" "TEST_TASK_A_ID h1 = a" "TEST_TASK_B_ID h1 = b"
    using s1 ids by (simp_all add: h1_def sched_view_def)
  define g2 where "g2 = context_test_task_a (g1\<lparr>g_cpu := cpu_a\<rparr>)"
  have g2: "g2 = switch_task_to_task a b h1"
    using s1 ids by (simp add: g2_def context_test_task_a_def Let_def h1_def)
  have "tasks_of (SCHEDULER h1) a = Some ta" "tasks_of (SCHEDULER h1) b = Some tb" using a b h1(2) by simp_all
  note s2 = switch_task_to_task_view [OF h1(1) this ids(1), folded g2]
  define h2 where "h2 = say (''TASK B: SWITCH -> TASK A'' @ crlf) (say (''TASK B: START'' @ crlf) (g2\<lparr>g_cpu := cpu_b\<rparr>))"
  have h2: "Scheduler_inv (SCHEDULER h2)" "tasks_of (SCHEDULER h2) = (tasks_of (SCHEDULER g))(a \<mapsto> ta\<lparr>task_context := cpu_a\<rparr>)"
    "TEST_KERNEL_CONTEXT h2 = g_cpu g" using s2 h1 by (simp_all add: h2_def sched_view_def)
  define g3 where "g3 = context_test_task_b (g2\<lparr>g_cpu := cpu_b\<rparr>)"
  have g3: "g3 = switch_task_to_task b a h2" using s2 h1 by (simp add: g3_def context_test_task_b_def Let_def h2_def)
  have "tasks_of (SCHEDULER h2) b = Some tb" "tasks_of (SCHEDULER h2) a = Some (ta\<lparr>task_context := cpu_a\<rparr>)"
    using b ids(1) h2(2) by simp_all
  note s3 = switch_task_to_task_view [OF h2(1) this ids(1) [symmetric], folded g3]
  define h3 where "h3 = say (''TASK A: SWITCH -> KERNEL'' @ crlf) (say (''TASK A: RESUMED'' @ crlf) (g3\<lparr>g_cpu := cpu_a'\<rparr>))"
  have "Scheduler_inv (SCHEDULER h3)" "tasks_of (SCHEDULER h3) a = Some (ta\<lparr>task_context := cpu_a\<rparr>)" "TEST_KERNEL_CONTEXT h3 = g_cpu g"
    using s3 h2 ids(1) by (simp_all add: h3_def sched_view_def)
  note s4 = switch_task_to_kernel_view [OF this(1,2)] this(3)
  have "context_test_task_a_resumed a (g3\<lparr>g_cpu := cpu_a'\<rparr>) = (True, snd (switch_task_to_kernel a h3))"
    using s4(1) by (simp add: context_test_task_a_resumed_def Let_def h3_def)
  then show ?thesis using s1(3) s2(3) s3(3) s4 g1_def g2_def g3_def h1(3) by (auto simp: sched_view_def)
qed

section \<open>An example\<close>

text \<open>Two tasks; the slice of the current one is about to expire and the other has a valid frame.\<close>

definition two_tasks :: Globals where
  "two_tasks = \<lparr>
     SCHEDULER = \<lparr>run_queue = filled [1, 2], current_task = Some 1, task_count = 2, scheduler_ticks = 0,
       tasks = [Some ((Task_new 1 1)\<lparr>task_state := Running, time_slice_ticks := 4\<rparr>),
                Some ((Task_new 2 1)\<lparr>interrupt_rsp := 0x110000\<rparr>), None, None, None, None, None, None]\<rparr>,
     TEST_KERNEL_CONTEXT = TaskContext_empty, TEST_TASK_A_ID = 1, TEST_TASK_B_ID = 2, PREEMPT_SWITCH_DEBUG_COUNT = 10,
     PREEMPT_TASK_A_ID = 0, PREEMPT_TASK_B_ID = 0, PREEMPT_TICKS_A = 0, PREEMPT_TICKS_B = 0, NEXT_TASK_ID = 3,
     g_cpu = TaskContext_empty, g_mem = write_words 0x110000 (interrupt_frame_words 0x150000) (\<lambda>_. 0), g_out = ''''\<rparr>"

definition example_layout :: Layout where
  "example_layout = \<lparr>slot_stack = (\<lambda>k. 0x1000000 + 0x10000 * of_nat k), local_stack = (\<lambda>k. 0x2000000 + 0x10000 * of_nat k),
     task_exit_addr = 0x101000, start_interrupt_context_addr = 0x102000, task_bootstrap_addr = 0x103000,
     preemptive_task_a_addr = 0x104000, preemptive_task_b_addr = 0x105000\<rparr>"

lemma two_tasks_inv: "Scheduler_inv (SCHEDULER two_tasks)"
proof -
  have "RunQueue_inv (filled [1, 2])" "queued (filled [1, 2]) = {1, 2}"
    using filled_inv [of "[1, 2]"] by (simp_all add: MAX_TASKS_def)
  moreover have "{i. i = 1 \<or> i = 2} = {1, 2 :: u64}" by auto
  ultimately show ?thesis
    by (simp add: Scheduler_inv_def two_tasks_def task_ids_def Task_new_def MAX_SCHEDULER_TASKS_def)
qed

lemma two_tasks_of:
  "tasks_of (SCHEDULER two_tasks) 1 = Some ((Task_new 1 1)\<lparr>task_state := Running, time_slice_ticks := 4\<rparr>)"
  "tasks_of (SCHEDULER two_tasks) 2 = Some ((Task_new 2 1)\<lparr>interrupt_rsp := 0x110000\<rparr>)"
  by (simp_all add: two_tasks_def tasks_of_slot_map slot_map_Cons holds_task_def Task_new_def)

lemma two_tasks_frame: "validate_interrupt_frame (g_mem two_tasks) 0x110000"
proof -
  have "write_words 0x110000 (interrupt_frame_words 0x150000) (\<lambda>_. 0) (0x110000 + 8 * of_nat i) = interrupt_frame_words 0x150000 ! i"
    if "i < 19" for i
    by (rule write_words_nth) (use that in \<open>simp_all add: interrupt_frame_words_def\<close>)
  from this [of 15] this [of 16] this [of 17] this [of 18] show ?thesis
    by (simp add: validate_interrupt_frame_def read_interrupt_frame_word_def two_tasks_def interrupt_frame_words_def
        is_canonical_address_def)
qed

lemma two_tasks_switch: "\<exists>g'. timer_interrupt 0x120000 two_tasks = ret (0x110000, g')"
proof -
  have inv: "RunQueue_inv (filled [1, 2])" using filled_inv [of "[1, 2]"] by (simp add: MAX_TASKS_def)
  obtain q where q: "RunQueue_rotate (filled [1, 2]) = ret q" "RunQueue_first q = Some 2"
    using RunQueue_rotate_eq [OF inv] by (auto simp: filled_def MAX_TASKS_def RunQueue_first_def)
  have "\<not> RunQueue_is_empty (filled [1, 2])" by (simp add: RunQueue_is_empty_def filled_def)
  moreover have "g_mem two_tasks = write_words 0x110000 (interrupt_frame_words 0x150000) (\<lambda>_. 0)" by (simp add: two_tasks_def)
  ultimately show ?thesis
    using q two_tasks_frame
    by (simp add: timer_interrupt_def two_tasks_def Scheduler_task_def Scheduler_task_mut_def holds_task_def Task_new_def
        Scheduler_tick_def Scheduler_schedule_def DEFAULT_TIME_SLICE_TICKS_def checked_add_def say_def)
qed

theorem scheduler_no_starvation_witness:
  "\<exists>n s'. 1 \<le> n \<and> n \<le> 64 \<and> schedule_times n (SCHEDULER two_tasks) = ret s' \<and> current_task s' = Some 2"
  by (rule scheduler_no_starvation [OF two_tasks_inv]) (use two_tasks_of(2) in blast)

theorem scheduler_refines_witness:
  "\<exists>as g'. sched_run example_layout [CreateTask (Task_new 5 1), ScheduleNext] (init (two_tasks\<lparr>PREEMPT_SWITCH_DEBUG_COUNT := 0\<rparr>)) = ret (as, g')"
  using scheduler_refines [of "two_tasks\<lparr>PREEMPT_SWITCH_DEBUG_COUNT := 0\<rparr>" "[CreateTask (Task_new 5 1), ScheduleNext]" example_layout]
  by auto

theorem timer_switch_safe_witness:
  "\<exists>g' n. timer_interrupt 0x120000 two_tasks = ret (0x110000, g') \<and> n \<noteq> 1 \<and> current_task (SCHEDULER g') = Some n
    \<and> read_interrupt_frame_word (g_mem two_tasks) 0x110000 (17 * 8) = 8"
proof -
  obtain g' where run: "timer_interrupt 0x120000 two_tasks = ret (0x110000, g')" using two_tasks_switch by blast
  have "unat (PREEMPT_SWITCH_DEBUG_COUNT two_tasks) + 1 < 2 ^ 64" "current_task (SCHEDULER two_tasks) = Some 1"
    by (simp_all add: two_tasks_def)
  from timer_switch_safe [OF two_tasks_inv this(1) run _ this(2)] run show ?thesis by (auto simp: sched_view_def)
qed

theorem timer_one_running_witness:
  "\<exists>r g'. timer_interrupt 0x120000 two_tasks = ret (r, g') \<and> one_running (sched_view two_tasks) \<and> one_running (sched_view g')"
proof -
  obtain g' where run: "timer_interrupt 0x120000 two_tasks = ret (0x110000, g')" using two_tasks_switch by blast
  have count: "unat (PREEMPT_SWITCH_DEBUG_COUNT two_tasks) + 1 < 2 ^ 64" by (simp add: two_tasks_def)
  have "one_running (sched_view two_tasks)"
    by (auto simp: one_running_def sched_view_def two_tasks_def tasks_of_slot_map slot_map_Cons holds_task_def Task_new_def split: if_splits)
  with timer_one_running [OF two_tasks_inv count this run] run show ?thesis by blast
qed

theorem time_slice_respected_witness:
  "\<exists>g g'. sched_view g = (Some 2, tasks_of (SCHEDULER two_tasks))
    \<and> sched_run example_layout (map TimerInterrupt [0x120000, 0x120100, 0x120200, 0x120300]) g = ret (replicate 4 (NextFrame 0), g')"
proof -
  let ?g = "two_tasks\<lparr>SCHEDULER := SCHEDULER two_tasks\<lparr>current_task := Some 2\<rparr>\<rparr>"
  have two: "2 \<in> dom (tasks_of (SCHEDULER two_tasks))" using two_tasks_of(2) by blast
  have inv: "Scheduler_inv (SCHEDULER ?g)" using set_current_inv(1) [OF two_tasks_inv two] by simp
  have view: "sched_view ?g = (Some 2, tasks_of (SCHEDULER two_tasks))"
    using set_current_inv(2) [OF two_tasks_inv two] by (simp add: sched_view_def)
  have count: "unat (PREEMPT_SWITCH_DEBUG_COUNT ?g) + length [0x120000, 0x120100, 0x120200, 0x120300 :: u64] + 1 < 2 ^ 64"
    by (simp add: two_tasks_def)
  let ?rs = "[0x120000, 0x120100, 0x120200, 0x120300 :: u64]"
  have "\<exists>g' t'. sched_run example_layout (map TimerInterrupt ?rs) ?g = ret (map (\<lambda>_. NextFrame 0) ?rs, g')
      \<and> sched_view g' = (Some 2, (tasks_of (SCHEDULER two_tasks))(2 \<mapsto> t'))
      \<and> unat (time_slice_ticks t') = unat (time_slice_ticks ((Task_new 2 1)\<lparr>interrupt_rsp := 0x110000\<rparr>)) + length ?rs"
    by (rule time_slice_respected [OF inv count view two_tasks_of(2)]) (simp add: Task_new_def)
  moreover have "map (\<lambda>_. NextFrame 0) ?rs = replicate 4 (NextFrame 0)" by (simp add: numeral_eq_Suc)
  ultimately obtain g' where "sched_run example_layout (map TimerInterrupt ?rs) ?g = ret (replicate 4 (NextFrame 0), g')" by metis
  with view show ?thesis by blast
qed

theorem context_switch_roundtrip_witness:
  "\<exists>g4. context_test_task_a_resumed 1 (context_test_task_b (context_test_task_a (switch_kernel_to_task 1 two_tasks))) = (True, g4)
    \<and> g_cpu g4 = TaskContext_empty"
proof -
  have ids: "TEST_TASK_A_ID two_tasks = 1" "TEST_TASK_B_ID two_tasks = 2" "g_cpu two_tasks = TaskContext_empty"
    by (simp_all add: two_tasks_def)
  have same: "g\<lparr>g_cpu := g_cpu g\<rparr> = g" for g :: Globals by simp
  let ?g1 = "switch_kernel_to_task 1 two_tasks"
  let ?g2 = "context_test_task_a ?g1"
  from context_switch_roundtrip [OF two_tasks_inv two_tasks_of _ ids(1,2), of "g_cpu ?g1" "g_cpu ?g2" "g_cpu (context_test_task_b ?g2)"]
  show ?thesis by (auto simp: same ids(3))
qed

end
