(* ===== verification/Task_Start.thy ===== *)
theory Task_Start
  imports Scheduling
begin

text \<open>
  How tasks start: the preemptive test puts both tasks behind valid synthetic interrupt frames on
  their own stacks, while the initial task and the cooperative test start from a context that is wrong.
\<close>

section \<open>Stacks of the slots\<close>

text \<open>The eight stacks inside the scheduler's task array lie in memory one after the other.\<close>

definition stacks_ok :: "Layout \<Rightarrow> bool" where
  "stacks_ok L \<longleftrightarrow> (\<forall>k < 8. stack_placed (slot_stack L k))
     \<and> (\<forall>j < 8. \<forall>k < 8. j \<noteq> k \<longrightarrow> unat (slot_stack L j) + 16384 \<le> unat (slot_stack L k)
          \<or> unat (slot_stack L k) + 16384 \<le> unat (slot_stack L j))"

lemma stacks_okD: "stacks_ok L \<Longrightarrow> k < 8 \<Longrightarrow> stack_placed (slot_stack L k)"
  by (simp add: stacks_ok_def)

definition frame_addr :: "u64 \<Rightarrow> u64" where
  "frame_addr base = base + 16384 - 2048 - 152"

lemma unat_frame_addr: "stack_placed base \<Longrightarrow> unat (frame_addr base) = unat base + 14184"
proof -
  assume p: "stack_placed base"
  have a: "unat (base + 16384) = unat base + 16384" by (rule KernelStack_top_ret(2) [OF p])
  then have b: "unat (base + 16384 - 2048) = unat base + 14336" using unat_minus_small [of 2048 "base + 16384"] by simp
  then show ?thesis using unat_minus_small [of 152 "base + 16384 - 2048"] by (simp add: frame_addr_def)
qed

lemma initialize_interrupt_context_ret:
  assumes "stack_placed base"
  shows "Task_initialize_interrupt_context base entry (t, m)
    = ret (t\<lparr>interrupt_rsp := frame_addr base\<rparr>, write_words (frame_addr base) (interrupt_frame_words entry) m)"
proof -
  define top where "top = base + 16384"
  define start where "start = top - 2048"
  have a: "unat top = unat base + 16384" unfolding top_def by (rule KernelStack_top_ret(2) [OF assms])
  then have b: "unat start = unat base + 14336" using unat_minus_small [of 2048 top] by (simp add: start_def)
  have f: "frame_addr base = start - 152" by (simp add: frame_addr_def start_def top_def)
  have "psub top INITIAL_STACK_RESERVE = ret start" "psub start INTERRUPT_CONTEXT_SIZE = ret (frame_addr base)"
    unfolding f start_def INITIAL_STACK_RESERVE_def INTERRUPT_CONTEXT_SIZE_def
    by (simp_all add: checked_sub_def word_le_nat_alt a b start_def [symmetric])
  then show ?thesis
    using KernelStack_top_ret(1) [OF assms] by (simp add: Task_initialize_interrupt_context_def top_def)
qed

text \<open>The synthetic frame passes the validation of the timer interrupt when the entry point is in the kernel image.\<close>

lemma written_frame_valid:
  assumes "stack_placed base" and "0x100000 \<le> entry" "entry < 0x200000"
    and m: "\<forall>i < 19. m (frame_addr base + 8 * of_nat i) = interrupt_frame_words entry ! i"
  shows "validate_interrupt_frame m (frame_addr base)"
proof -
  have "frame_addr base \<noteq> 0" using unat_frame_addr [OF assms(1)] by (auto simp: word_unat_eq_iff)
  moreover have "drop_bit 48 entry = 0"
  proof -
    have "unat entry < 2 ^ 48" using assms(3) by (simp add: word_less_nat_alt)
    then have "unat (drop_bit 48 entry) = 0" by (simp add: drop_bit_eq_div unat_div)
    then show ?thesis by (simp add: word_unat_eq_iff)
  qed
  ultimately show ?thesis
    using m [rule_format, of 15] m [rule_format, of 16] m [rule_format, of 17] m [rule_format, of 18] assms(2,3)
    by (simp add: validate_interrupt_frame_def read_interrupt_frame_word_def interrupt_frame_words_def is_canonical_address_def not_less not_le)
qed

lemma frame_words_written:
  assumes "stack_placed base" and "i < 19"
  shows "write_words (frame_addr base) (interrupt_frame_words entry) m (frame_addr base + 8 * of_nat i) = interrupt_frame_words entry ! i"
  by (rule write_words_nth) (use assms unat_frame_addr [OF assms(1)] in \<open>simp_all add: stack_placed_def interrupt_frame_words_def\<close>)

text \<open>Writing a frame or a stack in one place leaves the frame on another slot's stack alone.\<close>

definition in_region :: "u64 \<Rightarrow> u64 \<Rightarrow> bool" where
  "in_region base a \<longleftrightarrow> unat base \<le> unat a \<and> unat a < unat base + 16384"

lemma frame_in_region: "stack_placed base \<Longrightarrow> i < 19 \<Longrightarrow> in_region base (frame_addr base + 8 * of_nat i)"
proof -
  assume p: "stack_placed base" and i: "i < 19"
  have "unat (8 * of_nat i :: u64) = 8 * i" using i unat_of_nat_small [of i, where 'a = 64] by (simp add: unat_word_ariths)
  then have "unat (frame_addr base + 8 * of_nat i) = unat base + 14184 + 8 * i"
    using unat_plus_small [of "frame_addr base" "8 * of_nat i"] unat_frame_addr [OF p] p i by (simp add: stack_placed_def)
  then show ?thesis using i by (simp add: in_region_def)
qed

lemma regions_disjoint: "stacks_ok L \<Longrightarrow> j < 8 \<Longrightarrow> k < 8 \<Longrightarrow> j \<noteq> k \<Longrightarrow> in_region (slot_stack L j) a \<Longrightarrow> \<not> in_region (slot_stack L k) a"
  by (fastforce simp: stacks_ok_def in_region_def)

lemma write_frame_outside:
  assumes "stack_placed base" and "\<not> in_region base a"
  shows "write_words (frame_addr base) (interrupt_frame_words entry) m a = m a"
  by (rule write_words_out)
    (use assms unat_frame_addr [OF assms(1)] in \<open>auto simp: stack_placed_def interrupt_frame_words_def in_region_def\<close>)

lemma copy_stack_outside: "\<not> in_region dst a \<Longrightarrow> copy_stack src dst m a = m a"
  by (auto simp: copy_stack_def in_region_def)

section \<open>Starting a preemptive task\<close>

text \<open>The task once its frame is built and its context leads into the trampoline.\<close>

definition armed :: "Layout \<Rightarrow> usize \<Rightarrow> Task \<Rightarrow> Task" where
  "armed L k t = t\<lparr>interrupt_rsp := frame_addr (slot_stack L k),
     task_context := TaskContext_empty\<lparr>ctx_rsp := frame_addr (slot_stack L k), ctx_rip := start_interrupt_context_addr L\<rparr>\<rparr>"

lemma start_preemptive_ok:
  assumes inv: "Scheduler_inv (SCHEDULER g)" and L: "stacks_ok L"
    and k: "k < 8" "tasks (SCHEDULER g) ! k = Some t" "task_id t = i"
  shows "\<exists>g'. start_preemptive L i entry g = ret (Some g') \<and> Scheduler_inv (SCHEDULER g')
    \<and> current_task (SCHEDULER g') = current_task (SCHEDULER g)
    \<and> tasks_of (SCHEDULER g') = (tasks_of (SCHEDULER g))(i \<mapsto> armed L k t)
    \<and> tasks (SCHEDULER g') = (tasks (SCHEDULER g))[k := Some (armed L k t)]
    \<and> g_mem g' = write_words (frame_addr (slot_stack L k)) (interrupt_frame_words entry) (g_mem g)"
proof -
  let ?s = "SCHEDULER g"
  have len: "length (tasks ?s) = 8" and dup: "no_duplicates (ids (tasks ?s))"
    using Scheduler_invD(2,3) [OF inv] by (simp_all add: MAX_SCHEDULER_TASKS_def task_ids_def)
  have "k < length (tasks ?s)" using k(1) len by simp
  note change = slot_map_change [OF this k(2) dup]
  obtain j where j: "first_index (holds_task i) (tasks ?s) = Some j"
    using first_index_ex [of "Some t" "tasks ?s" "holds_task i"] nth_mem [of k "tasks ?s"] k len by (auto simp: holds_task_def)
  then have "j < length (tasks ?s)" "holds_task i (tasks ?s ! j)" using first_index_SomeD [OF j] by auto
  then have "ids (tasks ?s) ! j = Some i" "ids (tasks ?s) ! k = Some i" using k len by (auto simp: holds_task_iff)
  then have "j = k" using no_duplicates_nth [OF dup] \<open>j < length (tasks ?s)\<close> k(1) len by simp
  have base: "stack_placed (slot_stack L k)" by (rule stacks_okD [OF L k(1)])
  have "frame_addr (slot_stack L k) \<noteq> 0" using unat_frame_addr [OF base] by (auto simp: word_unat_eq_iff)
  then have prep: "Task_prepare_preemptive_start (start_interrupt_context_addr L) (t\<lparr>interrupt_rsp := frame_addr (slot_stack L k)\<rparr>)
      = ret (armed L k t)" by (simp add: Task_prepare_preemptive_start_def armed_def)
  let ?g = "g\<lparr>SCHEDULER := ?s\<lparr>tasks := (tasks ?s)[k := Some (armed L k t)]\<rparr>,
      g_mem := write_words (frame_addr (slot_stack L k)) (interrupt_frame_words entry) (g_mem g)\<rparr>"
  have run: "start_preemptive L i entry g = ret (Some ?g)"
    using j \<open>j = k\<close> k(2) prep by (simp add: start_preemptive_def Let_def initialize_interrupt_context_ret [OF base])
  have id: "task_id (armed L k t) = task_id t" by (simp add: armed_def)
  have "Scheduler_inv (SCHEDULER ?g)" "tasks_of (SCHEDULER ?g) = (tasks_of ?s)(i \<mapsto> armed L k t)"
    using change [OF id] inv k(3) by (simp_all add: Scheduler_inv_def task_ids_def tasks_of_slot_map)
  with run show ?thesis by (intro exI [of _ ?g]) simp
qed

lemma create_task_from_ok:
  assumes "Scheduler_inv (SCHEDULER g)" and "task_id t \<notin> dom (tasks_of (SCHEDULER g))" "card (dom (tasks_of (SCHEDULER g))) < 8"
  obtains k g' where "create_task_from L loc t g = ret (Some (task_id t), g')" "Scheduler_inv (SCHEDULER g')" "k < 8"
    "tasks (SCHEDULER g) ! k = None" "tasks (SCHEDULER g') = (tasks (SCHEDULER g))[k := Some t]"
    "tasks_of (SCHEDULER g') = (tasks_of (SCHEDULER g))(task_id t \<mapsto> t)" "current_task (SCHEDULER g') = current_task (SCHEDULER g)"
    "g_mem g' = copy_stack (local_stack L loc) (slot_stack L k) (g_mem g)" "g_cpu g' = g_cpu g" "NEXT_TASK_ID g' = NEXT_TASK_ID g"
  using assms(1)
proof (cases rule: Scheduler_create_cases [of _ t])
  case refused
  then show ?thesis using assms(2,3) by (simp add: MAX_SCHEDULER_TASKS_def)
next
  case (created k s')
  let ?g = "g\<lparr>SCHEDULER := s', g_mem := copy_stack (local_stack L loc) (slot_stack L k) (g_mem g)\<rparr>"
  have "create_task_from L loc t g = ret (Some (task_id t), ?g)" using created(1) by (simp add: create_task_from_def)
  then show ?thesis by (rule that) (use created in \<open>simp_all add: MAX_SCHEDULER_TASKS_def\<close>)
qed

text \<open>Both tasks created and armed, before the first is made current.\<close>

lemma two_armed_tasks:
  assumes inv: "Scheduler_inv (SCHEDULER g)" and L: "stacks_ok L" and room: "card (dom (tasks_of (SCHEDULER g))) \<le> 6"
    and fresh: "a \<notin> dom (tasks_of (SCHEDULER g))" "b \<notin> dom (tasks_of (SCHEDULER g))" "a \<noteq> b"
  obtains g1 g2 g3 g4 j k where "create_task_from L 0 (Task_new a 1) g = ret (Some a, g1)" "start_preemptive L a ea g1 = ret (Some g2)"
    "create_task_from L 1 (Task_new b 1) g2 = ret (Some b, g3)" "start_preemptive L b eb g3 = ret (Some g4)"
    "j < 8" "k < 8" "j \<noteq> k" "Scheduler_inv (SCHEDULER g4)"
    "tasks_of (SCHEDULER g4) = (tasks_of (SCHEDULER g))(a \<mapsto> armed L j (Task_new a 1), b \<mapsto> armed L k (Task_new b 1))"
    "\<forall>i < 19. g_mem g4 (frame_addr (slot_stack L j) + 8 * of_nat i) = interrupt_frame_words ea ! i"
    "\<forall>i < 19. g_mem g4 (frame_addr (slot_stack L k) + 8 * of_nat i) = interrupt_frame_words eb ! i"
proof -
  let ?M = "tasks_of (SCHEDULER g)"
  have fin: "finite (dom ?M)" using dom_tasks_of [OF inv] by simp
  have ids: "task_id (Task_new a 1) = a" "task_id (Task_new b 1) = b" by (simp_all add: Task_new_def)
  obtain j g1 where g1: "create_task_from L 0 (Task_new a 1) g = ret (Some a, g1)" "Scheduler_inv (SCHEDULER g1)" "j < 8"
    "tasks (SCHEDULER g) ! j = None" "tasks (SCHEDULER g1) = (tasks (SCHEDULER g))[j := Some (Task_new a 1)]"
    "tasks_of (SCHEDULER g1) = ?M(a \<mapsto> Task_new a 1)" "current_task (SCHEDULER g1) = current_task (SCHEDULER g)"
    "g_mem g1 = copy_stack (local_stack L 0) (slot_stack L j) (g_mem g)" "g_cpu g1 = g_cpu g" "NEXT_TASK_ID g1 = NEXT_TASK_ID g"
    by (rule create_task_from_ok [OF inv, of "Task_new a 1" L 0, unfolded ids]) (use fresh room in auto)
  have len: "length (tasks (SCHEDULER g)) = 8" using Scheduler_invD(2) [OF inv] by (simp add: MAX_SCHEDULER_TASKS_def)
  have at_j: "tasks (SCHEDULER g1) ! j = Some (Task_new a 1)" using g1(3,5) len by simp
  obtain g2 where g2: "start_preemptive L a ea g1 = ret (Some g2)" "Scheduler_inv (SCHEDULER g2)"
    "tasks_of (SCHEDULER g2) = ?M(a \<mapsto> armed L j (Task_new a 1))"
    "tasks (SCHEDULER g2) = (tasks (SCHEDULER g))[j := Some (armed L j (Task_new a 1))]"
    "g_mem g2 = write_words (frame_addr (slot_stack L j)) (interrupt_frame_words ea) (g_mem g1)"
    using start_preemptive_ok [OF g1(2) L g1(3) at_j ids(1), of ea] g1(5,6) by auto
  have dom2: "dom (tasks_of (SCHEDULER g2)) = insert a (dom ?M)" unfolding g2(3) by simp
  have room2: "card (dom (tasks_of (SCHEDULER g2))) < 8" unfolding dom2 using room fin fresh(1) by simp
  have b2: "b \<notin> dom (tasks_of (SCHEDULER g2))" unfolding dom2 using fresh by simp
  obtain k g3 where g3: "create_task_from L 1 (Task_new b 1) g2 = ret (Some b, g3)" "Scheduler_inv (SCHEDULER g3)" "k < 8"
    "tasks (SCHEDULER g2) ! k = None" "tasks (SCHEDULER g3) = (tasks (SCHEDULER g2))[k := Some (Task_new b 1)]"
    "tasks_of (SCHEDULER g3) = (tasks_of (SCHEDULER g2))(b \<mapsto> Task_new b 1)" "current_task (SCHEDULER g3) = current_task (SCHEDULER g2)"
    "g_mem g3 = copy_stack (local_stack L 1) (slot_stack L k) (g_mem g2)" "g_cpu g3 = g_cpu g2" "NEXT_TASK_ID g3 = NEXT_TASK_ID g2"
    by (rule create_task_from_ok [OF g2(2), of "Task_new b 1" L 1, unfolded ids]) (use b2 room2 in auto)
  have jk: "j \<noteq> k" using g3(4) g2(4) g1(3) len by auto
  have at_k: "tasks (SCHEDULER g3) ! k = Some (Task_new b 1)" using g3(3,5) g2(4) len by simp
  obtain g4 where g4: "start_preemptive L b eb g3 = ret (Some g4)" "Scheduler_inv (SCHEDULER g4)"
    "tasks_of (SCHEDULER g4) = (tasks_of (SCHEDULER g3))(b \<mapsto> armed L k (Task_new b 1))"
    "g_mem g4 = write_words (frame_addr (slot_stack L k)) (interrupt_frame_words eb) (g_mem g3)"
    using start_preemptive_ok [OF g3(2) L g3(3) at_k ids(2), of eb] by auto
  have pj: "stack_placed (slot_stack L j)" and pk: "stack_placed (slot_stack L k)" using stacks_okD [OF L] g1(3) g3(3) by auto
  have "g_mem g4 (frame_addr (slot_stack L j) + 8 * of_nat i) = interrupt_frame_words ea ! i" if "i < 19" for i
    using regions_disjoint [OF L g1(3) g3(3) jk frame_in_region [OF pj that]]
    by (simp add: g4(4) g3(8) g2(5) write_frame_outside [OF pk] copy_stack_outside frame_words_written [OF pj that])
  moreover have "g_mem g4 (frame_addr (slot_stack L k) + 8 * of_nat i) = interrupt_frame_words eb ! i" if "i < 19" for i
    by (simp add: g4(4) frame_words_written [OF pk that])
  moreover have "tasks_of (SCHEDULER g4) = ?M(a \<mapsto> armed L j (Task_new a 1), b \<mapsto> armed L k (Task_new b 1))"
    using g4(3) g3(6) g2(3) by simp
  ultimately show ?thesis by (intro that [OF g1(1) g2(1) g3(1) g4(1) g1(3) g3(3) jk g4(2)]) simp_all
qed

text \<open>
  The preemptive test starts both tasks correctly: with room for two tasks and unused ids it
  creates both, each with a synthetic interrupt frame on the stack of its own slot that the timer
  interrupt will accept, makes task A the current, running one, and switches into the trampoline
  with the stack pointer at A's frame.
\<close>

theorem preemptive_test_starts:
  assumes "Scheduler_inv (SCHEDULER g)" and "stacks_ok L" and "card (dom (tasks_of (SCHEDULER g))) \<le> 6"
    and "NEXT_TASK_ID g = a" and "a \<notin> dom (tasks_of (SCHEDULER g))" "a + 1 \<notin> dom (tasks_of (SCHEDULER g))"
    and "0x100000 \<le> preemptive_task_a_addr L" "preemptive_task_a_addr L < 0x200000"
    and "0x100000 \<le> preemptive_task_b_addr L" "preemptive_task_b_addr L < 0x200000"
  shows "\<exists>g' j k. run_preemptive_test L g = ret (True, g') \<and> j < 8 \<and> k < 8 \<and> j \<noteq> k
    \<and> sched_view g' = (Some a, (tasks_of (SCHEDULER g))(a \<mapsto> restart_slice (armed L j (Task_new a 1)), a + 1 \<mapsto> armed L k (Task_new (a + 1) 1)))
    \<and> validate_interrupt_frame (g_mem g') (frame_addr (slot_stack L j)) \<and> validate_interrupt_frame (g_mem g') (frame_addr (slot_stack L k))
    \<and> g_cpu g' = TaskContext_empty\<lparr>ctx_rsp := frame_addr (slot_stack L j), ctx_rip := start_interrupt_context_addr L\<rparr>"
proof -
  define b where "b = a + 1"
  define g0 where "g0 = (say (crlf @ ''PREEMPTIVE TEST: CREATING TASKS'' @ crlf) g)\<lparr>NEXT_TASK_ID := b + 1,
    g_mem := zero_stack (local_stack L 1) (zero_stack (local_stack L 0) (g_mem g))\<rparr>"
  have S: "SCHEDULER g0 = SCHEDULER g" by (simp add: g0_def)
  have ab: "a \<noteq> b" by (simp add: b_def)
  have b_new: "b \<notin> dom (tasks_of (SCHEDULER g))" unfolding b_def by (rule assms(6))
  obtain g1 g2 g3 g4 j k where run: "create_task_from L 0 (Task_new a 1) g0 = ret (Some a, g1)"
    "start_preemptive L a (preemptive_task_a_addr L) g1 = ret (Some g2)" "create_task_from L 1 (Task_new b 1) g2 = ret (Some b, g3)"
    "start_preemptive L b (preemptive_task_b_addr L) g3 = ret (Some g4)" "j < 8" "k < 8" "j \<noteq> k" "Scheduler_inv (SCHEDULER g4)"
    "tasks_of (SCHEDULER g4) = (tasks_of (SCHEDULER g))(a \<mapsto> armed L j (Task_new a 1), b \<mapsto> armed L k (Task_new b 1))"
    "\<forall>i < 19. g_mem g4 (frame_addr (slot_stack L j) + 8 * of_nat i) = interrupt_frame_words (preemptive_task_a_addr L) ! i"
    "\<forall>i < 19. g_mem g4 (frame_addr (slot_stack L k) + 8 * of_nat i) = interrupt_frame_words (preemptive_task_b_addr L) ! i"
    by (rule two_armed_tasks [where g = g0 and L = L and a = a and b = b and ea = "preemptive_task_a_addr L" and eb = "preemptive_task_b_addr L",
        unfolded S, OF assms(1-3,5) b_new ab])
  have valid: "validate_interrupt_frame (g_mem g4) (frame_addr (slot_stack L j))" "validate_interrupt_frame (g_mem g4) (frame_addr (slot_stack L k))"
    using written_frame_valid [OF stacks_okD [OF assms(2) run(5)] assms(7,8) run(10)]
      written_frame_valid [OF stacks_okD [OF assms(2) run(6)] assms(9,10) run(11)] by simp_all
  have a4: "tasks_of (SCHEDULER g4) a = Some (armed L j (Task_new a 1))" using run(9) ab by simp
  have ain: "a \<in> dom (tasks_of (SCHEDULER g4))" using a4 by blast
  let ?s = "SCHEDULER g4\<lparr>current_task := Some a\<rparr>"
  have cur: "Scheduler_set_current a (SCHEDULER g4) = (True, ?s)"
    using ain dom_tasks_of [OF run(8)] by (simp add: Scheduler_set_current_def)
  have M5: "tasks_of ?s = (tasks_of (SCHEDULER g))(a \<mapsto> armed L j (Task_new a 1), b \<mapsto> armed L k (Task_new b 1))"
    using set_current_inv(2) [OF run(8) ain] run(9) by simp
  note s5 = task_mut_map [OF set_current_inv(1) [OF run(8) ain] M5, of a "armed L j (Task_new a 1)" restart_slice]
  define g5 where "g5 = say (''PREEMPTIVE TEST: STARTING TASK A'' @ crlf) (say (''PREEMPTIVE TEST: TASK B READY'' @ crlf)
    (say (''PREEMPTIVE TEST: TASK A READY'' @ crlf) (g4\<lparr>PREEMPT_TASK_A_ID := a, PREEMPT_TASK_B_ID := b, PREEMPT_TICKS_A := 0,
      PREEMPT_TICKS_B := 0, SCHEDULER := Scheduler_task_mut a restart_slice ?s\<rparr>)))"
  have g5: "Scheduler_inv (SCHEDULER g5)" "g_mem g5 = g_mem g4"
    "tasks_of (SCHEDULER g5) = (tasks_of (SCHEDULER g))(a \<mapsto> restart_slice (armed L j (Task_new a 1)), b \<mapsto> armed L k (Task_new b 1))"
    using s5 ab by (simp_all add: g5_def fun_upd_twist)
  then have "tasks_of (SCHEDULER g5) a = Some (restart_slice (armed L j (Task_new a 1)))" using ab by simp
  note final = switch_kernel_to_task_view [OF g5(1) this]
  have "run_preemptive_test L g = ret (True, switch_kernel_to_task a g5)"
    unfolding run_preemptive_test_def Let_def allocate_task_id_def prod.case say_simps assms(4)
    unfolding b_def [symmetric] unfolding g0_def [symmetric]
    using run(1-4) cur by (simp add: g5_def)
  then show ?thesis
    using final g5 valid run(5-7) unfolding b_def [symmetric]
    by (intro exI [of _ "switch_kernel_to_task a g5"] exI [of _ j] exI [of _ k]) (simp add: armed_def restart_slice_def)
qed

section \<open>Two defects\<close>

lemma create_task_from_ex:
  assumes "Scheduler_inv (SCHEDULER g)" and "task_id t \<notin> dom (tasks_of (SCHEDULER g))" "card (dom (tasks_of (SCHEDULER g))) < 8"
  shows "\<exists>k g'. create_task_from L loc t g = ret (Some (task_id t), g') \<and> Scheduler_inv (SCHEDULER g') \<and> k < 8
    \<and> tasks (SCHEDULER g') = (tasks (SCHEDULER g))[k := Some t] \<and> tasks_of (SCHEDULER g') = (tasks_of (SCHEDULER g))(task_id t \<mapsto> t)"
  by (rule create_task_from_ok [OF assms, of L loc]) (intro exI conjI)

lemma initialize_context_ret:
  assumes "stack_placed base"
  shows "Task_initialize_context te base entry (t, m)
    = ret (t\<lparr>task_context := TaskContext_empty\<lparr>ctx_rsp := base + 16376, ctx_rip := entry\<rparr>\<rparr>, m(base + 16376 := te))"
    and "unat (base + 16376) = unat base + 16376"
proof -
  define top where "top = base + 16384"
  have a: "unat top = unat base + 16384" unfolding top_def by (rule KernelStack_top_ret(2) [OF assms])
  have "psub top 8 = ret (base + 16376)" by (simp add: checked_sub_def word_le_nat_alt a) (simp add: top_def)
  then show "Task_initialize_context te base entry (t, m)
    = ret (t\<lparr>task_context := TaskContext_empty\<lparr>ctx_rsp := base + 16376, ctx_rip := entry\<rparr>\<rparr>, m(base + 16376 := te))"
    using KernelStack_top_ret(1) [OF assms] by (simp add: Task_initialize_context_def top_def)
  show "unat (base + 16376) = unat base + 16376"
    using unat_plus_small [of base 16376] assms by (simp add: stack_placed_def)
qed

text \<open>
  The initial task is created with a stack pointer that does not lie in its stack:
  \<open>create_initial_task\<close> computes it from the address of a local \<open>Task\<close>, which is then moved into the
  scheduler, so the context points into the abandoned stack frame of \<open>create_initial_task\<close>.
\<close>

theorem initial_task_stack_dangles:
  assumes "Scheduler_inv (SCHEDULER g)" and "stack_placed (local_stack L 0)" and "NEXT_TASK_ID g = a"
    and "a \<notin> dom (tasks_of (SCHEDULER g))" and "card (dom (tasks_of (SCHEDULER g))) < 8"
    and "\<And>k. k < 8 \<Longrightarrow> unat (local_stack L 0) + 16384 \<le> unat (slot_stack L k) \<or> unat (slot_stack L k) + 16384 \<le> unat (local_stack L 0)"
  shows "\<exists>g' k t. create_initial_task L g = ret (Some a, g') \<and> k < 8 \<and> tasks (SCHEDULER g') ! k = Some t \<and> task_id t = a
    \<and> in_region (local_stack L 0) (ctx_rsp (task_context t)) \<and> \<not> in_region (slot_stack L k) (ctx_rsp (task_context t))"
proof -
  let ?t = "(Task_new a 1)\<lparr>task_context := TaskContext_empty\<lparr>ctx_rsp := local_stack L 0 + 16376, ctx_rip := task_bootstrap_addr L\<rparr>\<rparr>"
  have id: "task_id ?t = a" by (simp add: Task_new_def)
  define m where "m = (zero_stack (local_stack L 0) (g_mem g))(local_stack L 0 + 16376 := task_exit_addr L)"
  define g1 where "g1 = g\<lparr>NEXT_TASK_ID := a + 1, g_mem := m\<rparr>"
  have S: "SCHEDULER g1 = SCHEDULER g" by (simp add: g1_def)
  have start: "create_initial_task L g = create_task_from L 0 ?t g1"
    using assms(3) initialize_context_ret(1) [OF assms(2)]
    by (simp add: create_initial_task_def allocate_task_id_def g1_def m_def)
  have len: "length (tasks (SCHEDULER g)) = 8" using Scheduler_invD(2) [OF assms(1)] by (simp add: MAX_SCHEDULER_TASKS_def)
  obtain k g' where k: "create_task_from L 0 ?t g1 = ret (Some a, g')" "k < 8" "tasks (SCHEDULER g') = (tasks (SCHEDULER g))[k := Some ?t]"
    using create_task_from_ex [of g1 ?t L 0, unfolded S id, OF assms(1,4,5)] by blast
  have "tasks (SCHEDULER g') ! k = Some ?t" using k(2,3) len by simp
  moreover have rsp: "unat (ctx_rsp (task_context ?t)) = unat (local_stack L 0) + 16376"
    using initialize_context_ret(2) [OF assms(2)] by simp
  then have "in_region (local_stack L 0) (ctx_rsp (task_context ?t))" by (simp add: in_region_def)
  moreover have "\<not> in_region (slot_stack L k) (ctx_rsp (task_context ?t))"
    using assms(6) [OF k(2)] unfolding in_region_def rsp by linarith
  ultimately show ?thesis
    unfolding start by (intro exI [of _ g'] exI [of _ k] exI [of _ ?t]) (use k(1,2) id in simp)
qed

text \<open>
  The cooperative test switches to address 0: \<open>run_context_switch_test\<close> never initialises the
  contexts of its two tasks, so the switch into task A loads an all-zero context, stack pointer and
  instruction pointer included.
\<close>

theorem context_switch_test_null:
  assumes "Scheduler_inv (SCHEDULER g)" and "card (dom (tasks_of (SCHEDULER g))) \<le> 6" and "NEXT_TASK_ID g = a"
    and "a \<notin> dom (tasks_of (SCHEDULER g))" "a + 1 \<notin> dom (tasks_of (SCHEDULER g))"
  shows "\<exists>g'. run_context_switch_test L g = ret (True, a, a + 1, g') \<and> current_task (SCHEDULER g') = Some a
    \<and> ctx_rip (g_cpu g') = 0 \<and> ctx_rsp (g_cpu g') = 0"
proof -
  define b where "b = a + 1"
  have ab: "a \<noteq> b" by (simp add: b_def)
  have ids: "task_id (Task_new a 1) = a" "task_id (Task_new b 1) = b" by (simp_all add: Task_new_def)
  define g0 where "g0 = (say (''================================'' @ crlf) (say (''PHASE 3.3 CONTEXT SWITCH TEST'' @ crlf)
    (say (''================================'' @ crlf) (say crlf g))))\<lparr>NEXT_TASK_ID := b + 1,
    g_mem := zero_stack (local_stack L 1) (zero_stack (local_stack L 0) (g_mem g))\<rparr>"
  have S: "SCHEDULER g0 = SCHEDULER g" by (simp add: g0_def)
  have fin: "finite (dom (tasks_of (SCHEDULER g)))" using dom_tasks_of [OF assms(1)] by simp
  obtain g1 where g1: "create_task_from L 0 (Task_new a 1) g0 = ret (Some a, g1)" "Scheduler_inv (SCHEDULER g1)"
    "tasks_of (SCHEDULER g1) = (tasks_of (SCHEDULER g))(a \<mapsto> Task_new a 1)"
    using create_task_from_ex [of g0 "Task_new a 1" L 0, unfolded S ids, OF assms(1,4)] assms(2) by auto
  have dom: "dom (tasks_of (SCHEDULER g1)) = insert a (dom (tasks_of (SCHEDULER g)))" unfolding g1(3) by simp
  have room: "card (dom (tasks_of (SCHEDULER g1))) < 8" unfolding dom using assms(2,4) fin by simp
  have b1: "b \<notin> dom (tasks_of (SCHEDULER g1))" unfolding dom using assms(5) ab by (simp add: b_def)
  obtain g2 where g2: "create_task_from L 1 (Task_new b 1) g1 = ret (Some b, g2)" "Scheduler_inv (SCHEDULER g2)"
    "tasks_of (SCHEDULER g2) = (tasks_of (SCHEDULER g1))(b \<mapsto> Task_new b 1)"
    using create_task_from_ex [of g1 "Task_new b 1" L 1, unfolded ids, OF g1(2) b1 room] by blast
  define g3 where "g3 = say (''TASK A ID: 0x'' @ hex_digits a 16 @ crlf @ ''TASK B ID: 0x'' @ hex_digits b 16 @ crlf)
    (g2\<lparr>TEST_TASK_A_ID := a, TEST_TASK_B_ID := b\<rparr>)"
  have "Scheduler_inv (SCHEDULER g3)" "tasks_of (SCHEDULER g3) a = Some (Task_new a 1)"
    using g2(2,3) g1(3) ab by (simp_all add: g3_def)
  note switch = switch_kernel_to_task_view [OF this]
  have "run_context_switch_test L g = ret (True, a, b, switch_kernel_to_task a g3)"
    unfolding run_context_switch_test_def Let_def allocate_task_id_def prod.case say_simps assms(3)
    unfolding b_def [symmetric] unfolding g0_def [symmetric]
    using g1(1) g2(1) by (simp add: g3_def serial_write_hex_digits)
  then show ?thesis
    using switch(2,3) by (simp add: b_def Task_new_def TaskContext_empty_def sched_view_def)
qed

section \<open>Examples\<close>

lemma unat_slot: "k < 8 \<Longrightarrow> unat (0x1000000 + 0x10000 * of_nat k :: u64) = 0x1000000 + 0x10000 * k"
proof -
  assume "k < 8"
  then have "(0x1000000 + 0x10000 * of_nat k :: u64) = of_nat (0x1000000 + 0x10000 * k)" "0x1000000 + 0x10000 * k < 2 ^ LENGTH(64)"
    by simp_all
  then show ?thesis by (simp only: unat_of_nat_small)
qed

lemma example_layout_ok: "stacks_ok example_layout"
proof -
  have "stack_placed (slot_stack example_layout k)" if "k < 8" for k
    using unat_slot [OF that] that by (simp add: example_layout_def stack_placed_def)
  then show ?thesis
    using unat_slot by (auto simp: stacks_ok_def example_layout_def)
qed

lemma two_tasks_dom: "dom (tasks_of (SCHEDULER two_tasks)) = {1, 2}"
  unfolding tasks_of_slot_map dom_slot_map by (auto simp: two_tasks_def Task_new_def)

lemma two_tasks_next: "NEXT_TASK_ID two_tasks = 3"
  by (simp add: two_tasks_def)

theorem preemptive_test_starts_witness:
  "\<exists>g' j. run_preemptive_test example_layout two_tasks = ret (True, g') \<and> current_task (SCHEDULER g') = Some 3
    \<and> validate_interrupt_frame (g_mem g') (frame_addr (slot_stack example_layout j))"
  using preemptive_test_starts [OF two_tasks_inv example_layout_ok _ two_tasks_next]
  by (auto simp: two_tasks_dom example_layout_def sched_view_def)

theorem initial_task_stack_dangles_witness:
  "\<exists>g' k t. create_initial_task example_layout two_tasks = ret (Some 3, g') \<and> tasks (SCHEDULER g') ! k = Some t
    \<and> \<not> in_region (slot_stack example_layout k) (ctx_rsp (task_context t))"
proof -
  have "stack_placed (local_stack example_layout 0)" by (simp add: example_layout_def stack_placed_def)
  moreover have "unat (slot_stack example_layout k) + 16384 \<le> unat (local_stack example_layout 0)" if "k < 8" for k
    using unat_slot [OF that] that by (simp add: example_layout_def)
  ultimately show ?thesis
    using initial_task_stack_dangles [OF two_tasks_inv _ two_tasks_next, of example_layout] by (auto simp: two_tasks_dom)
qed

theorem context_switch_test_null_witness:
  "\<exists>g'. run_context_switch_test example_layout two_tasks = ret (True, 3, 4, g') \<and> ctx_rip (g_cpu g') = 0"
  using context_switch_test_null [OF two_tasks_inv _ two_tasks_next, of example_layout] by (auto simp: two_tasks_dom)

end
