(* ===== verification/Context_Switch.thy ===== *)
theory Context_Switch
  imports X86 Task_Start
begin

text \<open>
  The assembly of \<open>scheduler/context.rs\<close>: the cooperative switch, and the trampoline through which a
  preemptive task is entered.  The first implements the switch the scheduler model uses; of the
  second it is shown what it loads from a synthetic interrupt frame.
\<close>

section \<open>The code\<close>

definition save_code :: "instr list" where
  "save_code = [
     Load RAX RSP 0, Store RDI 56 RAX,
     Lea RAX RSP 8, Store RDI 0 RAX,
     Store RDI 8 RBP, Store RDI 16 RBX, Store RDI 24 R12, Store RDI 32 R13, Store RDI 40 R14, Store RDI 48 R15]"

definition restore_code :: "instr list" where
  "restore_code = [
     Load RSP RSI 0, Load RBP RSI 8, Load RBX RSI 16, Load R12 RSI 24, Load R13 RSI 32, Load R14 RSI 40, Load R15 RSI 48,
     Load RAX RSI 56]"

definition unbound_context_switch :: "machine \<Rightarrow> machine" where
  "unbound_context_switch m = jmp_reg RAX (exec (save_code @ restore_code) m)"

definition start_interrupt_context_code :: "instr list" where
  "start_interrupt_context_code = [
     Pop R15, Pop R14, Pop R13, Pop R12, Pop R11, Pop R10, Pop R9, Pop R8,
     Pop RDI, Pop RSI, Pop RBP, Pop RBX, Pop RDX, Pop RCX, Pop RAX, AddImm RSP 8]"

definition unbound_start_interrupt_context :: "machine \<Rightarrow> machine" where
  "unbound_start_interrupt_context m = iretq (exec start_interrupt_context_code m)"

section \<open>Contexts in memory and in registers\<close>

definition context_at :: "memory \<Rightarrow> u64 \<Rightarrow> TaskContext" where
  "context_at mm p = \<lparr>ctx_rsp = mm p, ctx_rbp = mm (p + 8), ctx_rbx = mm (p + 16), ctx_r12 = mm (p + 24), ctx_r13 = mm (p + 32),
     ctx_r14 = mm (p + 40), ctx_r15 = mm (p + 48), ctx_rip = mm (p + 56)\<rparr>"

text \<open>The context of a machine, and of the caller of a function that has just been called.\<close>

definition cpu_context :: "machine \<Rightarrow> TaskContext" where
  "cpu_context m = \<lparr>ctx_rsp = m_regs m RSP, ctx_rbp = m_regs m RBP, ctx_rbx = m_regs m RBX, ctx_r12 = m_regs m R12,
     ctx_r13 = m_regs m R13, ctx_r14 = m_regs m R14, ctx_r15 = m_regs m R15, ctx_rip = m_rip m\<rparr>"

definition caller_context :: "machine \<Rightarrow> TaskContext" where
  "caller_context m = (cpu_context m)\<lparr>ctx_rsp := m_regs m RSP + 8, ctx_rip := m_mem m (m_regs m RSP)\<rparr>"

definition context_offsets :: "u64 list" where
  "context_offsets = [0, 8, 16, 24, 32, 40, 48, 56]"

definition contexts_disjoint :: "u64 \<Rightarrow> u64 \<Rightarrow> bool" where
  "contexts_disjoint p q \<longleftrightarrow> (\<forall>a \<in> set context_offsets. \<forall>b \<in> set context_offsets. p + a \<noteq> q + b)"

lemma stores_elsewhere:
  "x \<notin> (\<lambda>(a, v). p + a) ` set avs \<Longrightarrow> fold (\<lambda>(a, v) mm. mm(p + a := v)) avs mm x = mm x"
  by (induction avs arbitrary: mm) auto

definition saved_words :: "TaskContext \<Rightarrow> (u64 \<times> u64) list" where
  "saved_words c = [(56, ctx_rip c), (0, ctx_rsp c), (8, ctx_rbp c), (16, ctx_rbx c), (24, ctx_r12 c), (32, ctx_r13 c),
     (40, ctx_r14 c), (48, ctx_r15 c)]"

lemma saved_words_offsets: "(\<lambda>(a, v). p + a) ` set (saved_words c) = (\<lambda>x. p + x) ` set context_offsets"
  by (auto simp: saved_words_def context_offsets_def)

lemma context_at_saved: "context_at (fold (\<lambda>(a, v) mm. mm(p + a := v)) (saved_words c) mm) p = c"
  by (simp add: saved_words_def context_at_def)

lemma exec_save:
  "m_mem (exec save_code m) = fold (\<lambda>(a, v) mm. mm(m_regs m RDI + a := v)) (saved_words (caller_context m)) (m_mem m)"
  "m_regs (exec save_code m) = (m_regs m)(RAX := m_regs m RSP + 8)"
  by (simp_all add: save_code_def saved_words_def caller_context_def cpu_context_def)

lemma exec_restore:
  "m_mem (exec restore_code m) = m_mem m"
  "cpu_context (jmp_reg RAX (exec restore_code m)) = context_at (m_mem m) (m_regs m RSI)"
  by (simp_all add: restore_code_def context_at_def cpu_context_def jmp_reg_def)

text \<open>
  C23.  The assembly of the cooperative switch implements the switch of the scheduler model: it stores the
  context of its caller in the old \<open>TaskContext\<close>, loads exactly the new one, continues at its \<open>rip\<close>, and
  changes no other memory, whenever the two structures do not overlap.
\<close>

theorem context_switch_exact:
  assumes "contexts_disjoint (m_regs m RDI) (m_regs m RSI)"
  shows "context_at (m_mem (unbound_context_switch m)) (m_regs m RDI) = caller_context m
    \<and> cpu_context (unbound_context_switch m) = context_at (m_mem m) (m_regs m RSI)
    \<and> (\<forall>a. a \<notin> (\<lambda>x. m_regs m RDI + x) ` set context_offsets \<longrightarrow> m_mem (unbound_context_switch m) a = m_mem m a)"
proof -
  let ?p = "m_regs m RDI" let ?q = "m_regs m RSI"
  let ?mm = "fold (\<lambda>(a, v) mm. mm(?p + a := v)) (saved_words (caller_context m)) (m_mem m)"
  have mem: "m_mem (unbound_context_switch m) = ?mm"
    by (simp add: unbound_context_switch_def exec_append exec_restore exec_save jmp_reg_def)
  have out: "?mm a = m_mem m a" if "a \<notin> (\<lambda>x. ?p + x) ` set context_offsets" for a
    using that stores_elsewhere [of a ?p "saved_words (caller_context m)"] unfolding saved_words_offsets by blast
  have "?mm (?q + b) = m_mem m (?q + b)" if "b \<in> set context_offsets" for b
    by (rule out) (use assms that in \<open>force simp: contexts_disjoint_def\<close>)
  from this [of 0] this [of 8] this [of 16] this [of 24] this [of 32] this [of 40] this [of 48] this [of 56]
  have "context_at ?mm ?q = context_at (m_mem m) ?q" by (simp add: context_at_def context_offsets_def)
  then have "cpu_context (unbound_context_switch m) = context_at (m_mem m) ?q"
    by (simp add: unbound_context_switch_def exec_append exec_restore exec_save)
  with mem out show ?thesis by (simp add: context_at_saved)
qed

theorem context_switch_exact_witness:
  "contexts_disjoint (m_regs example_machine RDI) (m_regs example_machine RSI)
    \<and> context_at (m_mem (unbound_context_switch example_machine)) 0x1000 = caller_context example_machine
    \<and> m_rip (unbound_context_switch example_machine) = 0x2038"
proof -
  have "contexts_disjoint (m_regs example_machine RDI) (m_regs example_machine RSI)"
    by (simp add: contexts_disjoint_def context_offsets_def example_machine_def)
  moreover from context_switch_exact [OF this]
  have "cpu_context (unbound_context_switch example_machine) = context_at (m_mem example_machine) (m_regs example_machine RSI)"
    "context_at (m_mem (unbound_context_switch example_machine)) (m_regs example_machine RDI) = caller_context example_machine" by simp_all
  ultimately show ?thesis by (simp add: cpu_context_def context_at_def example_machine_def)
qed

section \<open>The trampoline\<close>

lemma start_interrupt_context_resume: "start_interrupt_context_code = resume_code 8"
  by (simp add: start_interrupt_context_code_def resume_code_def saved_regs_def)

lemma words_at_write_words:
  assumes "unat p + 8 * length ws < 2 ^ 64"
  shows "words_at (write_words p ws mem) p (length ws) = ws"
  by (rule nth_equalityI) (simp_all add: words_at_nth write_words_nth [OF assms])

text \<open>
  C24.  Entering a preemptive task.  The synthetic frame that \<open>initialize_interrupt_context\<close> writes has 19 words,
  ending in \<open>RFLAGS\<close>, but \<open>iretq\<close> pops two more in 64-bit mode.  On the freshly zeroed stack of a new task these
  are zero: the trampoline enters the task at its entry point with the \<open>CS\<close> and \<open>RFLAGS\<close> of the frame and
  interrupts enabled, but with stack pointer 0 instead of a pointer into the task's stack.
\<close>

theorem preemptive_task_enters_without_stack:
  assumes "stack_placed base"
    and "Task_initialize_interrupt_context base entry (t, zero_stack base mem) = ret (t', mem')"
    and "m_mem m = mem'" and "m_regs m RSP = interrupt_rsp t'"
  shows "cpu_frame (unbound_start_interrupt_context m) = replicate 15 0 @ [entry, 8, 0x202, 0, 0]"
proof -
  let ?p = "frame_addr base" let ?w = "interrupt_frame_words entry" let ?z = "zero_stack base mem"
  have f: "interrupt_rsp t' = ?p" "mem' = write_words ?p ?w ?z" "unat ?p = unat base + 14184"
    using assms(2) unat_frame_addr [OF assms(1)] by (auto simp: initialize_interrupt_context_ret [OF assms(1)])
  have pb: "?p = base + 14184" by (simp add: frame_addr_def)
  have len: "length ?w = 19" by (simp add: interrupt_frame_words_def)
  have p: "unat ?p + 8 * length ?w < 2 ^ 64" using assms(1) by (simp add: f(3) len stack_placed_def)
  have above: "write_words ?p ?w ?z a = 0" if "unat a = unat base + k" "14336 \<le> k" "k < 16384" for a k
    using write_words_out [OF p, of a ?z] that by (simp add: f(3) len zero_stack_def)
  have a1: "unat (base + 14336) = unat base + 14336" and a2: "unat (base + 14344) = unat base + 14344"
    using assms(1) unat_plus_small [of base 14336] unat_plus_small [of base 14344] by (simp_all add: stack_placed_def)
  have "words_at (m_mem m) ?p (19 + 2) = ?w @ [0, 0]"
    using words_at_write_words [OF p, of ?z] above [OF a1] above [OF a2] unfolding words_at_append len
    by (simp add: assms(3) f(2) pb eval_nat_numeral algebra_simps)
  then have w: "words_at (m_mem m) ?p (15 + (1 + 5)) = ?w @ [0, 0]" by simp
  have "words_at (m_mem m) ?p 15 = take 15 (?w @ [0, 0])" "words_at (m_mem m) (?p + 120 + 8) 5 = drop 16 (?w @ [0, 0])"
    unfolding w [symmetric] unfolding words_at_append by (simp_all add: algebra_simps)
  then show ?thesis
    unfolding unbound_start_interrupt_context_def start_interrupt_context_resume resume_frame assms(4) f(1)
    by (simp add: interrupt_frame_words_def eval_nat_numeral)
qed

theorem preemptive_task_enters_without_stack_witness:
  "cpu_frame (unbound_start_interrupt_context (set_reg RSP (frame_addr 0x200000) (example_machine\<lparr>m_mem :=
     snd (the (Task_initialize_interrupt_context 0x200000 0x100040 (Task_new 1 1, zero_stack 0x200000 (\<lambda>a. a))))\<rparr>)))
    = replicate 15 0 @ [0x100040, 8, 0x202, 0, 0]"
proof -
  have placed: "stack_placed 0x200000" by (simp add: stack_placed_def)
  show ?thesis
    by (rule preemptive_task_enters_without_stack [OF placed initialize_interrupt_context_ret [OF placed]])
      (simp_all add: initialize_interrupt_context_ret [OF placed])
qed

end
