(* ===== verification/Interrupts.thy ===== *)
theory Interrupts
  imports X86
begin

text \<open>
  The assembly entry points of \<open>arch/x86_64/idt.rs\<close>: the 32 exception stubs with their common path, and
  the timer interrupt.  The Rust handlers they call are parameters, functions on the machine that follow the
  System V calling convention; the addresses the calls return to are parameters as well.
\<close>

section \<open>Frames\<close>

record InterruptFrame =
  vector :: u64
  error_code :: u64
  frame_rip :: u64
  frame_cs :: u64
  frame_rflags :: u64

definition interrupt_frame_at :: "memory \<Rightarrow> u64 \<Rightarrow> InterruptFrame" where
  "interrupt_frame_at mm p = \<lparr>vector = mm p, error_code = mm (p + 8), frame_rip = mm (p + 16), frame_cs = mm (p + 24),
     frame_rflags = mm (p + 32)\<rparr>"

section \<open>Exceptions\<close>

text \<open>The stub of every vector, in order.\<close>

definition unbound_isr :: "instr list list" where
  "unbound_isr = [
     [PushImm 0, PushImm 0], [PushImm 0, PushImm 1], [PushImm 0, PushImm 2], [PushImm 0, PushImm 3],
     [PushImm 0, PushImm 4], [PushImm 0, PushImm 5], [PushImm 0, PushImm 6], [PushImm 0, PushImm 7],
     [PushImm 8], [PushImm 0, PushImm 9], [PushImm 10], [PushImm 11],
     [PushImm 12], [PushImm 13], [PushImm 14], [PushImm 0, PushImm 15],
     [PushImm 0, PushImm 16], [PushImm 17], [PushImm 0, PushImm 18], [PushImm 0, PushImm 19],
     [PushImm 0, PushImm 20], [PushImm 0, PushImm 21], [PushImm 0, PushImm 22], [PushImm 0, PushImm 23],
     [PushImm 0, PushImm 24], [PushImm 0, PushImm 25], [PushImm 0, PushImm 26], [PushImm 0, PushImm 27],
     [PushImm 0, PushImm 28], [PushImm 0, PushImm 29], [PushImm 0, PushImm 30], [PushImm 0, PushImm 31]]"

definition exception_save_code :: "instr list" where
  "exception_save_code = [
     Push RAX, Push RCX, Push RDX, Push RBX, Push RBP, Push RSI, Push RDI, Push R8,
     Push R9, Push R10, Push R11, Push R12, Push R13, Push R14, Push R15,
     Lea RDI RSP 120, SubImm RSP 8]"

definition exception_restore_code :: "instr list" where
  "exception_restore_code = [
     AddImm RSP 8,
     Pop R15, Pop R14, Pop R13, Pop R12, Pop R11, Pop R10, Pop R9, Pop R8,
     Pop RDI, Pop RSI, Pop RBP, Pop RBX, Pop RDX, Pop RCX, Pop RAX,
     AddImm RSP 8]"

text \<open>The machine at the call of the handler, and the whole path from the interrupted instruction to \<open>iretq\<close>.\<close>

definition exception_entry :: "nat \<Rightarrow> u64 \<Rightarrow> u64 list \<Rightarrow> machine \<Rightarrow> machine" where
  "exception_entry v sp ec m = exec exception_save_code (exec (unbound_isr ! v) (deliver sp ec m))"

definition unbound_exception_common :: "u64 \<Rightarrow> (machine \<Rightarrow> machine) \<Rightarrow> machine \<Rightarrow> machine" where
  "unbound_exception_common ra handler m = iretq (exec exception_restore_code (call_fn ra handler m))"

section \<open>The timer interrupt\<close>

definition irq0_save_code :: "instr list" where
  "irq0_save_code = [
     PushImm 32,
     Push RAX, Push RCX, Push RDX, Push RBX, Push RBP, Push RSI, Push RDI, Push R8,
     Push R9, Push R10, Push R11, Push R12, Push R13, Push R14, Push R15,
     Mov RDI RSP, Mov R12 RSP, AndImm RSP (NOT 15)]"

definition irq_restore_code :: "instr list" where
  "irq_restore_code = [
     Pop R15, Pop R14, Pop R13, Pop R12, Pop R11, Pop R10, Pop R9, Pop R8,
     Pop RDI, Pop RSI, Pop RBP, Pop RBX, Pop RDX, Pop RCX, Pop RAX,
     AddImm RSP 8]"

definition irq0_entry :: "u64 \<Rightarrow> machine \<Rightarrow> machine" where
  "irq0_entry sp m = exec irq0_save_code (deliver sp [] m)"

text \<open>The frame to resume: the interrupted one, unless the handler returned another.\<close>

definition select_context :: "machine \<Rightarrow> machine" where
  "select_context m =
     (let m = exec [Mov RSP R12] m;
          m = (if m_regs m RAX = 0 then m else exec [Mov RSP RAX] m)
      in exec [Mov RDI RSP] m)"

definition unbound_irq_common :: "u64 \<Rightarrow> (machine \<Rightarrow> machine) \<Rightarrow> u64 \<Rightarrow> (machine \<Rightarrow> machine) \<Rightarrow> machine \<Rightarrow> machine" where
  "unbound_irq_common ra1 timer_handler ra2 debug m =
     iretq (exec irq_restore_code (call_fn ra2 debug (select_context (call_fn ra1 timer_handler m))))"

section \<open>What the entry code saves\<close>

lemma deliver_state:
  "m_mem (deliver sp ec m) = pushed (rev (hw_frame m) @ ec) (sp AND NOT 15) (m_mem m)"
  "m_regs (deliver sp ec m) = (m_regs m)(RSP := (sp AND NOT 15) - 8 * of_nat (5 + length ec))"
  unfolding deliver_def exec.simps exec_push_imms by (simp_all add: hw_frame_def del: pushed.simps)

text \<open>Pushing all registers after some words onto the delivered frame.\<close>

lemma pushes_after_deliver:
  fixes m :: machine and ec ws :: "u64 list" and sp :: u64
  defines "d \<equiv> deliver sp ec m"
  defines "m' \<equiv> exec (map Push (rev saved_regs)) (exec (map PushImm ws) d)"
  defines "n \<equiv> 20 + length ec + length ws"
  assumes "length ec < 2" "length ws < 3"
  shows "m_regs m' = (m_regs m)(RSP := (sp AND NOT 15) - 8 * of_nat n)"
    and "words_at (m_mem m') (m_regs m' RSP) n = map (m_regs m) saved_regs @ rev ws @ rev ec @ hw_frame m"
    and "m_mem m' = pushed (rev (hw_frame m) @ ec @ ws @ map (m_regs m) (rev saved_regs)) (sp AND NOT 15) (m_mem m)"
proof -
  let ?r = "map (m_regs m) (rev saved_regs)" let ?vs = "rev (hw_frame m) @ ec @ ws @ ?r"
  have regs: "map (m_regs (exec (map PushImm ws) d)) (rev saved_regs) = ?r"
    by (rule map_cong [OF refl]) (use saved_regs_facts in \<open>auto simp: exec_push_imms d_def deliver_state\<close>)
  have "RSP \<notin> set (rev saved_regs)" using saved_regs_facts by simp
  note m' = exec_pushes [OF this, of "exec (map PushImm ws) d", unfolded regs]
  have len: "length ?vs = n" by (simp add: n_def hw_frame_def saved_regs_facts)
  show r: "m_regs m' = (m_regs m)(RSP := (sp AND NOT 15) - 8 * of_nat n)"
    unfolding m'_def unfolding m' exec_push_imms unfolding d_def deliver_state
    by (simp add: n_def saved_regs_facts algebra_simps)
  show mem: "m_mem m' = pushed ?vs (sp AND NOT 15) (m_mem m)"
  proof -
    have l5: "5 + length ec = length (rev (hw_frame m) @ ec)" by (simp add: hw_frame_def)
    have l6: "p - 8 * of_nat (length xs) - 8 * of_nat (length ys) = p - 8 * of_nat (length (xs @ ys))" for p :: u64 and xs ys :: "u64 list"
      by (simp add: algebra_simps)
    show ?thesis unfolding m'_def unfolding m' exec_push_imms unfolding d_def deliver_state fun_upd_same l5 l6 pushed_append
      by (simp only: append_assoc)
  qed
  have "length ?vs < 2 ^ 61" unfolding len n_def using assms(4,5) by simp
  then have "words_at (m_mem m') ((sp AND NOT 15) - 8 * of_nat (length ?vs)) (length ?vs) = rev ?vs"
    unfolding mem by (rule pushed_words)
  then show "words_at (m_mem m') (m_regs m' RSP) n = map (m_regs m) saved_regs @ rev ws @ rev ec @ hw_frame m"
    unfolding r len fun_upd_same by (simp add: rev_map)
qed

section \<open>Exceptions reach their handler\<close>

text \<open>The exceptions for which the processor pushes an error code.\<close>

definition error_code_ok :: "nat \<Rightarrow> u64 list \<Rightarrow> bool" where
  "error_code_ok v ec \<longleftrightarrow> (if v \<in> {8, 10, 11, 12, 13, 14, 17} then length ec = 1 else ec = [])"

definition error_word :: "u64 list \<Rightarrow> u64" where
  "error_word ec = (case ec of [] \<Rightarrow> 0 | e # _ \<Rightarrow> e)"

lemma unbound_isr_words:
  assumes "v < 32" and "error_code_ok v ec"
  obtains ws where "unbound_isr ! v = map PushImm ws" "rev ws @ rev ec = [of_nat v, error_word ec]" "length ws + length ec = 2"
proof -
  have "\<exists>ws. unbound_isr ! v = map PushImm ws \<and> rev ws @ rev ec = [of_nat v, error_word ec] \<and> length ws + length ec = 2"
  proof (cases "v \<in> {8, 10, 11, 12, 13, 14, 17}")
    case True
    then obtain e where "ec = [e]" using assms(2) by (auto simp: error_code_ok_def length_Suc_conv)
    then show ?thesis using True
      by (intro exI [of _ "[of_nat v]"]) (auto simp: unbound_isr_def error_word_def)
  next
    case False
    have "\<forall>v \<in> set [0..<32]. v \<in> {8, 10, 11, 12, 13, 14, 17} \<or> unbound_isr ! v = [PushImm 0, PushImm (of_nat v)]"
      by code_simp
    with False assms have "unbound_isr ! v = [PushImm 0, PushImm (of_nat v)]" "ec = []" by (auto simp: error_code_ok_def)
    then show ?thesis by (intro exI [of _ "[0, of_nat v]"]) (simp add: error_word_def)
  qed
  with that show ?thesis by blast
qed

lemma exception_save_pushes: "exception_save_code = map Push (rev saved_regs) @ [Lea RDI RSP 120, SubImm RSP 8]"
  by (simp add: exception_save_code_def saved_regs_def)

text \<open>The 22 words on the stack when the handler is called, above one word of padding.\<close>

lemma exception_entry_state:
  fixes m :: machine and sp :: u64
  assumes "v < 32" and "error_code_ok v ec"
  defines "m' \<equiv> exception_entry v sp ec m"
  shows "words_at (m_mem m') (m_regs m' RSP + 8 * of_nat 1) 22 = map (m_regs m) saved_regs @ [of_nat v, error_word ec] @ hw_frame m"
    and "m_regs m' RSP = (sp AND NOT 15) - 16 * 12 + 8" and "m_regs m' RDI = m_regs m' RSP + 128"
proof -
  obtain ws where ws: "unbound_isr ! v = map PushImm ws" "rev ws @ rev ec = [of_nat v, error_word ec]" "length ws + length ec = 2"
    by (rule unbound_isr_words [OF assms(1,2)])
  have lens: "length ec < 2" "length ws < 3" using ws(3) assms(2) by (auto simp: error_code_ok_def split: if_splits)
  define q where "q = exec (map Push (rev saved_regs)) (exec (map PushImm ws) (deliver sp ec m))"
  have n: "20 + length ec + length ws = 22" using ws(3) by simp
  note q = pushes_after_deliver [OF lens, of sp m, folded q_def, unfolded n]
  have m': "m' = exec [Lea RDI RSP 120, SubImm RSP 8] q"
    by (simp only: m'_def exception_entry_def exception_save_pushes exec_append ws(1) q_def)
  have rsp: "m_regs m' RSP = m_regs q RSP - 8" "m_mem m' = m_mem q" "m_regs m' RDI = m_regs q RSP + 120" by (simp_all add: m')
  show "m_regs m' RSP = (sp AND NOT 15) - 16 * 12 + 8" unfolding rsp q(1) by simp
  show "m_regs m' RDI = m_regs m' RSP + 128" unfolding rsp by simp
  have "m_regs m' RSP + 8 * of_nat 1 = m_regs q RSP" unfolding rsp by simp
  then show "words_at (m_mem m') (m_regs m' RSP + 8 * of_nat 1) 22 = map (m_regs m) saved_regs @ [of_nat v, error_word ec] @ hw_frame m"
    using q(2) unfolding rsp(2) append_assoc [symmetric] ws(2) [symmetric] by simp
qed

text \<open>
  Every exception reaches its handler with an exact \<open>InterruptFrame\<close>: for each of the 32 vectors, on any stack,
  \<open>RDI\<close> points to the vector, the error code the processor pushed (0 where it pushes none), and the interrupted
  \<open>RIP\<close>, \<open>CS\<close> and \<open>RFLAGS\<close>, and all general registers are saved below it.  But the handler is called with a stack
  pointer that is 8 modulo 16: the padding word that should align the stack misaligns it.
\<close>

theorem exception_handler_frame:
  assumes "v < 32" and "error_code_ok v ec"
  shows "let m' = exception_entry v sp ec m in
    interrupt_frame_at (m_mem m') (m_regs m' RDI)
      = \<lparr>vector = of_nat v, error_code = error_word ec, frame_rip = m_rip m, frame_cs = m_cs m, frame_rflags = m_rflags m\<rparr>
    \<and> words_at (m_mem m') (m_regs m' RSP + 8) 15 = map (m_regs m) saved_regs
    \<and> m_regs m' RSP AND 15 = 8"
proof -
  define m' where "m' = exception_entry v sp ec m"
  note st = exception_entry_state [OF assms, of sp m, folded m'_def]
  have w: "words_at (m_mem m') (m_regs m' RSP + 8) (15 + 7) = map (m_regs m) saved_regs @ [of_nat v, error_word ec] @ hw_frame m"
    using st(1) by simp
  then have "words_at (m_mem m') (m_regs m' RSP + 8) 15 = map (m_regs m) saved_regs
      \<and> words_at (m_mem m') (m_regs m' RSP + 8 + 8 * of_nat 15) 7 = [of_nat v, error_word ec] @ hw_frame m"
    unfolding words_at_append by (subst (asm) append_eq_append_conv) (simp_all add: saved_regs_facts)
  moreover have "m_regs m' RSP + 8 + 8 * of_nat 15 = m_regs m' RDI" unfolding st(3) by simp
  ultimately have "words_at (m_mem m') (m_regs m' RSP + 8) 15 = map (m_regs m) saved_regs"
      "words_at (m_mem m') (m_regs m' RDI) 7 = [of_nat v, error_word ec] @ hw_frame m" by simp_all
  moreover from this(2) have "interrupt_frame_at (m_mem m') (m_regs m' RDI)
      = \<lparr>vector = of_nat v, error_code = error_word ec, frame_rip = m_rip m, frame_cs = m_cs m, frame_rflags = m_rflags m\<rparr>"
    by (simp add: interrupt_frame_at_def hw_frame_def eval_nat_numeral algebra_simps)
  moreover have "m_regs m' RSP AND 15 = 8" unfolding st(2) by (rule aligned_sub)
  ultimately show ?thesis by (simp only: m'_def [symmetric] Let_def simp_thms)
qed

theorem exception_handler_frame_witness:
  "error_code_ok 14 [2] \<and>
   error_code (interrupt_frame_at (m_mem (exception_entry 14 0x9000 [2] example_machine))
     (m_regs (exception_entry 14 0x9000 [2] example_machine) RDI)) = 2"
  using exception_handler_frame [of 14 "[2]" "0x9000" example_machine]
  by (simp add: error_code_ok_def error_word_def Let_def)

text \<open>
  C22.  Returning from an exception does not work.  The exit path drops only the vector and leaves the error code on
  the stack, so \<open>iretq\<close> reads everything one word too low: execution continues at the address given by the error
  code, with the interrupted \<open>RIP\<close> as \<open>CS\<close>, \<open>CS\<close> as \<open>RFLAGS\<close>, \<open>RFLAGS\<close> as stack pointer and \<open>RSP\<close> as \<open>SS\<close>,
  for every handler that keeps to the calling convention.
\<close>

theorem exception_return_misreads_frame:
  assumes "v < 32" and "error_code_ok v ec" and "sysv 24 handler"
  shows "cpu_frame (unbound_exception_common ra handler (exception_entry v sp ec m))
    = map (m_regs m) saved_regs @ [error_word ec, m_rip m, m_cs m, m_rflags m, m_regs m RSP]"
proof -
  define m1 where "m1 = exception_entry v sp ec m"
  define m2 where "m2 = exec [AddImm RSP 8] (call_fn ra handler m1)"
  note st = exception_entry_state [OF assms(1,2), of sp m, folded m1_def]
  have code: "exception_restore_code = [AddImm RSP 8] @ resume_code 8"
    by (simp add: exception_restore_code_def resume_code_def saved_regs_def)
  have rsp: "m_regs m2 RSP = m_regs m1 RSP + 8 * of_nat 1"
    using call_fn_regs [OF assms(3), of RSP ra m1] by (simp add: m2_def callee_saved_def)
  have "words_at (m_mem m2) (m_regs m2 RSP) 22 = words_at (m_mem m1) (m_regs m1 RSP + 8 * of_nat 1) 22"
    unfolding rsp using call_fn_words [OF assms(3), of 1 22 ra m1] by (simp add: m2_def)
  then have w: "words_at (m_mem m2) (m_regs m2 RSP) (15 + (1 + (5 + 1)))
      = map (m_regs m) saved_regs @ [of_nat v] @ [error_word ec, m_rip m, m_cs m, m_rflags m, m_regs m RSP] @ [m_ss m]"
    using st(1) by (simp add: hw_frame_def)
  have "words_at (m_mem m2) (m_regs m2 RSP) 15 = map (m_regs m) saved_regs"
    "words_at (m_mem m2) (m_regs m2 RSP + 120 + 8) 5 = [error_word ec, m_rip m, m_cs m, m_rflags m, m_regs m RSP]"
    using w unfolding words_at_append by (simp_all add: saved_regs_facts append_eq_append_conv algebra_simps)
  then show ?thesis
    unfolding unbound_exception_common_def m1_def [symmetric] code exec_append m2_def [symmetric] resume_frame by simp
qed

text \<open>A handler that does nothing keeps to the convention.\<close>

lemma sysv_id: "sysv n (\<lambda>m. m)"
  by (simp add: sysv_def)

theorem exception_return_misreads_frame_witness:
  "m_rip (unbound_exception_common 0x100100 (\<lambda>m. m) (exception_entry 3 0x9000 [] example_machine)) = 0"
proof -
  have v3: "(3 :: nat) < 32" and ec: "error_code_ok 3 []" by (simp_all add: error_code_ok_def)
  have "cpu_frame (unbound_exception_common 0x100100 (\<lambda>m. m) (exception_entry 3 0x9000 [] example_machine)) ! 15 = 0"
    unfolding exception_return_misreads_frame [OF v3 ec sysv_id]
    by (simp add: saved_regs_def error_word_def)
  then show ?thesis by (simp add: cpu_frame_def saved_regs_def hw_frame_def)
qed

section \<open>The timer interrupt saves and resumes contexts\<close>

lemma irq0_save_pushes:
  "irq0_save_code = map PushImm [32] @ map Push (rev saved_regs) @ [Mov RDI RSP, Mov R12 RSP, AndImm RSP (NOT 15)]"
  by (simp add: irq0_save_code_def saved_regs_def)

lemma irq_restore_resume: "irq_restore_code = resume_code 8"
  by (simp add: irq_restore_code_def resume_code_def saved_regs_def)

text \<open>The frame an interrupt leaves on the stack: the registers, the vector and the words the processor pushed.\<close>

definition irq_frame :: "machine \<Rightarrow> u64 list" where
  "irq_frame m = map (m_regs m) saved_regs @ 32 # hw_frame m"

lemma irq0_entry_state:
  fixes m :: machine and sp :: u64
  defines "m' \<equiv> irq0_entry sp m"
  shows "words_at (m_mem m') (m_regs m' RDI) 21 = irq_frame m"
    and "m_regs m' R12 = m_regs m' RDI" and "m_regs m' RDI = m_regs m' RSP + 8 * of_nat 1" and "m_regs m' RSP AND 15 = 0"
    and "m_regs m' RSP = (sp AND NOT 15) - 16 * 11" and "m_mem m' = pushed (rev (irq_frame m)) (sp AND NOT 15) (m_mem m)"
proof -
  define q where "q = exec (map Push (rev saved_regs)) (exec (map PushImm [32]) (deliver sp [] m))"
  have len: "length ([] :: u64 list) < 2" "length [32 :: u64] < 3" by simp_all
  have q: "m_regs q = (m_regs m)(RSP := (sp AND NOT 15) - 8 * of_nat 21)"
    "words_at (m_mem q) (m_regs q RSP) 21 = irq_frame m"
    "m_mem q = pushed (rev (irq_frame m)) (sp AND NOT 15) (m_mem m)"
    using pushes_after_deliver [OF len, of sp m, folded q_def] by (simp_all add: irq_frame_def rev_map)
  have m': "m' = exec [Mov RDI RSP, Mov R12 RSP, AndImm RSP (NOT 15)] q"
    by (simp only: m'_def irq0_entry_def irq0_save_pushes exec_append q_def)
  have r: "m_regs m' RDI = m_regs q RSP" "m_regs m' R12 = m_regs q RSP" "m_regs m' RSP = m_regs q RSP AND NOT 15" "m_mem m' = m_mem q"
    by (simp_all add: m')
  have rsp: "m_regs q RSP = (sp AND NOT 15) - 16 * 11 + 8" unfolding q(1) by simp
  show al: "m_regs m' RSP = (sp AND NOT 15) - 16 * 11" unfolding r(3) rsp by (rule aligned_sub)
  show "words_at (m_mem m') (m_regs m' RDI) 21 = irq_frame m" unfolding r q(2) ..
  show "m_mem m' = pushed (rev (irq_frame m)) (sp AND NOT 15) (m_mem m)" unfolding r q(3) ..
  show "m_regs m' R12 = m_regs m' RDI" unfolding r ..
  show "m_regs m' RDI = m_regs m' RSP + 8 * of_nat 1" unfolding al r(1) rsp by simp
  show "m_regs m' RSP AND 15 = 0" unfolding r(3) by (simp add: and.assoc)
qed

text \<open>Which frame is selected, and that the debug call in between leaves it alone.\<close>

lemma select_context_state:
  "m_regs (select_context m) RSP = (if m_regs m RAX = 0 then m_regs m R12 else m_regs m RAX)" "m_mem (select_context m) = m_mem m"
  by (simp_all add: select_context_def Let_def)

lemma irq_common_resumes:
  fixes m timer_handler ra1
  defines "m1 \<equiv> call_fn ra1 timer_handler m"
  defines "p \<equiv> if m_regs m1 RAX = 0 then m_regs m1 R12 else m_regs m1 RAX"
  assumes debug: "sysv 23 debug" and frame: "words_at (m_mem m1) p 21 = irq_frame m0"
  shows "cpu_frame (unbound_irq_common ra1 timer_handler ra2 debug m) = cpu_frame m0"
proof -
  define s where "s = select_context m1"
  define m2 where "m2 = call_fn ra2 debug s"
  have s: "m_regs s RSP = p" "m_mem s = m_mem m1" by (simp_all only: s_def select_context_state p_def)
  have rsp: "m_regs m2 RSP = p" using call_fn_regs [OF debug, of RSP ra2 s] s(1) by (simp add: m2_def callee_saved_def)
  have "words_at (m_mem m2) p 21 = words_at (m_mem m1) p 21"
    using call_fn_words [OF debug, of 0 21 ra2 s] by (simp add: s m2_def)
  then have "words_at (m_mem m2) p (15 + (1 + 5)) = map (m_regs m0) saved_regs @ [32] @ hw_frame m0"
    using frame by (simp add: irq_frame_def)
  then have "words_at (m_mem m2) p 15 = map (m_regs m0) saved_regs" "words_at (m_mem m2) (p + 120 + 8) 5 = hw_frame m0"
    unfolding words_at_append by (simp_all add: saved_regs_facts append_eq_append_conv algebra_simps)
  then show ?thesis
    unfolding unbound_irq_common_def m1_def [symmetric] s_def [symmetric] m2_def [symmetric] irq_restore_resume resume_frame rsp
    by (simp add: cpu_frame_def)
qed

text \<open>
  C21.  A timer interrupt is transparent to the code it interrupts: when the handler keeps the current task, by returning
  0 or the frame it was given, every register, the stack pointer, \<open>RIP\<close>, \<open>RFLAGS\<close> and the selectors are those of the
  interrupted instruction, whatever else the handler and the debug routine change within the calling convention.
\<close>

theorem irq0_transparent:
  assumes "sysv 24 timer_handler" and "sysv 23 debug"
    and "m_regs (call_fn ra1 timer_handler (irq0_entry sp m)) RAX \<in> {0, m_regs (irq0_entry sp m) RDI}"
  shows "cpu_frame (unbound_irq_common ra1 timer_handler ra2 debug (irq0_entry sp m)) = cpu_frame m"
proof (rule irq_common_resumes [OF assms(2)])
  let ?e = "irq0_entry sp m" let ?m1 = "call_fn ra1 timer_handler ?e"
  note st = irq0_entry_state [where sp = sp and m = m]
  have "m_regs ?m1 R12 = m_regs ?e RDI" using call_fn_regs [OF assms(1), of R12 ra1 ?e] st(2) by (simp add: callee_saved_def)
  then have p: "(if m_regs ?m1 RAX = 0 then m_regs ?m1 R12 else m_regs ?m1 RAX) = m_regs ?e RDI" using assms(3) by auto
  show "words_at (m_mem ?m1) (if m_regs ?m1 RAX = 0 then m_regs ?m1 R12 else m_regs ?m1 RAX) 21 = irq_frame m"
    unfolding p using call_fn_words [OF assms(1), of 1 21 ra1 ?e] st(1) unfolding st(3) [symmetric] by simp
qed

theorem irq0_transparent_witness:
  "cpu_frame (unbound_irq_common 0x100200 (set_reg RAX 0) 0x100210 (\<lambda>m. m) (irq0_entry 0x3000 example_machine)) = cpu_frame example_machine"
  by (rule irq0_transparent [OF _ sysv_id]) (simp_all add: sysv_def callee_saved_def call_fn_def Let_def)

text \<open>
  C20.  Preemption is exact.  A task interrupted in state \<open>mA\<close> leaves its frame where \<open>RDI\<close> points.  When a later
  interrupt of any other code returns that frame, and the frame's words are still in memory, the task continues
  with every register, the stack pointer, \<open>RIP\<close>, \<open>RFLAGS\<close> and the selectors it had when it was interrupted.
\<close>

theorem irq0_preemption_roundtrip:
  assumes "sysv 23 debug"
    and "pA = m_regs (irq0_entry spA mA) RDI" and "pA \<noteq> 0"
    and "m_regs (call_fn ra1 timer_handler (irq0_entry spB mB)) RAX = pA"
    and "words_at (m_mem (call_fn ra1 timer_handler (irq0_entry spB mB))) pA 21 = words_at (m_mem (irq0_entry spA mA)) pA 21"
  shows "cpu_frame (unbound_irq_common ra1 timer_handler ra2 debug (irq0_entry spB mB)) = cpu_frame mA"
  by (rule irq_common_resumes [OF assms(1)]) (use assms(2-5) irq0_entry_state(1) in simp)

text \<open>Another machine, interrupted while the frame of the example machine is in memory.\<close>

definition second_machine :: machine where
  "second_machine = example_machine\<lparr>m_rip := 0x180000, m_mem := m_mem (irq0_entry 0x3000 example_machine)\<rparr>"

theorem irq0_preemption_roundtrip_witness:
  "cpu_frame (unbound_irq_common 0x100200 (set_reg RAX 0x2F58) 0x100210 (\<lambda>m. m) (irq0_entry 0x9000 second_machine)) = cpu_frame example_machine"
proof (rule irq0_preemption_roundtrip [OF sysv_id, where spA = "0x3000" and pA = "0x2F58"])
  let ?e = "irq0_entry 0x9000 second_machine"
  show "0x2F58 = m_regs (irq0_entry 0x3000 example_machine) RDI" unfolding irq0_entry_state(3,5) by simp
  show "m_regs (call_fn 0x100200 (set_reg RAX 0x2F58) ?e) RAX = 0x2F58" by (simp add: call_fn_def Let_def)
  have rsp: "m_regs ?e RSP = 0x8F50" unfolding irq0_entry_state(5) by simp
  have "m_mem ?e (0x2F58 + 8 * of_nat i) = m_mem second_machine (0x2F58 + 8 * of_nat i)" if "i < 21" for i
  proof -
    have "unat (0x2F58 + 8 * of_nat i :: u64) = 0x2F58 + 8 * i" using that by (simp add: unat_word_ariths unat_of_nat)
    then show ?thesis unfolding irq0_entry_state(6)
      by (intro pushed_out) (use that in \<open>simp_all add: irq_frame_def hw_frame_def saved_regs_facts\<close>)
  qed
  moreover have "m_mem (call_fn 0x100200 (set_reg RAX 0x2F58) ?e) a = m_mem ?e a" if "a \<noteq> 0x8F48" for a
    using that by (simp add: call_fn_def Let_def rsp)
  moreover have "(0x2F58 + 8 * of_nat i :: u64) \<noteq> 0x8F48" if "i < 21" for i
    using that by (simp add: word_unat_eq_iff unat_word_ariths unat_of_nat)
  ultimately show "words_at (m_mem (call_fn 0x100200 (set_reg RAX 0x2F58) ?e)) 0x2F58 21
      = words_at (m_mem (irq0_entry 0x3000 example_machine)) 0x2F58 21"
    by (intro words_at_cong) (simp add: second_machine_def)
qed simp

end
