(* ===== verification/Console.thy ===== *)
theory Console
  imports Serial
begin

text \<open>
  Code of the kernel that prints its progress and may stop.  Such code is a function of a state that returns
  the text it printed and an outcome: it returns a value, it halts the processor for good (\<open>halt\<close>), or it
  panics.  Both of the latter keep the state they stopped in and let nothing after them run.

  \<open>kblock\<close> is a sequence of statements, \<open>kbind\<close> a \<open>let\<close> whose right-hand side has effects, and
  \<open>pass_or_halt\<close> the checks of the boot code that print \<open>PASS\<close>, or \<open>FAIL\<close> and halt.
\<close>

section \<open>Statements\<close>

datatype ('s, 'a) outcome = Returned 'a 's | Halted 's | Panicked 's

type_synonym ('s, 'a) kernel = "'s \<Rightarrow> string \<times> ('s, 'a) outcome"

definition kret :: "'a \<Rightarrow> ('s, 'a) kernel" where
  "kret a s = ([], Returned a s)"

definition kbind :: "('s, 'a) kernel \<Rightarrow> ('a \<Rightarrow> ('s, 'b) kernel) \<Rightarrow> ('s, 'b) kernel" where
  "kbind m f s = (case m s of
     (t, Returned a s') \<Rightarrow> (case f a s' of (t', r) \<Rightarrow> (t @ t', r))
   | (t, Halted s') \<Rightarrow> (t, Halted s')
   | (t, Panicked s') \<Rightarrow> (t, Panicked s'))"

fun kblock :: "('s, unit) kernel list \<Rightarrow> ('s, unit) kernel" where
  "kblock [] = kret ()"
| "kblock (m # ms) = kbind m (\<lambda>_. kblock ms)"

definition kget :: "('s \<Rightarrow> 'a) \<Rightarrow> ('s, 'a) kernel" where
  "kget f s = ([], Returned (f s) s)"

definition kmodify :: "('s \<Rightarrow> 's) \<Rightarrow> ('s, unit) kernel" where
  "kmodify f s = ([], Returned () (f s))"

definition khalt :: "('s, 'a) kernel" where
  "khalt s = ([], Halted s)"

definition kstate :: "('s \<Rightarrow> 'a \<times> 's) \<Rightarrow> ('s, 'a) kernel" where
  "kstate f s = (case f s of (a, s') \<Rightarrow> ([], Returned a s'))"

text \<open>Code that may panic and changes the state.\<close>

definition krun :: "('s \<Rightarrow> ('a \<times> 's) run) \<Rightarrow> ('s, 'a) kernel" where
  "krun f s = (case f s of None \<Rightarrow> ([], Panicked s) | Some (a, s') \<Rightarrow> ([], Returned a s'))"

definition say :: "string \<Rightarrow> ('s, unit) kernel" where
  "say t s = (t, Returned () s)"

definition say_run :: "string run \<Rightarrow> ('s, unit) kernel" where
  "say_run t s = (case t of None \<Rightarrow> ([], Panicked s) | Some t \<Rightarrow> (t, Returned () s))"

text \<open>A line of text, and a line with a number after it.\<close>

definition sayln :: "string \<Rightarrow> ('s, unit) kernel" where
  "sayln t = say (t @ crlf)"

definition say_hex8 :: "u8 \<Rightarrow> ('s, unit) kernel" where
  "say_hex8 v = say_run (serial_write_hex8 v)"

definition say_hex32 :: "u32 \<Rightarrow> ('s, unit) kernel" where
  "say_hex32 v = say_run (serial_write_hex32 v)"

definition say_hex64 :: "u64 \<Rightarrow> ('s, unit) kernel" where
  "say_hex64 v = say_run (serial_write_hex64 v)"

definition line_hex32 :: "string \<Rightarrow> u32 \<Rightarrow> ('s, unit) kernel" where
  "line_hex32 t v = kblock [say t, say_hex32 v, say crlf]"

definition line_hex64 :: "string \<Rightarrow> u64 \<Rightarrow> ('s, unit) kernel" where
  "line_hex64 t v = kblock [say t, say_hex64 v, say crlf]"

definition pass_or_fail :: "bool \<Rightarrow> ('s, unit) kernel" where
  "pass_or_fail ok = (if ok then sayln ''PASS'' else sayln ''FAIL'')"

definition pass_or_halt :: "bool \<Rightarrow> ('s, unit) kernel" where
  "pass_or_halt ok = (if ok then sayln ''PASS'' else kblock [sayln ''FAIL'', khalt])"

text \<open>A loop over a list of values.\<close>

fun kfor :: "'a list \<Rightarrow> ('a \<Rightarrow> ('s, unit) kernel) \<Rightarrow> ('s, unit) kernel" where
  "kfor [] f = kret ()"
| "kfor (x # xs) f = kbind (f x) (\<lambda>_. kfor xs f)"

section \<open>Outcomes\<close>

definition outcome_of :: "('s, 'a) kernel \<Rightarrow> 's \<Rightarrow> ('s, 'a) outcome" where
  "outcome_of m s = snd (m s)"

definition printed :: "('s, 'a) kernel \<Rightarrow> 's \<Rightarrow> string" where
  "printed m s = fst (m s)"

named_theorems outcome_simps
named_theorems printed_simps

lemma hex_runs: "serial_write_hex8 v8 = ret (hex_digits v8 2)" "serial_write_hex32 v32 = ret (hex_digits v32 8)"
  "serial_write_hex64 v64 = ret (hex_digits v64 16)"
  by (simp_all only: serial_write_hex8_digits serial_write_hex_digits)

lemma outcome_basic [outcome_simps]:
  "outcome_of (kret a) s = Returned a s" "outcome_of (kget g) s = Returned (g s) s" "outcome_of (kmodify f) s = Returned () (f s)"
  "outcome_of khalt s = Halted s" "outcome_of (say t) s = Returned () s" "outcome_of (sayln t) s = Returned () s"
  "outcome_of (say_hex8 v8) s = Returned () s" "outcome_of (say_hex32 v32) s = Returned () s" "outcome_of (say_hex64 v64) s = Returned () s"
  by (simp_all add: outcome_of_def kret_def kget_def kmodify_def khalt_def say_def sayln_def say_hex8_def say_hex32_def
      say_hex64_def say_run_def hex_runs)

lemma outcome_kbind [outcome_simps]:
  "outcome_of (kbind m f) s = (case outcome_of m s of Returned a s' \<Rightarrow> outcome_of (f a) s' | Halted s' \<Rightarrow> Halted s' | Panicked s' \<Rightarrow> Panicked s')"
  by (simp add: outcome_of_def kbind_def split: prod.splits outcome.splits)

lemma outcome_krun [outcome_simps]:
  "outcome_of (krun f) s = (case f s of None \<Rightarrow> Panicked s | Some (a, s') \<Rightarrow> Returned a s')"
  by (simp add: outcome_of_def krun_def split: prod.splits option.splits)

lemma outcome_kstate [outcome_simps]: "outcome_of (kstate f) s = (case f s of (a, s') \<Rightarrow> Returned a s')"
  by (simp add: outcome_of_def kstate_def split: prod.splits)

lemma outcome_say_run [outcome_simps]:
  "outcome_of (say_run t) s = (case t of None \<Rightarrow> Panicked s | Some _ \<Rightarrow> Returned () s)"
  by (simp add: outcome_of_def say_run_def split: option.splits)

lemma outcome_kblock [outcome_simps]:
  "outcome_of (kblock []) s = Returned () s"
  "outcome_of (kblock (m # ms)) s
    = (case outcome_of m s of Returned _ s' \<Rightarrow> outcome_of (kblock ms) s' | Halted s' \<Rightarrow> Halted s' | Panicked s' \<Rightarrow> Panicked s')"
  by (simp_all add: outcome_simps)

lemma outcome_lines [outcome_simps]:
  "outcome_of (line_hex32 t v32) s = Returned () s" "outcome_of (line_hex64 t v64) s = Returned () s"
  "outcome_of (pass_or_fail ok) s = Returned () s"
  "outcome_of (pass_or_halt ok) s = (if ok then Returned () s else Halted s)"
  by (simp_all add: line_hex32_def line_hex64_def pass_or_fail_def pass_or_halt_def outcome_simps)

lemma outcome_kfor [outcome_simps]:
  "outcome_of (kfor [] f) s = Returned () s"
  "outcome_of (kfor (x # xs) f) s
    = (case outcome_of (f x) s of Returned _ s' \<Rightarrow> outcome_of (kfor xs f) s' | Halted s' \<Rightarrow> Halted s' | Panicked s' \<Rightarrow> Panicked s')"
  by (simp_all add: outcome_simps)

lemma outcome_kfor_says:
  assumes "\<And>x. x \<in> set xs \<Longrightarrow> outcome_of (f x) s = Returned () s"
  shows "outcome_of (kfor xs f) s = Returned () s"
  using assms by (induction xs) (simp_all add: outcome_simps)

declare kblock.simps [simp del] kfor.simps [simp del]

lemma outcome_if: "outcome_of (if c then a else b) s = (if c then outcome_of a s else outcome_of b s)"
  by simp

text \<open>The text of a sequence stops where the sequence stops.\<close>

lemma printed_basic [printed_simps]:
  "printed (kret a) s = []" "printed (kget g) s = []" "printed (kmodify f) s = []" "printed khalt s = []"
  "printed (say t) s = t" "printed (sayln t) s = t @ crlf"
  "printed (say_hex8 v8) s = hex_digits v8 2" "printed (say_hex32 v32) s = hex_digits v32 8" "printed (say_hex64 v64) s = hex_digits v64 16"
  by (simp_all add: printed_def kret_def kget_def kmodify_def khalt_def say_def sayln_def say_hex8_def say_hex32_def
      say_hex64_def say_run_def hex_runs)

lemma printed_kbind [printed_simps]:
  "printed (kbind m f) s = printed m s @ (case outcome_of m s of Returned a s' \<Rightarrow> printed (f a) s' | _ \<Rightarrow> [])"
  by (simp add: outcome_of_def printed_def kbind_def split: prod.splits outcome.splits)

lemma printed_kblock [printed_simps]:
  "printed (kblock []) s = []"
  "printed (kblock (m # ms)) s = printed m s @ (case outcome_of m s of Returned _ s' \<Rightarrow> printed (kblock ms) s' | _ \<Rightarrow> [])"
  by (simp_all add: printed_simps kblock.simps)

end
