(* ===== verification/Descriptors.thy ===== *)
theory Descriptors
  imports Console
begin

text \<open>
  Segment and interrupt descriptor tables (\<open>arch/x86_64/gdt.rs\<close>, \<open>tss.rs\<close> and the tables of \<open>idt.rs\<close>).

  The static tables and the registers that point to them are the record \<open>cpu_tables\<close>; the operations work on
  every extension of it.  The addresses the linker gives to the statics and the entry points are the record
  \<open>Addresses\<close>.  Functions named alike in the three files carry the file's name as a prefix.
\<close>

section \<open>State\<close>

record DescriptorTablePointer =
  dtp_limit :: u16
  dtp_base :: u64

record TaskStateSegment =
  tss_reserved1 :: u32
  tss_rsp0 :: u64
  tss_rsp1 :: u64
  tss_rsp2 :: u64
  tss_reserved2 :: u64
  tss_ist1 :: u64
  tss_ist2 :: u64
  tss_ist3 :: u64
  tss_ist4 :: u64
  tss_ist5 :: u64
  tss_ist6 :: u64
  tss_ist7 :: u64
  tss_reserved3 :: u64
  tss_reserved4 :: u16
  tss_iomap_base :: u16

record IdtEntry =
  offset_low :: u16
  selector :: u16
  ist :: u8
  attributes :: u8
  offset_mid :: u16
  offset_high :: u32
  reserved :: u32

record cpu_tables =
  GDT :: "u64 list"
  TSS :: TaskStateSegment
  IDT :: "IdtEntry list"
  gdtr :: DescriptorTablePointer
  idtr :: DescriptorTablePointer
  task_reg :: u16
  seg_cs :: u16
  seg_ds :: u16
  seg_es :: u16
  seg_ss :: u16

record Addresses =
  gdt_addr :: u64
  tss_addr :: u64
  idt_addr :: u64
  double_fault_stack_addr :: u64
  ring3_kernel_stack_addr :: u64
  isr_addr :: "nat \<Rightarrow> u64"
  irq0_addr :: u64
  syscall_stack_addr :: u64
  syscall_entry_addr :: u64
  user_entry_addr :: u64
  user_stack_addr :: u64

section \<open>The task state segment\<close>

definition DOUBLE_FAULT_STACK_SIZE :: u64 where
  "DOUBLE_FAULT_STACK_SIZE = 4096 * 4"

definition RING3_KERNEL_STACK_SIZE :: u64 where
  "RING3_KERNEL_STACK_SIZE = 16 * 1024"

text \<open>The packed size of the fields.\<close>

definition TSS_SIZE :: usize where
  "TSS_SIZE = 4 + 8 + 8 + 8 + 8 + 8 + 8 + 8 + 8 + 8 + 8 + 8 + 8 + 2 + 2"

definition TaskStateSegment_new :: TaskStateSegment where
  "TaskStateSegment_new = \<lparr>tss_reserved1 = 0, tss_rsp0 = 0, tss_rsp1 = 0, tss_rsp2 = 0, tss_reserved2 = 0,
     tss_ist1 = 0, tss_ist2 = 0, tss_ist3 = 0, tss_ist4 = 0, tss_ist5 = 0, tss_ist6 = 0, tss_ist7 = 0,
     tss_reserved3 = 0, tss_reserved4 = 0, tss_iomap_base = 0\<rparr>"

definition TaskStateSegment_init :: "Addresses \<Rightarrow> TaskStateSegment \<Rightarrow> TaskStateSegment run" where
  "TaskStateSegment_init L t = do {
     stack_end \<leftarrow> padd (double_fault_stack_addr L) DOUBLE_FAULT_STACK_SIZE;
     ret (t\<lparr>tss_ist1 := stack_end, tss_iomap_base := of_nat TSS_SIZE\<rparr>) }"

definition tss_init :: "Addresses \<Rightarrow> 'z cpu_tables_scheme \<Rightarrow> (unit \<times> 'z cpu_tables_scheme) run" where
  "tss_init L k = do { t \<leftarrow> TaskStateSegment_init L (TSS k); ret ((), k\<lparr>TSS := t\<rparr>) }"

definition ist1 :: "'z cpu_tables_scheme \<Rightarrow> u64" where
  "ist1 k = tss_ist1 (TSS k)"

definition ring3_kernel_stack_top :: "Addresses \<Rightarrow> u64 run" where
  "ring3_kernel_stack_top L = padd (ring3_kernel_stack_addr L) RING3_KERNEL_STACK_SIZE"

definition tss_set_rsp0 :: "u64 \<Rightarrow> 'z cpu_tables_scheme \<Rightarrow> 'z cpu_tables_scheme" where
  "tss_set_rsp0 stack_top k = k\<lparr>TSS := (TSS k)\<lparr>tss_rsp0 := stack_top\<rparr>\<rparr>"

definition rsp0 :: "'z cpu_tables_scheme \<Rightarrow> u64" where
  "rsp0 k = tss_rsp0 (TSS k)"

section \<open>The global descriptor table\<close>

definition KERNEL_CODE_SELECTOR :: u16 where "KERNEL_CODE_SELECTOR = 0x08"
definition KERNEL_DATA_SELECTOR :: u16 where "KERNEL_DATA_SELECTOR = 0x10"
definition TSS_SELECTOR :: u16 where "TSS_SELECTOR = 0x18"
definition USER_DATA_SELECTOR :: u16 where "USER_DATA_SELECTOR = 0x28"
definition USER_CODE_SELECTOR :: u16 where "USER_CODE_SELECTOR = 0x30"
definition USER_DATA_SELECTOR_R3 :: u16 where "USER_DATA_SELECTOR_R3 = USER_DATA_SELECTOR OR 0x03"
definition USER_CODE_SELECTOR_R3 :: u16 where "USER_CODE_SELECTOR_R3 = USER_CODE_SELECTOR OR 0x03"

definition GDT_NULL :: u64 where "GDT_NULL = 0"
definition GDT_KERNEL_CODE :: u64 where "GDT_KERNEL_CODE = 0x00AF9A000000FFFF"
definition GDT_KERNEL_DATA :: u64 where "GDT_KERNEL_DATA = 0x00CF92000000FFFF"
definition GDT_USER_DATA :: u64 where "GDT_USER_DATA = 0x00CFF2000000FFFF"
definition GDT_USER_CODE :: u64 where "GDT_USER_CODE = 0x00AFFA000000FFFF"

definition GDT_SIZE :: u64 where
  "GDT_SIZE = 7 * 8"

definition GlobalDescriptorTable_new :: "u64 list" where
  "GlobalDescriptorTable_new = [GDT_NULL, GDT_KERNEL_CODE, GDT_KERNEL_DATA, 0, 0, GDT_USER_DATA, GDT_USER_CODE]"

definition tss_descriptor_low :: "u64 \<Rightarrow> u32 \<Rightarrow> u64" where
  "tss_descriptor_low b limit =
     (let low = 0;
          low = low OR (ucast limit AND 0xFFFF);
          low = low OR push_bit 16 (b AND 0xFFFF);
          low = low OR push_bit 32 (drop_bit 16 b AND 0xFF);
          low = low OR push_bit 40 0x89;
          low = low OR push_bit 48 (drop_bit 16 (ucast limit) AND 0x0F)
      in low OR push_bit 56 (drop_bit 24 b AND 0xFF))"

definition install_tss :: "Addresses \<Rightarrow> u64 list \<Rightarrow> u64 list run" where
  "install_tss L entries = do {
     let b = tss_addr L;
     size \<leftarrow> usize_sub TSS_SIZE 1;
     let limit = of_nat size;
     let low = tss_descriptor_low b limit;
     let high = drop_bit 32 b AND 0xFFFFFFFF;
     entries \<leftarrow> arr_set entries 3 low;
     arr_set entries 4 high }"

definition gdt_pointer :: "Addresses \<Rightarrow> DescriptorTablePointer" where
  "gdt_pointer L = \<lparr>dtp_limit = ucast (GDT_SIZE - 1), dtp_base = gdt_addr L\<rparr>"

text \<open>\<open>unbound_reload_segments\<close>: a far return loads \<open>CS\<close>, moves load the data segments.\<close>

definition unbound_reload_segments :: "'z cpu_tables_scheme \<Rightarrow> 'z cpu_tables_scheme" where
  "unbound_reload_segments k = k\<lparr>seg_cs := 0x08, seg_ds := 0x10, seg_es := 0x10, seg_ss := 0x10\<rparr>"

definition load_task_register :: "u16 \<Rightarrow> 'z cpu_tables_scheme \<Rightarrow> 'z cpu_tables_scheme" where
  "load_task_register sel k = k\<lparr>task_reg := sel\<rparr>"

definition task_register :: "'z cpu_tables_scheme \<Rightarrow> u16" where
  "task_register k = task_reg k"

text \<open>Setting one entry of the static table, and printing all seven.\<close>

definition gdt_set :: "usize \<Rightarrow> u64 \<Rightarrow> ('z cpu_tables_scheme, unit) kernel" where
  "gdt_set i v = krun (\<lambda>k. do { g \<leftarrow> arr_set (GDT k) i v; ret ((), k\<lparr>GDT := g\<rparr>) })"

definition print_gdt_entry :: "string \<Rightarrow> usize \<Rightarrow> ('z cpu_tables_scheme, unit) kernel" where
  "print_gdt_entry label i = kbind (krun (\<lambda>k. do { e \<leftarrow> arr_get (GDT k) i; ret (e, k) })) (\<lambda>e. line_hex64 label e)"

definition print_gdt :: "('z cpu_tables_scheme, unit) kernel" where
  "print_gdt = kblock [
     print_gdt_entry ''GDT0: '' 0, print_gdt_entry ''GDT1: '' 1, print_gdt_entry ''GDT2: '' 2, print_gdt_entry ''GDT3: '' 3,
     print_gdt_entry ''GDT4: '' 4, print_gdt_entry ''GDT5: '' 5, print_gdt_entry ''GDT6: '' 6]"

definition gdt_init_entries :: "('z cpu_tables_scheme, unit) kernel" where
  "gdt_init_entries = kblock [
     gdt_set 0 GDT_NULL, gdt_set 1 GDT_KERNEL_CODE, gdt_set 2 GDT_KERNEL_DATA, gdt_set 3 0, gdt_set 4 0,
     gdt_set 5 GDT_USER_DATA, gdt_set 6 GDT_USER_CODE]"

definition gdt_init_tables :: "Addresses \<Rightarrow> ('z cpu_tables_scheme, unit) kernel" where
  "gdt_init_tables L = kblock [
     sayln ''GDT: TSS INIT'',
     line_hex64 ''GDT STATIC ADDRESS: '' (gdt_addr L),
     line_hex64 ''GDT SIZE: '' GDT_SIZE,
     kbind (krun (\<lambda>k. do { e \<leftarrow> padd (gdt_addr L) GDT_SIZE; ret (e, k) })) (line_hex64 ''GDT END: ''),
     gdt_init_entries,
     sayln ''GDT BEFORE TSS INIT:'',
     print_gdt,
     sayln ''GDT: TSS INIT EXECUTE'',
     krun (tss_init L),
     sayln ''GDT: TSS INIT COMPLETE'',
     line_hex64 ''TSS ADDRESS: '' (tss_addr L),
     line_hex64 ''TSS SIZE: '' (of_nat TSS_SIZE),
     kbind (krun (\<lambda>k. do { e \<leftarrow> padd (tss_addr L) (of_nat TSS_SIZE); ret (e, k) })) (line_hex64 ''TSS END: ''),
     kbind (kget ist1) (line_hex64 ''IST1 STACK: ''),
     sayln ''GDT: INSTALL TSS'',
     krun (\<lambda>k. do { g \<leftarrow> install_tss L (GDT k); ret ((), k\<lparr>GDT := g\<rparr>) }),
     sayln ''GDT AFTER INSTALL TSS:'',
     print_gdt]"

definition gdt_load :: "Addresses \<Rightarrow> ('z cpu_tables_scheme, unit) kernel" where
  "gdt_load L = kblock [
     sayln ''GDT: PREPARE GDTR'',
     line_hex64 ''GDT BASE: '' (dtp_base (gdt_pointer L)),
     line_hex64 ''GDT LIMIT: '' (ucast (dtp_limit (gdt_pointer L))),
     sayln ''GDT: EXECUTE LGDT'',
     kmodify (\<lambda>k. k\<lparr>gdtr := gdt_pointer L\<rparr>),
     sayln ''GDT: LGDT COMPLETE'',
     sayln ''GDT: RELOAD SEGMENTS'',
     kmodify unbound_reload_segments,
     sayln ''GDT: RELOAD SEGMENTS COMPLETE'',
     sayln ''GDT: LOAD TR'',
     kmodify (load_task_register TSS_SELECTOR),
     sayln ''GDT: LOAD TR COMPLETE'',
     sayln ''GDT: INIT COMPLETE'']"

definition gdt_init :: "Addresses \<Rightarrow> ('z cpu_tables_scheme, unit) kernel" where
  "gdt_init L = kblock [gdt_init_tables L, gdt_load L]"

definition read_gdtr :: "'z cpu_tables_scheme \<Rightarrow> DescriptorTablePointer" where
  "read_gdtr k = gdtr k"

definition gdt_verify :: "Addresses \<Rightarrow> 'z cpu_tables_scheme \<Rightarrow> bool" where
  "gdt_verify L k \<longleftrightarrow> (let actual = read_gdtr k in dtp_base actual = gdt_addr L \<and> dtp_limit actual = ucast (GDT_SIZE - 1))"

definition verify_task_register :: "'z cpu_tables_scheme \<Rightarrow> bool" where
  "verify_task_register k \<longleftrightarrow> task_register k = TSS_SELECTOR"

definition verify_user_segments :: "'z cpu_tables_scheme \<Rightarrow> bool run" where
  "verify_user_segments k = do {
     user_data \<leftarrow> arr_get (GDT k) 5;
     user_code \<leftarrow> arr_get (GDT k) 6;
     ret (user_data = GDT_USER_DATA \<and> user_code = GDT_USER_CODE) }"

definition gdt_current_base :: "'z cpu_tables_scheme \<Rightarrow> u64" where
  "gdt_current_base k = dtp_base (read_gdtr k)"

definition gdt_current_limit :: "'z cpu_tables_scheme \<Rightarrow> u16" where
  "gdt_current_limit k = dtp_limit (read_gdtr k)"

section \<open>The interrupt descriptor table\<close>

definition IDT_ENTRIES :: usize where "IDT_ENTRIES = 256"
definition idt_KERNEL_CODE_SELECTOR :: u16 where "idt_KERNEL_CODE_SELECTOR = 0x08"
definition INTERRUPT_GATE :: u8 where "INTERRUPT_GATE = 0x8E"

definition IdtEntry_missing :: IdtEntry where
  "IdtEntry_missing = \<lparr>offset_low = 0, selector = 0, ist = 0, attributes = 0, offset_mid = 0, offset_high = 0, reserved = 0\<rparr>"

definition IdtEntry_set_handler_with_ist :: "u64 \<Rightarrow> u8 \<Rightarrow> IdtEntry \<Rightarrow> IdtEntry" where
  "IdtEntry_set_handler_with_ist handler n e = e\<lparr>offset_low := ucast handler, selector := idt_KERNEL_CODE_SELECTOR,
     ist := n AND 0x07, attributes := INTERRUPT_GATE, offset_mid := ucast (drop_bit 16 handler),
     offset_high := ucast (drop_bit 32 handler), reserved := 0\<rparr>"

definition IdtEntry_set_handler :: "u64 \<Rightarrow> IdtEntry \<Rightarrow> IdtEntry" where
  "IdtEntry_set_handler handler e = IdtEntry_set_handler_with_ist handler 0 e"

definition InterruptDescriptorTable_new :: "IdtEntry list" where
  "InterruptDescriptorTable_new = replicate IDT_ENTRIES IdtEntry_missing"

definition idt_set_handler :: "usize \<Rightarrow> u64 \<Rightarrow> IdtEntry list \<Rightarrow> IdtEntry list run" where
  "idt_set_handler vec handler es = do { e \<leftarrow> arr_get es vec; arr_set es vec (IdtEntry_set_handler handler e) }"

definition idt_set_handler_with_ist :: "usize \<Rightarrow> u64 \<Rightarrow> u8 \<Rightarrow> IdtEntry list \<Rightarrow> IdtEntry list run" where
  "idt_set_handler_with_ist vec handler n es = do { e \<leftarrow> arr_get es vec; arr_set es vec (IdtEntry_set_handler_with_ist handler n e) }"

text \<open>The gates of a range of exceptions, in order.\<close>

fun idt_set_isrs :: "Addresses \<Rightarrow> nat list \<Rightarrow> IdtEntry list \<Rightarrow> IdtEntry list run" where
  "idt_set_isrs L [] es = ret es"
| "idt_set_isrs L (v # vs) es = do { es \<leftarrow> idt_set_handler v (isr_addr L v) es; idt_set_isrs L vs es }"

definition idt_init :: "Addresses \<Rightarrow> 'z cpu_tables_scheme \<Rightarrow> (unit \<times> 'z cpu_tables_scheme) run" where
  "idt_init L k = do {
     es \<leftarrow> idt_set_isrs L [0..<8] (IDT k);
     es \<leftarrow> idt_set_handler_with_ist 8 (isr_addr L 8) 1 es;
     es \<leftarrow> idt_set_isrs L [9..<32] es;
     es \<leftarrow> idt_set_handler 32 (irq0_addr L) es;
     ret ((), k\<lparr>IDT := es, idtr := \<lparr>dtp_limit = of_nat (IDT_ENTRIES * 16 - 1), dtp_base = idt_addr L\<rparr>\<rparr>) }"

definition read_idtr :: "'z cpu_tables_scheme \<Rightarrow> DescriptorTablePointer" where
  "read_idtr k = idtr k"

definition idt_current_base :: "'z cpu_tables_scheme \<Rightarrow> u64" where
  "idt_current_base k = dtp_base (read_idtr k)"

definition idt_current_limit :: "'z cpu_tables_scheme \<Rightarrow> u16" where
  "idt_current_limit k = dtp_limit (read_idtr k)"

definition idt_verify :: "Addresses \<Rightarrow> 'z cpu_tables_scheme \<Rightarrow> bool" where
  "idt_verify L k \<longleftrightarrow> (let actual = read_idtr k in dtp_base actual = idt_addr L \<and> dtp_limit actual = of_nat (IDT_ENTRIES * 16 - 1))"

section \<open>How the processor reads descriptors\<close>

text \<open>Bits \<open>j\<close> to \<open>j + n - 1\<close> of a word.\<close>

definition field :: "nat \<Rightarrow> nat \<Rightarrow> u64 \<Rightarrow> u64" where
  "field j n w = take_bit n (drop_bit j w)"

definition desc_access :: "u64 \<Rightarrow> u64" where
  "desc_access low = field 40 8 low"

definition desc_dpl :: "u64 \<Rightarrow> u64" where
  "desc_dpl low = field 45 2 low"

definition desc_limit :: "u64 \<Rightarrow> u64" where
  "desc_limit low = field 0 16 low OR push_bit 16 (field 48 4 low)"

text \<open>
  Code and data segments as the processor decodes them: present (bit 47), not a system descriptor
  (bit 44), and either executable (bit 43) 64-bit code (\<open>L\<close>, bit 53, set and \<open>D\<close>, bit 54, clear) or
  data that grows upwards (bit 42 clear) and can be written (bit 41).
\<close>

definition code64_segment :: "u64 \<Rightarrow> u64 \<Rightarrow> bool" where
  "code64_segment dpl d \<longleftrightarrow> bit d 47 \<and> bit d 44 \<and> bit d 43 \<and> bit d 53 \<and> \<not> bit d 54 \<and> desc_dpl d = dpl"

definition data_segment :: "u64 \<Rightarrow> u64 \<Rightarrow> bool" where
  "data_segment dpl d \<longleftrightarrow> bit d 47 \<and> bit d 44 \<and> \<not> bit d 43 \<and> \<not> bit d 42 \<and> bit d 41 \<and> desc_dpl d = dpl"

text \<open>The base of a 16-byte system descriptor.\<close>

definition desc_base :: "u64 \<Rightarrow> u64 \<Rightarrow> u64" where
  "desc_base low high = field 16 24 low OR push_bit 24 (field 56 8 low) OR push_bit 32 (take_bit 32 high)"

definition gate_offset :: "IdtEntry \<Rightarrow> u64" where
  "gate_offset e = ucast (offset_low e) OR push_bit 16 (ucast (offset_mid e)) OR push_bit 32 (ucast (offset_high e))"

definition gate_present :: "IdtEntry \<Rightarrow> bool" where
  "gate_present e \<longleftrightarrow> bit (attributes e) 7"

text \<open>Reading the fields of a word put together from fields.\<close>

lemma field_or: "field j n (a OR b) = field j n a OR field j n b"
  by (simp add: field_def drop_bit_or)

lemma field_same: "i + l \<le> 64 \<Longrightarrow> field i l (push_bit i (take_bit l x)) = take_bit l x"
  by (intro bit_word_eqI) (auto simp: field_def bit_simps)

lemma field_other: "i + l \<le> j \<or> j + n \<le> i \<Longrightarrow> field j n (push_bit i (take_bit l x)) = 0"
  by (intro bit_word_eqI) (auto simp: field_def bit_simps)

definition descriptor_word :: "u64 \<Rightarrow> u64 \<Rightarrow> u64 \<Rightarrow> u64 \<Rightarrow> u64 \<Rightarrow> u64 \<Rightarrow> u64" where
  "descriptor_word a b c d e f = push_bit 0 (take_bit 16 a) OR push_bit 16 (take_bit 16 b) OR push_bit 32 (take_bit 8 c)
     OR push_bit 40 (take_bit 8 d) OR push_bit 48 (take_bit 4 e) OR push_bit 56 (take_bit 8 f)"

lemma descriptor_word_fields:
  "field 0 16 (descriptor_word a b c d e f) = take_bit 16 a" "field 16 16 (descriptor_word a b c d e f) = take_bit 16 b"
  "field 32 8 (descriptor_word a b c d e f) = take_bit 8 c" "field 40 8 (descriptor_word a b c d e f) = take_bit 8 d"
  "field 48 4 (descriptor_word a b c d e f) = take_bit 4 e" "field 56 8 (descriptor_word a b c d e f) = take_bit 8 f"
  unfolding descriptor_word_def field_or by (simp_all add: field_same field_other del: push_bit_0_id)

lemma mask_as_take_bit:
  "(w :: u64) AND 0xFFFF = take_bit 16 w" "w AND 0xFF = take_bit 8 w" "w AND 0x0F = take_bit 4 w" "w AND 0xFFFFFFFF = take_bit 32 w"
  by (simp_all add: take_bit_eq_mask mask_eq_exp_minus_1)

lemma tss_descriptor_low_parts:
  "tss_descriptor_low b limit = descriptor_word (ucast limit) b (drop_bit 16 b) 0x89 (drop_bit 16 (ucast limit)) (drop_bit 24 b)"
  unfolding tss_descriptor_low_def descriptor_word_def Let_def mask_as_take_bit by (simp add: or.assoc)

lemma field_16_24: "field 16 24 w = field 16 16 w OR push_bit 16 (field 32 8 w)"
  by (intro bit_word_eqI) (auto simp: field_def bit_simps)

lemma desc_fields_tss:
  "desc_access (tss_descriptor_low b limit) = 0x89"
  "desc_base (tss_descriptor_low b limit) (drop_bit 32 b AND 0xFFFFFFFF) = b"
  "limit < 0x100000 \<Longrightarrow> desc_limit (tss_descriptor_low b limit) = ucast limit"
proof -
  note fields = descriptor_word_fields [of "ucast limit" b "drop_bit 16 b" "0x89" "drop_bit 16 (ucast limit)" "drop_bit 24 b",
      folded tss_descriptor_low_parts]
  show "desc_access (tss_descriptor_low b limit) = 0x89" unfolding desc_access_def fields by simp
  have "desc_base (tss_descriptor_low b limit) (drop_bit 32 b AND 0xFFFFFFFF)
      = (take_bit 16 b OR push_bit 16 (take_bit 8 (drop_bit 16 b))) OR push_bit 24 (take_bit 8 (drop_bit 24 b))
        OR push_bit 32 (take_bit 32 (drop_bit 32 b))"
    unfolding desc_base_def field_16_24 fields mask_as_take_bit by simp
  also have "\<dots> = b"
  proof (rule bit_word_eqI)
    fix i assume "i < LENGTH(64)"
    then show "bit ((take_bit 16 b OR push_bit 16 (take_bit 8 (drop_bit 16 b))) OR push_bit 24 (take_bit 8 (drop_bit 24 b))
        OR push_bit 32 (take_bit 32 (drop_bit 32 b))) i \<longleftrightarrow> bit b i"
      by (cases "i < 24"; cases "i < 32") (auto simp: bit_simps)
  qed
  finally show "desc_base (tss_descriptor_low b limit) (drop_bit 32 b AND 0xFFFFFFFF) = b" .
  assume "limit < 0x100000"
  then have "unat (take_bit 20 limit) = unat limit"
    by (simp add: unsigned_take_bit_eq take_bit_nat_eq_self word_less_nat_alt)
  then have "take_bit 20 limit = limit" by (simp only: word_unat_eq_iff)
  then have l: "\<not> bit limit n" if "20 \<le> n" for n using that by (metis bit_take_bit_iff not_le)
  show "desc_limit (tss_descriptor_low b limit) = ucast limit"
  proof (rule bit_word_eqI)
    fix i assume "i < LENGTH(64)"
    then show "bit (desc_limit (tss_descriptor_low b limit)) i \<longleftrightarrow> bit (ucast limit :: u64) i"
      unfolding desc_limit_def fields using l [of i] by (cases "i < 20") (auto simp: bit_simps)
  qed
qed

lemma gate_offset_set: "gate_offset (IdtEntry_set_handler_with_ist h n e) = h"
proof (rule bit_word_eqI)
  fix i assume "i < LENGTH(64)"
  then show "bit (gate_offset (IdtEntry_set_handler_with_ist h n e)) i \<longleftrightarrow> bit h i"
    by (cases "i < 16"; cases "i < 32") (auto simp: gate_offset_def IdtEntry_set_handler_with_ist_def bit_simps)
qed

section \<open>The tables after initialisation\<close>

definition addresses_ok :: "Addresses \<Rightarrow> bool" where
  "addresses_ok L \<longleftrightarrow> unat (gdt_addr L) + 56 < 2 ^ 64 \<and> unat (tss_addr L) + 104 < 2 ^ 64
     \<and> unat (double_fault_stack_addr L) + 16384 < 2 ^ 64"

definition booted_gdt :: "Addresses \<Rightarrow> u64 list" where
  "booted_gdt L = [GDT_NULL, GDT_KERNEL_CODE, GDT_KERNEL_DATA, tss_descriptor_low (tss_addr L) 103,
     drop_bit 32 (tss_addr L) AND 0xFFFFFFFF, GDT_USER_DATA, GDT_USER_CODE]"

lemma outcome_gdt_set [outcome_simps]:
  "i < length (GDT k) \<Longrightarrow> outcome_of (gdt_set i v) k = Returned () (k\<lparr>GDT := (GDT k)[i := v]\<rparr>)"
  by (simp add: gdt_set_def outcome_simps arr_set_def)

lemma outcome_print_gdt [outcome_simps]: "length (GDT k) = 7 \<Longrightarrow> outcome_of print_gdt k = Returned () k"
  by (auto simp: print_gdt_def print_gdt_entry_def outcome_simps arr_get_def)

lemma outcome_gdt_init_entries [outcome_simps]:
  assumes "length (GDT k) = 7"
  shows "outcome_of gdt_init_entries k = Returned () (k\<lparr>GDT := GlobalDescriptorTable_new\<rparr>)"
proof -
  obtain a0 a1 a2 a3 a4 a5 a6 where "GDT k = [a0, a1, a2, a3, a4, a5, a6]"
    using assms by (auto simp: length_Suc_conv eval_nat_numeral)
  then show ?thesis by (simp add: gdt_init_entries_def GlobalDescriptorTable_new_def outcome_simps)
qed

lemma gdt_init_outcome:
  assumes "addresses_ok L" and "length (GDT k) = 7"
  shows "outcome_of (gdt_init L) k = Returned () (k\<lparr>GDT := booted_gdt L,
      TSS := (TSS k)\<lparr>tss_ist1 := double_fault_stack_addr L + 16384, tss_iomap_base := 104\<rparr>,
      gdtr := \<lparr>dtp_limit = 55, dtp_base = gdt_addr L\<rparr>, seg_cs := 8, seg_ds := 16, seg_es := 16, seg_ss := 16, task_reg := 24\<rparr>)"
proof -
  have adds: "padd (gdt_addr L) 56 = ret (gdt_addr L + 56)" "padd (tss_addr L) 104 = ret (tss_addr L + 104)"
    "padd (double_fault_stack_addr L) 16384 = ret (double_fault_stack_addr L + 16384)"
    using assms(1) by (simp_all add: addresses_ok_def checked_add_def)
  show ?thesis
    using assms(2) unfolding gdt_init_def gdt_init_tables_def gdt_load_def
    by (simp add: outcome_simps adds tss_init_def TaskStateSegment_init_def install_tss_def arr_set_def usize_sub_def
        TSS_SIZE_def gdt_pointer_def GDT_SIZE_def DOUBLE_FAULT_STACK_SIZE_def unbound_reload_segments_def load_task_register_def TSS_SELECTOR_def
        booted_gdt_def GlobalDescriptorTable_new_def Let_def)
qed

text \<open>The gates the interrupt table has after its initialisation.\<close>

definition gate_of :: "Addresses \<Rightarrow> nat \<Rightarrow> IdtEntry \<Rightarrow> IdtEntry" where
  "gate_of L v e = (if v = 32 then IdtEntry_set_handler (irq0_addr L) e
     else if v = 8 then IdtEntry_set_handler_with_ist (isr_addr L 8) 1 e
     else if v < 32 then IdtEntry_set_handler (isr_addr L v) e else e)"

lemma idt_set_isrs_ret:
  assumes "\<forall>v \<in> set vs. v < length es" and "distinct vs"
  shows "\<exists>es'. idt_set_isrs L vs es = ret es' \<and> length es' = length es
    \<and> (\<forall>v < length es. es' ! v = (if v \<in> set vs then IdtEntry_set_handler (isr_addr L v) (es ! v) else es ! v))"
  using assms
proof (induction vs arbitrary: es)
  case (Cons v vs)
  let ?es = "es[v := IdtEntry_set_handler (isr_addr L v) (es ! v)]"
  have set1: "idt_set_handler v (isr_addr L v) es = ret ?es" using Cons.prems by (simp add: idt_set_handler_def run_simps)
  obtain es' where es': "idt_set_isrs L vs ?es = ret es'" "length es' = length es"
      "\<forall>u < length es. es' ! u = (if u \<in> set vs then IdtEntry_set_handler (isr_addr L u) (?es ! u) else ?es ! u)"
    using Cons.IH [of ?es] Cons.prems by auto
  then show ?case using set1 Cons.prems by (auto simp: nth_list_update)
qed simp

lemma idt_set_isrs_range:
  assumes "b \<le> length es"
  obtains es' where "idt_set_isrs L [a..<b] es = ret es'" and "length es' = length es"
    and "\<forall>v < length es. es' ! v = (if a \<le> v \<and> v < b then IdtEntry_set_handler (isr_addr L v) (es ! v) else es ! v)"
  using idt_set_isrs_ret [of "[a..<b]" es L] assms that by auto

lemma idt_init_ret:
  assumes "length (IDT k) = 256"
  obtains es where "idt_init L k = ret ((), k\<lparr>IDT := es, idtr := \<lparr>dtp_limit = 4095, dtp_base = idt_addr L\<rparr>\<rparr>)"
    and "length es = 256" and "\<forall>v < 256. es ! v = gate_of L v (IDT k ! v)"
proof -
  obtain e1 where e1: "idt_set_isrs L [0..<8] (IDT k) = ret e1" "length e1 = 256"
      "\<forall>v < 256. e1 ! v = (if 0 \<le> v \<and> v < 8 then IdtEntry_set_handler (isr_addr L v) (IDT k ! v) else IDT k ! v)"
    using idt_set_isrs_range [of 8 "IDT k" L 0] unfolding assms by auto
  let ?e2 = "e1[8 := IdtEntry_set_handler_with_ist (isr_addr L 8) 1 (e1 ! 8)]"
  obtain e3 where e3: "idt_set_isrs L [9..<32] ?e2 = ret e3" "length e3 = 256"
      "\<forall>v < 256. e3 ! v = (if 9 \<le> v \<and> v < 32 then IdtEntry_set_handler (isr_addr L v) (?e2 ! v) else ?e2 ! v)"
    using idt_set_isrs_range [of 32 ?e2 L 9] unfolding length_list_update e1(2) by auto
  let ?e4 = "e3[32 := IdtEntry_set_handler (irq0_addr L) (e3 ! 32)]"
  have "idt_init L k = ret ((), k\<lparr>IDT := ?e4, idtr := \<lparr>dtp_limit = 4095, dtp_base = idt_addr L\<rparr>\<rparr>)"
    using e1 e3 by (simp add: idt_init_def idt_set_handler_with_ist_def idt_set_handler_def run_simps IDT_ENTRIES_def)
  moreover have "?e4 ! v = gate_of L v (IDT k ! v)" if "v < 256" for v
    using e1(2,3) e3(2,3) that by (auto simp: gate_of_def nth_list_update)
  ultimately show thesis using that [of ?e4] e3(2) by simp
qed

lemma gate_of_fields:
  "v < 32 \<Longrightarrow> gate_offset (gate_of L v e) = isr_addr L v \<and> ist (gate_of L v e) = (if v = 8 then 1 else 0)"
  "gate_offset (gate_of L 32 e) = irq0_addr L" "ist (gate_of L 32 e) = 0"
  "v < 33 \<Longrightarrow> gate_present (gate_of L v e) \<and> selector (gate_of L v e) = KERNEL_CODE_SELECTOR"
  "33 \<le> v \<Longrightarrow> gate_of L v e = e"
proof -
  have handler: "ist (IdtEntry_set_handler_with_ist h n e) = n AND 7" "gate_present (IdtEntry_set_handler_with_ist h n e)"
    "selector (IdtEntry_set_handler_with_ist h n e) = KERNEL_CODE_SELECTOR" for h n
    by (simp_all add: IdtEntry_set_handler_with_ist_def gate_present_def INTERRUPT_GATE_def KERNEL_CODE_SELECTOR_def
        idt_KERNEL_CODE_SELECTOR_def)
  show "v < 32 \<Longrightarrow> gate_offset (gate_of L v e) = isr_addr L v \<and> ist (gate_of L v e) = (if v = 8 then 1 else 0)"
    "gate_offset (gate_of L 32 e) = irq0_addr L" "ist (gate_of L 32 e) = 0"
    "v < 33 \<Longrightarrow> gate_present (gate_of L v e) \<and> selector (gate_of L v e) = KERNEL_CODE_SELECTOR"
    "33 \<le> v \<Longrightarrow> gate_of L v e = e"
    by (auto simp: gate_of_def IdtEntry_set_handler_def gate_offset_set handler)
qed

text \<open>
  C27.  The segments after \<open>gdt::init\<close>.  The processor finds the table where \<open>GDTR\<close> points, with limit 55.  Its
  entry 0 is null; \<open>CS\<close> selects a present 64-bit code segment and \<open>DS\<close>, \<open>ES\<close> and \<open>SS\<close> a present writable data
  segment, both of privilege level 0; the user selectors name a data and a 64-bit code segment of level 3; and
  \<open>TR\<close> an available 64-bit task state segment whose decoded base and limit are the address and size of the
  \<open>TSS\<close>.  \<open>IST1\<close> is the end of the double-fault stack, the I/O bitmap is disabled, and the verification
  functions of the boot code agree.
\<close>

theorem gdt_init_exact:
  assumes "addresses_ok L" and "length (GDT k) = 7"
  shows "\<exists>k'. outcome_of (gdt_init L) k = Returned () k'
    \<and> gdtr k' = \<lparr>dtp_limit = 55, dtp_base = gdt_addr L\<rparr> \<and> length (GDT k') = 7 \<and> GDT k' ! 0 = 0
    \<and> seg_cs k' = 8 * 1 \<and> code64_segment 0 (GDT k' ! 1)
    \<and> seg_ds k' = 8 * 2 \<and> seg_es k' = 8 * 2 \<and> seg_ss k' = 8 * 2 \<and> data_segment 0 (GDT k' ! 2)
    \<and> USER_DATA_SELECTOR = 8 * 5 \<and> data_segment 3 (GDT k' ! 5)
    \<and> USER_CODE_SELECTOR = 8 * 6 \<and> code64_segment 3 (GDT k' ! 6)
    \<and> task_reg k' = 8 * 3 \<and> desc_access (GDT k' ! 3) = 0x89
    \<and> desc_base (GDT k' ! 3) (GDT k' ! 4) = tss_addr L \<and> desc_limit (GDT k' ! 3) = of_nat TSS_SIZE - 1
    \<and> ist1 k' = double_fault_stack_addr L + 16384 \<and> unat (tss_iomap_base (TSS k')) = TSS_SIZE
    \<and> gdt_verify L k' \<and> verify_task_register k' \<and> verify_user_segments k' = ret True"
  unfolding gdt_init_outcome [OF assms]
  by (intro exI conjI, rule refl)
    (simp_all add: booted_gdt_def desc_fields_tss TSS_SIZE_def code64_segment_def data_segment_def bit_numeral_rec
      desc_dpl_def field_def GDT_NULL_def GDT_KERNEL_CODE_def GDT_KERNEL_DATA_def
      GDT_USER_DATA_def GDT_USER_CODE_def USER_DATA_SELECTOR_def USER_CODE_SELECTOR_def ist1_def gdt_verify_def read_gdtr_def
      GDT_SIZE_def verify_task_register_def task_register_def TSS_SELECTOR_def verify_user_segments_def arr_get_def Let_def)

text \<open>
  C26.  The gates after \<open>idt::init\<close>.  Every exception vector has a present interrupt gate whose decoded offset is the
  entry point of exactly that vector, in the kernel code segment; only the double fault uses the interrupt stack
  \<open>IST1\<close>; vector 32 leads to the timer entry; no other vector is changed, and \<open>IDTR\<close> covers the 256 gates.
\<close>

theorem idt_init_exact:
  assumes "length (IDT k) = 256"
  shows "\<exists>k'. idt_init L k = ret ((), k') \<and> idt_verify L k' \<and> dtp_limit (idtr k') = 256 * 16 - 1
    \<and> (\<forall>v < 32. gate_offset (IDT k' ! v) = isr_addr L v \<and> ist (IDT k' ! v) = (if v = 8 then 1 else 0))
    \<and> gate_offset (IDT k' ! 32) = irq0_addr L \<and> ist (IDT k' ! 32) = 0
    \<and> (\<forall>v < 33. gate_present (IDT k' ! v) \<and> selector (IDT k' ! v) = KERNEL_CODE_SELECTOR)
    \<and> (\<forall>v. 33 \<le> v \<and> v < 256 \<longrightarrow> IDT k' ! v = IDT k ! v)"
proof -
  obtain es where es: "idt_init L k = ret ((), k\<lparr>IDT := es, idtr := \<lparr>dtp_limit = 4095, dtp_base = idt_addr L\<rparr>\<rparr>)"
    "\<forall>v < 256. es ! v = gate_of L v (IDT k ! v)" by (rule idt_init_ret [OF assms])
  have "es ! v = gate_of L v (IDT k ! v)" if "v < 256" for v using es(2) that by simp
  then show ?thesis
    unfolding es(1)
    by (intro exI [of _ "k\<lparr>IDT := es, idtr := \<lparr>dtp_limit = 4095, dtp_base = idt_addr L\<rparr>\<rparr>"])
      (simp add: gate_of_fields idt_verify_def read_idtr_def IDT_ENTRIES_def)
qed

section \<open>Witnesses\<close>

definition example_addresses :: Addresses where
  "example_addresses = \<lparr>gdt_addr = 0x10A000, tss_addr = 0x10A100, idt_addr = 0x10B000, double_fault_stack_addr = 0x110000,
     ring3_kernel_stack_addr = 0x114000, isr_addr = (\<lambda>v. 0x101000 + 16 * of_nat v), irq0_addr = 0x102000,
     syscall_stack_addr = 0x118000, syscall_entry_addr = 0x103000, user_entry_addr = 0x104040, user_stack_addr = 0x11C000\<rparr>"

text \<open>The static tables and the registers as the boot loader leaves them.\<close>

definition reset_tables :: cpu_tables where
  "reset_tables = \<lparr>GDT = replicate 7 0, TSS = TaskStateSegment_new, IDT = InterruptDescriptorTable_new,
     gdtr = \<lparr>dtp_limit = 0, dtp_base = 0\<rparr>, idtr = \<lparr>dtp_limit = 0, dtp_base = 0\<rparr>, task_reg = 0,
     seg_cs = 8, seg_ds = 16, seg_es = 16, seg_ss = 16\<rparr>"

lemma example_addresses_ok: "addresses_ok example_addresses"
  by (simp add: addresses_ok_def example_addresses_def)

lemma reset_tables_sizes: "length (GDT reset_tables) = 7" "length (IDT reset_tables) = 256"
  by (simp_all add: reset_tables_def InterruptDescriptorTable_new_def IDT_ENTRIES_def)

theorem gdt_init_exact_witness:
  "\<exists>k'. outcome_of (gdt_init example_addresses) reset_tables = Returned () k' \<and> task_reg k' = 24
    \<and> desc_base (GDT k' ! 3) (GDT k' ! 4) = 0x10A100 \<and> ist1 k' = 0x114000"
proof -
  have a: "tss_addr example_addresses = 0x10A100" "double_fault_stack_addr example_addresses + 16384 = 0x114000"
    by (simp_all add: example_addresses_def)
  from gdt_init_exact [OF example_addresses_ok reset_tables_sizes(1)] show ?thesis unfolding a by (elim exE conjE) (intro exI conjI, simp_all)
qed

theorem idt_init_exact_witness:
  "\<exists>k'. idt_init example_addresses reset_tables = ret ((), k') \<and> gate_offset (IDT k' ! 14) = 0x1010E0
    \<and> ist (IDT k' ! 8) = 1 \<and> gate_offset (IDT k' ! 32) = 0x102000"
proof -
  have a: "isr_addr example_addresses 14 = 0x1010E0" "irq0_addr example_addresses = 0x102000" by (simp_all add: example_addresses_def)
  obtain k' where k': "idt_init example_addresses reset_tables = ret ((), k')"
    "\<forall>v < 32. gate_offset (IDT k' ! v) = isr_addr example_addresses v \<and> ist (IDT k' ! v) = (if v = 8 then 1 else 0)"
    "gate_offset (IDT k' ! 32) = irq0_addr example_addresses"
    using idt_init_exact [OF reset_tables_sizes(2), of example_addresses] by (elim exE conjE) blast
  from k'(2) [rule_format, of 14] k'(2) [rule_format, of 8] k'(1,3) show ?thesis by (simp add: a)
qed

end
