(* ===== verification/Devices.thy ===== *)
theory Devices
  imports Prelude
begin

text \<open>
  The interrupt controllers and the timer (\<open>arch/x86_64/pic.rs\<close>, \<open>pit.rs\<close>).  The devices behind the ports are
  modelled as their data sheets describe them: an 8259 that takes up to three further initialisation words after
  the first, its mask register, and channel 0 of an 8254 whose count is loaded low byte first.  The driver's
  functions are sequences of port accesses.
\<close>

section \<open>The devices\<close>

record pic8259 =
  icw_pending :: "nat list"
  vector_base :: u8
  cascade :: u8
  icw4 :: u8
  irq_mask :: u8
  eois :: nat

record pit8254 =
  pit_mode :: u8
  pit_low :: "u8 option"
  pit_count :: u16

record ports =
  master :: pic8259
  slave :: pic8259
  pit :: pit8254

text \<open>The first initialisation word announces which others follow and clears the mask register.\<close>

definition pic_command :: "u8 \<Rightarrow> pic8259 \<Rightarrow> pic8259" where
  "pic_command v p =
     (if bit v 4 then p\<lparr>icw_pending := [2] @ (if bit v 1 then [] else [3]) @ (if bit v 0 then [4] else []), irq_mask := 0\<rparr>
      else if v = 0x20 then p\<lparr>eois := Suc (eois p)\<rparr> else p)"

definition pic_data :: "u8 \<Rightarrow> pic8259 \<Rightarrow> pic8259" where
  "pic_data v p = (case icw_pending p of
     [] \<Rightarrow> p\<lparr>irq_mask := v\<rparr>
   | i # is \<Rightarrow> (if i = 2 then p\<lparr>vector_base := v, icw_pending := is\<rparr>
                else if i = 3 then p\<lparr>cascade := v, icw_pending := is\<rparr> else p\<lparr>icw4 := v, icw_pending := is\<rparr>))"

definition pit_command :: "u8 \<Rightarrow> pit8254 \<Rightarrow> pit8254" where
  "pit_command v p = (if drop_bit 6 v = 0 then p\<lparr>pit_mode := v, pit_low := None\<rparr> else p)"

definition pit_data :: "u8 \<Rightarrow> pit8254 \<Rightarrow> pit8254" where
  "pit_data v p = (case pit_low p of
     None \<Rightarrow> p\<lparr>pit_low := Some v\<rparr>
   | Some l \<Rightarrow> p\<lparr>pit_low := None, pit_count := push_bit 8 (ucast v) OR ucast l\<rparr>)"

section \<open>Port access\<close>

definition outb :: "u16 \<Rightarrow> u8 \<Rightarrow> ports \<Rightarrow> ports" where
  "outb port v p =
     (if port = 0x20 then p\<lparr>master := pic_command v (master p)\<rparr>
      else if port = 0x21 then p\<lparr>master := pic_data v (master p)\<rparr>
      else if port = 0xA0 then p\<lparr>slave := pic_command v (slave p)\<rparr>
      else if port = 0xA1 then p\<lparr>slave := pic_data v (slave p)\<rparr>
      else if port = 0x43 then p\<lparr>pit := pit_command v (pit p)\<rparr>
      else if port = 0x40 then p\<lparr>pit := pit_data v (pit p)\<rparr>
      else p)"

definition inb :: "u16 \<Rightarrow> ports \<Rightarrow> u8" where
  "inb port p = (if port = 0x21 then irq_mask (master p) else if port = 0xA1 then irq_mask (slave p) else 0xFF)"

section \<open>The interrupt controller driver\<close>

definition PIC1_COMMAND :: u16 where "PIC1_COMMAND = 0x20"
definition PIC1_DATA :: u16 where "PIC1_DATA = 0x21"
definition PIC2_COMMAND :: u16 where "PIC2_COMMAND = 0xA0"
definition PIC2_DATA :: u16 where "PIC2_DATA = 0xA1"




definition enable_irq :: "u8 \<Rightarrow> ports \<Rightarrow> ports" where
  "enable_irq irq p =
     (if 16 \<le> irq then p
      else if irq < 8 then outb PIC1_DATA (inb PIC1_DATA p AND NOT (push_bit (unat irq) 1)) p
      else outb PIC2_DATA (inb PIC2_DATA p AND NOT (push_bit (unat (irq - 8)) 1)) p)"

definition disable_irq :: "u8 \<Rightarrow> ports \<Rightarrow> ports" where
  "disable_irq irq p =
     (if 16 \<le> irq then p
      else if irq < 8 then outb PIC1_DATA (inb PIC1_DATA p OR push_bit (unat irq) 1) p
      else outb PIC2_DATA (inb PIC2_DATA p OR push_bit (unat (irq - 8)) 1) p)"

definition end_of_interrupt :: "u8 \<Rightarrow> ports \<Rightarrow> ports" where
  "end_of_interrupt irq p = (let p = (if 8 \<le> irq then outb PIC2_COMMAND 0x20 p else p) in outb PIC1_COMMAND 0x20 p)"

section \<open>The timer driver\<close>




section \<open>Properties\<close>

lemmas pic_ports = PIC1_COMMAND_def PIC1_DATA_def PIC2_COMMAND_def PIC2_DATA_def

lemma outb_devices:
  "master (outb q v p) = (if q = 0x20 then pic_command v (master p) else if q = 0x21 then pic_data v (master p) else master p)"
  "slave (outb q v p) = (if q = 0xA0 then pic_command v (slave p) else if q = 0xA1 then pic_data v (slave p) else slave p)"
  "pit (outb q v p) = (if q = 0x43 then pit_command v (pit p) else if q = 0x40 then pit_data v (pit p) else pit p)"
  by (auto simp: outb_def)

text \<open>An interrupt line is enabled when its bit of the mask is clear.\<close>

definition irq_enabled :: "nat \<Rightarrow> ports \<Rightarrow> bool" where
  "irq_enabled i p \<longleftrightarrow> (if i < 8 then \<not> bit (irq_mask (master p)) i else \<not> bit (irq_mask (slave p)) (i - 8))"

definition initialised :: "ports \<Rightarrow> bool" where
  "initialised p \<longleftrightarrow> icw_pending (master p) = [] \<and> icw_pending (slave p) = []"


text \<open>
  \<open>enable_irq\<close> and \<open>disable_irq\<close> change exactly the requested line of an initialised controller, for all 16 lines,
  and ignore other numbers; \<open>end_of_interrupt\<close> signals the master once, and the slave first for its lines.
\<close>

theorem irq_lines_exact:
  assumes "initialised p" and "i < 16"
  shows "(irq_enabled i (enable_irq irq p) \<longleftrightarrow> i = unat irq \<or> irq_enabled i p)
    \<and> (irq_enabled i (disable_irq irq p) \<longleftrightarrow> i \<noteq> unat irq \<and> irq_enabled i p)
    \<and> eois (master (end_of_interrupt irq p)) = Suc (eois (master p))
    \<and> eois (slave (end_of_interrupt irq p)) = (if 8 \<le> irq then Suc (eois (slave p)) else eois (slave p))"
proof -
  have eoi: "eois (master (end_of_interrupt irq p)) = Suc (eois (master p))"
    "eois (slave (end_of_interrupt irq p)) = (if 8 \<le> irq then Suc (eois (slave p)) else eois (slave p))"
    by (simp_all add: end_of_interrupt_def Let_def outb_devices pic_ports pic_command_def)
  consider "16 \<le> irq" | "irq < 8" | "8 \<le> irq" "irq < 16" by fastforce
  then show ?thesis
  proof cases
    case 1
    then have "i \<noteq> unat irq" using assms(2) by (simp add: word_le_nat_alt)
    then show ?thesis using 1 eoi by (simp add: enable_irq_def disable_irq_def)
  next
    case 2
    then have "unat irq < 8" "\<not> 16 \<le> irq" by (auto simp: word_less_nat_alt word_le_nat_alt)
    then show ?thesis
      using 2 eoi assms
      by (auto simp: enable_irq_def disable_irq_def irq_enabled_def outb_devices inb_def pic_ports pic_data_def initialised_def bit_simps)
  next
    case 3
    then have irq: "8 \<le> unat irq" "unat irq < 16" "\<not> irq < 8" "\<not> 16 \<le> irq" by (auto simp: word_less_nat_alt word_le_nat_alt)
    have "unat (irq - 8) = unat irq - 8" using 3(1) by (simp add: unat_sub)
    then show ?thesis
      using irq eoi assms
      by (auto simp: enable_irq_def disable_irq_def irq_enabled_def outb_devices inb_def pic_ports pic_data_def initialised_def bit_simps)
  qed
qed

text \<open>The controllers after a reset, with every line masked.\<close>

definition reset_ports :: ports where
  "reset_ports = (let p = \<lparr>icw_pending = [], vector_base = 8, cascade = 0, icw4 = 0, irq_mask = 0xFF, eois = 0\<rparr>
     in \<lparr>master = p, slave = p, pit = \<lparr>pit_mode = 0, pit_low = None, pit_count = 0\<rparr>\<rparr>)"

theorem irq_lines_exact_witness:
  "initialised reset_ports \<and> irq_enabled 12 (enable_irq 12 reset_ports) \<and> \<not> irq_enabled 3 (enable_irq 12 reset_ports)"
proof -
  have "initialised reset_ports" by (simp add: initialised_def reset_ports_def Let_def)
  with irq_lines_exact [OF this, of 12 12] irq_lines_exact [OF this, of 3 12] show ?thesis
    by (simp add: irq_enabled_def reset_ports_def Let_def)
qed


end
