(* ===== verification/Handlers.thy ===== *)
theory Handlers
  imports Interrupts Descriptors Devices
begin

text \<open>
  The Rust handlers behind the interrupt entry points: \<open>unbound_timer_handler\<close> and \<open>unbound_exception_handler\<close> of
  \<open>bin/kernel.rs\<close>, and the diagnostics of \<open>arch/x86_64/idt.rs\<close>.  Their state extends the descriptor tables by the
  debug counters, the devices and memory.
\<close>

section \<open>State\<close>

record irq_state = cpu_tables +
  TIMER_IRQ_DEBUG_COUNT :: u64
  EXCEPTION_DEBUG_COUNT :: u64
  IRET_DEBUG_COUNT :: u64
  io_ports :: ports
  ram :: memory

section \<open>Diagnostics of the interrupt entry\<close>

text \<open>The module's own hexadecimal output, with a prefix and a table of digits.\<close>

fun idt_hex_loop :: "u64 \<Rightarrow> nat \<Rightarrow> string run" where
  "idt_hex_loop value shift = do {
     let digit = unat (drop_bit shift value AND 0xF);
     c \<leftarrow> arr_get ''0123456789ABCDEF'' digit;
     if shift = 0 then ret [c]
     else if shift < 4 then panic
     else do { r \<leftarrow> idt_hex_loop value (shift - 4); ret (c # r) } }"

declare idt_hex_loop.simps [simp del]

definition idt_serial_write_hex64 :: "u64 \<Rightarrow> ('s, unit) kernel" where
  "idt_serial_write_hex64 value = kblock [say ''0x'', say_run (idt_hex_loop value 60)]"

definition idt_line :: "string \<Rightarrow> u64 \<Rightarrow> ('s, unit) kernel" where
  "idt_line t v = kblock [say t, idt_serial_write_hex64 v, say crlf]"

text \<open>Word \<open>i\<close> of the frame at an address.\<close>

definition frame_word :: "u64 \<Rightarrow> nat \<Rightarrow> irq_state \<Rightarrow> u64" where
  "frame_word p i k = ram k (p + 8 * of_nat i)"

definition print_iret_frame :: "string \<Rightarrow> u64 \<Rightarrow> (irq_state, unit) kernel" where
  "print_iret_frame who p = kblock [
     kbind (kget (frame_word p 15)) (idt_line (who @ '' VECTOR: '')),
     kbind (kget (frame_word p 16)) (idt_line (who @ '' IRET RIP: '')),
     kbind (kget (frame_word p 17)) (idt_line (who @ '' IRET CS: '')),
     kbind (kget (frame_word p 18)) (idt_line (who @ '' IRET RFLAGS: ''))]"

definition unbound_debug_iret_frames :: "u64 \<Rightarrow> u64 \<Rightarrow> (irq_state, unit) kernel" where
  "unbound_debug_iret_frames current_rsp next_rsp =
     kbind (kget IRET_DEBUG_COUNT) (\<lambda>count. kblock [
       kmodify (\<lambda>k. k\<lparr>IRET_DEBUG_COUNT := IRET_DEBUG_COUNT k + 1\<rparr>),
       if 16 \<le> count then kret ()
       else kblock [
         sayln (crlf @ ''================================''),
         sayln ''        IRET FRAME DEBUG'',
         sayln ''================================'',
         idt_line ''CURRENT FRAME RSP: '' current_rsp,
         if current_rsp \<noteq> 0 then print_iret_frame ''CURRENT'' current_rsp else kret (),
         idt_line ''NEXT FRAME RSP: '' next_rsp,
         if next_rsp \<noteq> 0 then print_iret_frame ''NEXT'' next_rsp else kret (),
         sayln ''================================'']])"

definition unbound_debug_iret_frame :: "u64 \<Rightarrow> (irq_state, unit) kernel" where
  "unbound_debug_iret_frame rsp =
     kbind (kget (frame_word rsp 0)) (\<lambda>vec. kbind (kget (frame_word rsp 1)) (\<lambda>rip.
     kbind (kget (frame_word rsp 2)) (\<lambda>cs. kbind (kget (frame_word rsp 3)) (\<lambda>rflags. kblock [
       idt_line ''VECTOR: '' vec, idt_line ''RIP: '' rip, idt_line ''CS: '' cs, idt_line ''RFLAGS: '' rflags,
       idt_line ''RSP: '' rsp, idt_line ''RIP: '' rip, idt_line ''CS: '' cs, idt_line ''RFLAGS: '' rflags]))))"

definition unbound_debug_pre_iret :: "u64 \<Rightarrow> (irq_state, unit) kernel" where
  "unbound_debug_pre_iret iret_rsp = kblock [
     sayln (crlf @ ''+++ PRE-IRET CHECK +++''),
     idt_line ''IRET RSP: '' iret_rsp,
     if iret_rsp = 0 then sayln ''PRE-IRET: NULL RSP''
     else
       kbind (kget (frame_word iret_rsp 0)) (\<lambda>rip. kbind (kget (frame_word iret_rsp 1)) (\<lambda>cs.
       kbind (kget (frame_word iret_rsp 2)) (\<lambda>rflags. kblock [
         idt_line ''IRETQ RIP: '' rip, idt_line ''IRETQ CS: '' cs, idt_line ''IRETQ RFLAGS: '' rflags,
         say ''PRE-IRET VALIDATION: '',
         if rip = 0 then sayln ''BAD RIP''
         else if cs \<noteq> ucast idt_KERNEL_CODE_SELECTOR then sayln ''BAD CS''
         else if rflags AND 0x2 = 0 then sayln ''BAD RFLAGS''
         else sayln ''PASS'',
         sayln ''+++++++++++++++++++++++''])))]"

section \<open>The timer handler\<close>

definition timer_debug_word :: "string \<Rightarrow> u64 \<Rightarrow> nat \<Rightarrow> (irq_state, unit) kernel" where
  "timer_debug_word label p i = kbind (kget (frame_word p i)) (line_hex64 label)"

definition unbound_timer_handler :: "u64 \<Rightarrow> (irq_state, u64) kernel" where
  "unbound_timer_handler irq_rsp =
     kbind (krun (\<lambda>k. do {
         count \<leftarrow> padd (TIMER_IRQ_DEBUG_COUNT k) 1;
         ret (count, k\<lparr>TIMER_IRQ_DEBUG_COUNT := TIMER_IRQ_DEBUG_COUNT k + 1\<rparr>) })) (\<lambda>count.
     let next_rsp = irq_rsp in
     kbind (kblock [
       if count = 1 then sayln (crlf @ ''*** IRQ0 FIRED ***'') else kret (),
       if count \<le> 4 then kblock [
         sayln (crlf @ ''*** TIMER DEBUG ***''),
         line_hex64 ''CURRENT RSP: 0x'' irq_rsp,
         line_hex64 ''NEXT RSP: 0x'' next_rsp,
         timer_debug_word ''NEXT +00: 0x'' next_rsp 0,
         timer_debug_word ''NEXT +08: 0x'' next_rsp 1,
         timer_debug_word ''NEXT +16: 0x'' next_rsp 2,
         timer_debug_word ''NEXT +24: 0x'' next_rsp 3,
         timer_debug_word ''NEXT +32: 0x'' next_rsp 4,
         timer_debug_word ''NEXT +40: 0x'' next_rsp 5,
         sayln ''******************************'']
       else kret (),
       kmodify (\<lambda>k. k\<lparr>io_ports := end_of_interrupt 0 (io_ports k)\<rparr>)]) (\<lambda>_. kret next_rsp))"

section \<open>The exception handler\<close>

definition unbound_exception_handler :: "u64 \<Rightarrow> (irq_state, unit) kernel" where
  "unbound_exception_handler p =
     kbind (krun (\<lambda>k. do {
         count \<leftarrow> padd (EXCEPTION_DEBUG_COUNT k) 1;
         ret (count, k\<lparr>EXCEPTION_DEBUG_COUNT := EXCEPTION_DEBUG_COUNT k + 1\<rparr>) })) (\<lambda>count.
     kbind (kget (\<lambda>k. interrupt_frame_at (ram k) p)) (\<lambda>frame. kblock [
       say crlf,
       sayln ''================================'',
       sayln ''UNBOUND EXCEPTION HANDLER'',
       sayln ''================================'',
       line_hex64 ''EXCEPTION COUNT: '' count,
       line_hex64 ''FRAME ADDRESS: 0x'' p,
       kbind (kget ist1) (line_hex64 ''IST1 STACK TOP: 0x''),
       line_hex64 ''VECTOR: 0x'' (vector frame),
       line_hex64 ''ERROR CODE: 0x'' (error_code frame),
       line_hex64 ''RIP: 0x'' (frame_rip frame),
       line_hex64 ''CS: 0x'' (frame_cs frame),
       line_hex64 ''RFLAGS: 0x'' (frame_rflags frame),
       sayln ''EXCEPTION HANDLER COMPLETE'',
       sayln ''EXCEPTION HANDLER RETURNING'']))"

section \<open>Properties\<close>

lemma idt_hex_loop_digits: "idt_hex_loop v (4 * k) = ret (hex_digits v (Suc k))"
proof (induction k)
  case 0
  have "unat v mod 16 < 16" by simp
  then show ?case
    using unat_low_nibble [of 0 v] by (subst idt_hex_loop.simps) (simp add: hex_digits_def hex_char_def arr_get_def Let_def)
next
  case (Suc k)
  let ?d = "unat v div 16 ^ Suc k mod 16"
  have "2 ^ (4 * Suc k) = (16 :: nat) ^ Suc k" by (simp only: power_mult) simp
  then have d: "unat (drop_bit (4 * Suc k) v AND 0xF) = ?d" using unat_low_nibble [of "4 * Suc k" v] by simp
  have "arr_get ''0123456789ABCDEF'' ?d = ret (hex_char ?d)" by (simp add: arr_get_def hex_char_def del: power_Suc)
  moreover have "4 * Suc k - 4 = 4 * k" by simp
  ultimately show ?case
    using Suc by (subst idt_hex_loop.simps) (simp add: d hex_digits_def Let_def del: mult_Suc_right mult_Suc power_Suc)
qed

lemma outcome_idt_line [outcome_simps]: "outcome_of (idt_line t v) k = Returned () k"
proof -
  have "outcome_of (idt_serial_write_hex64 v) k = Returned () k"
    using idt_hex_loop_digits [of v 15]
    by (simp add: idt_serial_write_hex64_def outcome_simps)
  then show ?thesis by (simp add: idt_line_def outcome_simps)
qed

text \<open>The diagnostics only print.\<close>

lemma debug_only_prints:
  "outcome_of (unbound_debug_iret_frame p) k = Returned () k" "outcome_of (unbound_debug_pre_iret p) k = Returned () k"
  "outcome_of (unbound_debug_iret_frames p q) k = Returned () (k\<lparr>IRET_DEBUG_COUNT := IRET_DEBUG_COUNT k + 1\<rparr>)"
  by (simp_all add: unbound_debug_iret_frame_def unbound_debug_pre_iret_def unbound_debug_iret_frames_def print_iret_frame_def
      outcome_simps)

text \<open>
  C30.  The interrupt handlers return.  As long as its counter has not reached the maximum, the timer handler returns
  exactly the frame pointer it was given, so it never switches tasks, after acknowledging the interrupt once at the
  master controller; the exception handler only prints.  Neither changes memory or a descriptor table, nor does
  the diagnostic routine called on the way out.
\<close>

theorem interrupt_handlers_return:
  assumes "TIMER_IRQ_DEBUG_COUNT k < - 1" and "EXCEPTION_DEBUG_COUNT k < - 1"
  shows "outcome_of (unbound_timer_handler p) k
      = Returned p (k\<lparr>TIMER_IRQ_DEBUG_COUNT := TIMER_IRQ_DEBUG_COUNT k + 1, io_ports := end_of_interrupt 0 (io_ports k)\<rparr>)
    \<and> eois (master (end_of_interrupt 0 (io_ports k))) = Suc (eois (master (io_ports k)))
    \<and> outcome_of (unbound_exception_handler p) k = Returned () (k\<lparr>EXCEPTION_DEBUG_COUNT := EXCEPTION_DEBUG_COUNT k + 1\<rparr>)
    \<and> outcome_of (unbound_debug_iret_frame p) k = Returned () k"
proof -
  have add: "padd c 1 = ret (c + 1)" if "c < - 1" for c :: u64
  proof -
    have "unat c < unat (- 1 :: u64)" using that by (simp add: word_less_nat_alt)
    then show ?thesis by (simp add: checked_add_def unsigned_minus_1_eq_mask mask_eq_exp_minus_1)
  qed
  have "outcome_of (unbound_timer_handler p) k
      = Returned p (k\<lparr>TIMER_IRQ_DEBUG_COUNT := TIMER_IRQ_DEBUG_COUNT k + 1, io_ports := end_of_interrupt 0 (io_ports k)\<rparr>)"
    by (simp add: unbound_timer_handler_def outcome_simps add [OF assms(1)] timer_debug_word_def Let_def)
  moreover have "eois (master (end_of_interrupt 0 (io_ports k))) = Suc (eois (master (io_ports k)))"
    by (simp add: end_of_interrupt_def Let_def outb_devices pic_ports pic_command_def)
  moreover have "outcome_of (unbound_exception_handler p) k = Returned () (k\<lparr>EXCEPTION_DEBUG_COUNT := EXCEPTION_DEBUG_COUNT k + 1\<rparr>)"
    by (simp add: unbound_exception_handler_def outcome_simps add [OF assms(2)])
  ultimately show ?thesis using debug_only_prints(1) by blast
qed

text \<open>An interrupt after seven others, with the frame at address \<open>0x9000\<close>.\<close>

definition interrupted_state :: irq_state where
  "interrupted_state = cpu_tables.extend reset_tables
     (irq_state.fields 7 0 7 reset_ports (\<lambda>a. a))"

theorem interrupt_handlers_return_witness:
  "\<exists>k. outcome_of (unbound_timer_handler 0x9000) interrupted_state = Returned 0x9000 k
     \<and> eois (master (io_ports k)) = 1 \<and> EXCEPTION_DEBUG_COUNT k = 0"
proof -
  let ?k = "interrupted_state"
  have "TIMER_IRQ_DEBUG_COUNT ?k = 7" "EXCEPTION_DEBUG_COUNT ?k = 0" "eois (master (io_ports ?k)) = 0"
    by (simp_all add: interrupted_state_def irq_state.defs cpu_tables.defs reset_ports_def Let_def)
  with interrupt_handlers_return [of ?k "0x9000"] show ?thesis
    by (simp add: word_less_nat_alt unsigned_minus_1_eq_mask mask_eq_exp_minus_1)
qed

end
