(* ===== verification/Image_Builder.thy ===== *)
theory Image_Builder
  imports Console
begin

text \<open>
  The tool that builds the disk image, \<open>tools/image-builder/src/main.rs\<close>.  The state is the host: the files \<open>fs::read\<close> finds and
  the errors that creating, writing or flushing the output file will give.  The directory of the crate, a constant of the
  build, is an argument.

  The program succeeds exactly on valid inputs, and the image is then the concatenation of the three padded areas.
\<close>

section \<open>The host\<close>

datatype io_error = HostError nat | InvalidData string

record host =
  files :: "string \<rightharpoonup> u8 list"
  read_error :: io_error
  create_error :: "io_error option"
  write_error :: "(nat \<times> io_error) option"
  flush_error :: "io_error option"

text \<open>The operator \<open>?\<close>: an error returns from the function.\<close>

definition ktry :: "('s, 'e + 'a) kernel \<Rightarrow> ('a \<Rightarrow> ('s, 'e + 'b) kernel) \<Rightarrow> ('s, 'e + 'b) kernel" where
  "ktry m f = kbind m (\<lambda>r. case r of Inl e \<Rightarrow> kret (Inl e) | Inr a \<Rightarrow> f a)"

text \<open>The decimal digits \<open>format!\<close> prints for a number.\<close>

fun decimal :: "nat \<Rightarrow> string" where
  "decimal n = (if n < 10 then [char_of (48 + n)] else decimal (n div 10) @ [char_of (48 + n mod 10)])"

declare decimal.simps [simp del]

definition println :: "string \<Rightarrow> ('s, unit) kernel" where
  "println t = say (t @ [char_of (10 :: nat)])"

definition fs_read :: "string \<Rightarrow> (host, io_error + u8 list) kernel" where
  "fs_read path = kget (\<lambda>h. case files h path of Some bytes \<Rightarrow> Inr bytes | None \<Rightarrow> Inl (read_error h))"

text \<open>Creating a file truncates it; a write that fails has written a prefix.\<close>

definition file_create :: "string \<Rightarrow> (host, io_error + unit) kernel" where
  "file_create path = kstate (\<lambda>h. case create_error h of Some e \<Rightarrow> (Inl e, h) | None \<Rightarrow> (Inr (), h\<lparr>files := (files h)(path \<mapsto> [])\<rparr>))"

definition file_write_all :: "string \<Rightarrow> u8 list \<Rightarrow> (host, io_error + unit) kernel" where
  "file_write_all path bytes = kstate (\<lambda>h. case write_error h of
     Some (n, e) \<Rightarrow> (Inl e, h\<lparr>files := (files h)(path \<mapsto> take n bytes)\<rparr>)
   | None \<Rightarrow> (Inr (), h\<lparr>files := (files h)(path \<mapsto> bytes)\<rparr>))"

definition file_flush :: "(host, io_error + unit) kernel" where
  "file_flush = kget (\<lambda>h. case flush_error h of Some e \<Rightarrow> Inl e | None \<Rightarrow> Inr ())"

section \<open>Constants and paths\<close>

definition SECTOR_SIZE :: usize where "SECTOR_SIZE = 512"
definition STAGE1_SECTORS :: usize where "STAGE1_SECTORS = 1"
definition STAGE2_SECTORS :: usize where "STAGE2_SECTORS = 32"
definition KERNEL_LBA :: usize where "KERNEL_LBA = STAGE1_SECTORS + STAGE2_SECTORS"
definition STAGE2_KERNEL_READ_SECTORS :: usize where "STAGE2_KERNEL_READ_SECTORS = 1024"

definition path_join :: "string \<Rightarrow> string \<Rightarrow> string" where
  "path_join a b = a @ ''/'' @ b"

definition project_root :: "string \<Rightarrow> string" where "project_root dir = path_join dir ''../..''"
definition stage1_path :: "string \<Rightarrow> string" where "stage1_path dir = path_join (project_root dir) ''boot/stage1/stage1.bin''"
definition stage2_path :: "string \<Rightarrow> string" where "stage2_path dir = path_join (project_root dir) ''boot/stage2/stage2.bin''"
definition kernel_path :: "string \<Rightarrow> string" where "kernel_path dir = path_join (project_root dir) ''target/unbound-kernel-stripped.elf''"
definition output_path :: "string \<Rightarrow> string" where "output_path dir = path_join (project_root dir) ''target/unbound-os.img''"

definition read_file :: "string \<Rightarrow> (host, io_error + u8 list) kernel" where
  "read_file path = fs_read path"

section \<open>The program\<close>

text \<open>Reading and checking the inputs.\<close>

definition check_stage1 :: "u8 list \<Rightarrow> (io_error + unit) run" where
  "check_stage1 stage1 = (
     if length stage1 \<noteq> STAGE1_SECTORS * SECTOR_SIZE
     then ret (Inl (InvalidData (''Stage 1 must be exactly '' @ decimal (STAGE1_SECTORS * SECTOR_SIZE) @ '' bytes, got '' @ decimal (length stage1))))
     else do {
       a \<leftarrow> arr_get stage1 510;
       b \<leftarrow> (if a \<noteq> 0x55 then ret a else arr_get stage1 511);
       ret (if a \<noteq> 0x55 \<or> b \<noteq> 0xAA then Inl (InvalidData ''Stage 1 is missing BIOS boot signature 0x55AA'') else Inr ()) })"

definition check_stage2 :: "u8 list \<Rightarrow> io_error + unit" where
  "check_stage2 stage2 = (let stage2_capacity = STAGE2_SECTORS * SECTOR_SIZE in
     if length stage2 > stage2_capacity
     then Inl (InvalidData (''Stage 2 is too large: '' @ decimal (length stage2) @ '' bytes, maximum '' @ decimal stage2_capacity @ '' bytes''))
     else Inr ())"

definition kernel_sectors :: "u8 list \<Rightarrow> usize run" where
  "kernel_sectors elf = do {
     n \<leftarrow> usize_add (length elf) SECTOR_SIZE;
     n \<leftarrow> usize_sub n 1;
     ret (n div SECTOR_SIZE) }"

definition check_kernel :: "usize \<Rightarrow> io_error + unit" where
  "check_kernel actual_kernel_sectors = (
     if actual_kernel_sectors = 0 then Inl (InvalidData ''Kernel ELF is empty'')
     else if actual_kernel_sectors > STAGE2_KERNEL_READ_SECTORS
     then Inl (InvalidData (''Kernel is too large for current Stage 2: '' @ decimal actual_kernel_sectors @ '' sectors, maximum ''
       @ decimal STAGE2_KERNEL_READ_SECTORS @ '' sectors''))
     else Inr ())"

text \<open>\<open>image[offset..offset + source.len()].copy_from_slice(source)\<close>.\<close>

definition copy_from_slice :: "u8 list \<Rightarrow> usize \<Rightarrow> u8 list \<Rightarrow> u8 list run" where
  "copy_from_slice img offset source = do {
     stop \<leftarrow> usize_add offset (length source);
     if length img < stop then panic else ret (take offset img @ source @ drop stop img) }"

definition image_kernel_bytes :: usize where
  "image_kernel_bytes = STAGE2_KERNEL_READ_SECTORS * SECTOR_SIZE"

definition image_size :: usize where
  "image_size = (KERNEL_LBA + STAGE2_KERNEL_READ_SECTORS) * SECTOR_SIZE"

definition build_image :: "u8 list \<Rightarrow> u8 list \<Rightarrow> u8 list \<Rightarrow> u8 list run" where
  "build_image stage1 stage2 elf = do {
     let img = replicate image_size 0;
     img \<leftarrow> copy_from_slice img ((STAGE1_SECTORS - 1) * SECTOR_SIZE) stage1;
     img \<leftarrow> copy_from_slice img (STAGE1_SECTORS * SECTOR_SIZE) stage2;
     copy_from_slice img (KERNEL_LBA * SECTOR_SIZE) elf }"

definition krun_pure :: "'a run \<Rightarrow> ('s, 'a) kernel" where
  "krun_pure r = krun (\<lambda>s. map_option (\<lambda>a. (a, s)) r)"

definition print_layout :: "(host, unit) kernel" where
  "print_layout = kblock [
     println [],
     println ''Disk layout:'',
     println ''  Stage 1 LBA:       0'',
     println (''  Stage 2 LBA:       1-'' @ decimal STAGE2_SECTORS),
     println (''  Kernel LBA:        '' @ decimal KERNEL_LBA),
     println (''  Kernel sectors:    '' @ decimal STAGE2_KERNEL_READ_SECTORS),
     println (''  Kernel capacity:   '' @ decimal image_kernel_bytes @ '' bytes''),
     println (''  Image size:        '' @ decimal image_size @ '' bytes''),
     println []]"

definition print_summary :: "string \<Rightarrow> usize \<Rightarrow> u8 list \<Rightarrow> u8 list \<Rightarrow> (host, unit) kernel" where
  "print_summary output actual_kernel_sectors elf img = kblock [
     println (''Actual kernel sectors: '' @ decimal actual_kernel_sectors),
     println (''Stage 2 read sectors:  '' @ decimal STAGE2_KERNEL_READ_SECTORS),
     println (''Kernel capacity:       '' @ decimal STAGE2_KERNEL_READ_SECTORS @ '' sectors''),
     println (''Kernel unused space:   '' @ decimal (image_kernel_bytes - length elf) @ '' bytes''),
     println [],
     println (map char_of [0xE2, 0x9C, 0x93 :: nat] @ '' Image created:''),
     println (''  '' @ output),
     println (''  '' @ decimal (length img) @ '' bytes''),
     println []]"

definition write_image :: "string \<Rightarrow> u8 list \<Rightarrow> u8 list \<Rightarrow> u8 list \<Rightarrow> usize \<Rightarrow> (host, io_error + unit) kernel" where
  "write_image output stage1 stage2 elf actual_kernel_sectors =
     kbind print_layout (\<lambda>_.
     kbind (krun_pure (build_image stage1 stage2 elf)) (\<lambda>img.
     ktry (file_create output) (\<lambda>_.
     ktry (file_write_all output img) (\<lambda>_.
     ktry file_flush (\<lambda>_.
     kbind (print_summary output actual_kernel_sectors elf img) (\<lambda>_. kret (Inr ())))))))"

definition image_builder_main :: "string \<Rightarrow> (host, io_error + unit) kernel" where
  "image_builder_main dir =
     kbind (kblock [
       println ''========================================'', println ''        UNBOUND OS IMAGE BUILDER'',
       println ''========================================'', println []]) (\<lambda>_.
     ktry (read_file (stage1_path dir)) (\<lambda>stage1.
     kbind (println (''Stage 1: '' @ decimal (length stage1) @ '' bytes'')) (\<lambda>_.
     ktry (krun_pure (check_stage1 stage1)) (\<lambda>_.
     ktry (read_file (stage2_path dir)) (\<lambda>stage2.
     kbind (println (''Stage 2: '' @ decimal (length stage2) @ '' bytes'')) (\<lambda>_.
     ktry (kret (check_stage2 stage2)) (\<lambda>_.
     ktry (read_file (kernel_path dir)) (\<lambda>elf.
     kbind (println (''Kernel ELF: '' @ decimal (length elf) @ '' bytes'')) (\<lambda>_.
     kbind (krun_pure (kernel_sectors elf)) (\<lambda>actual_kernel_sectors.
     ktry (kret (check_kernel actual_kernel_sectors)) (\<lambda>_.
     write_image (output_path dir) stage1 stage2 elf actual_kernel_sectors)))))))))))"

section \<open>The image\<close>

text \<open>Inputs that fit, and the image of them: three areas, the last two padded with zeros.\<close>

definition inputs_valid :: "u8 list \<Rightarrow> u8 list \<Rightarrow> u8 list \<Rightarrow> bool" where
  "inputs_valid stage1 stage2 elf \<longleftrightarrow> length stage1 = 512 \<and> stage1 ! 510 = 0x55 \<and> stage1 ! 511 = 0xAA
     \<and> length stage2 \<le> 32 * 512 \<and> 0 < length elf \<and> length elf \<le> 1024 * 512"

definition padded :: "nat \<Rightarrow> u8 list \<Rightarrow> u8 list" where
  "padded n bs = bs @ replicate (n - length bs) 0"

definition disk_image :: "u8 list \<Rightarrow> u8 list \<Rightarrow> u8 list \<Rightarrow> u8 list" where
  "disk_image stage1 stage2 elf = stage1 @ padded (32 * 512) stage2 @ padded (1024 * 512) elf"

lemmas image_constants = SECTOR_SIZE_def STAGE1_SECTORS_def STAGE2_SECTORS_def KERNEL_LBA_def STAGE2_KERNEL_READ_SECTORS_def
  image_size_def image_kernel_bytes_def

lemma length_padded: "length bs \<le> n \<Longrightarrow> length (padded n bs) = n"
  by (simp add: padded_def)

lemma copy_area:
  assumes "length bs \<le> n" and "length pre + N < 2 ^ 64" and "off = length pre" and "N = n + m"
  shows "copy_from_slice (pre @ replicate N 0) off bs = ret ((pre @ padded n bs) @ replicate m 0)"
proof -
  have "N - length bs = (n - length bs) + m" using assms(1,4) by simp
  then have "replicate (N - length bs) (0 :: u8) = replicate (n - length bs) 0 @ replicate m 0" by (simp only: replicate_add)
  then show ?thesis using assms by (simp add: copy_from_slice_def padded_def usize_add_def)
qed

lemma build_image_exact:
  assumes "inputs_valid stage1 stage2 elf"
  shows "build_image stage1 stage2 elf = ret (disk_image stage1 stage2 elf)"
proof -
  let ?p2 = "padded (32 * 512) stage2" let ?p3 = "padded (1024 * 512) elf"
  have l: "length stage1 = 512" "length stage2 \<le> 32 * 512" "length elf \<le> 1024 * 512" using assms by (simp_all add: inputs_valid_def)
  have p1: "padded 512 stage1 = stage1" using l(1) by (simp add: padded_def)
  have 1: "copy_from_slice (replicate image_size 0) 0 stage1 = ret (stage1 @ replicate (32 * 512 + 1024 * 512) 0)"
    using copy_area [of stage1 512 "[]" image_size 0 "32 * 512 + 1024 * 512"] l(1) unfolding p1 append_Nil
    by (simp only: list.size image_constants) simp
  have 2: "copy_from_slice (stage1 @ replicate (32 * 512 + 1024 * 512) 0) 512 stage2 = ret ((stage1 @ ?p2) @ replicate (1024 * 512) 0)"
    using l by (intro copy_area) (simp_all only:, simp_all)
  have p2: "length (stage1 @ ?p2) = 33 * 512" using l by (simp add: length_padded)
  have 3: "copy_from_slice ((stage1 @ ?p2) @ replicate (1024 * 512) 0) (33 * 512) elf = ret (((stage1 @ ?p2) @ ?p3) @ replicate 0 0)"
    using l p2 by (intro copy_area) (simp_all only:, simp_all)
  have c: "(STAGE1_SECTORS - 1) * SECTOR_SIZE = 0" "STAGE1_SECTORS * SECTOR_SIZE = 512" "KERNEL_LBA * SECTOR_SIZE = 33 * 512"
    by (simp_all add: image_constants)
  show ?thesis
    unfolding build_image_def Let_def c 1 2 disk_image_def Option.bind.bind_lunit 3 unfolding replicate_0 append_Nil2 append_assoc ..
qed

text \<open>What each check accepts.\<close>

lemma check_stage1_exact:
  "\<exists>r. check_stage1 stage1 = ret r \<and> (r = Inr () \<longleftrightarrow> length stage1 = 512 \<and> stage1 ! 510 = 0x55 \<and> stage1 ! 511 = 0xAA)"
  by (auto simp: check_stage1_def image_constants arr_get_def)

lemma check_stage2_exact: "check_stage2 stage2 = Inr () \<longleftrightarrow> length stage2 \<le> 16384"
  by (auto simp: check_stage2_def image_constants Let_def)

lemma check_kernel_exact:
  assumes "length elf < 2 ^ 63"
  shows "\<exists>n. kernel_sectors elf = ret n \<and> (check_kernel n = Inr () \<longleftrightarrow> 0 < length elf \<and> length elf \<le> 524288)"
proof -
  have "kernel_sectors elf = ret ((length elf + 511) div 512)"
    using assms by (simp add: kernel_sectors_def usize_add_def usize_sub_def image_constants)
  moreover have "check_kernel ((length elf + 511) div 512) = Inr () \<longleftrightarrow> 0 < length elf \<and> length elf \<le> 524288"
    unfolding check_kernel_def image_constants by (auto simp: div_le_mono div_eq_0_iff)
  ultimately show ?thesis by blast
qed

section \<open>Outcomes\<close>

lemma outcome_ktry [outcome_simps]:
  "outcome_of (ktry m f) s = (case outcome_of m s of Returned r s' \<Rightarrow> (case r of Inl e \<Rightarrow> Returned (Inl e) s' | Inr a \<Rightarrow> outcome_of (f a) s')
     | Halted s' \<Rightarrow> Halted s' | Panicked s' \<Rightarrow> Panicked s')"
  by (simp add: ktry_def outcome_simps split: outcome.splits sum.splits)

lemma outcome_host [outcome_simps]:
  "outcome_of (println t) h = Returned () h"
  "outcome_of (krun_pure r) h = (case r of None \<Rightarrow> Panicked h | Some a \<Rightarrow> Returned a h)"
  "outcome_of print_layout h' = Returned () h'" "outcome_of (print_summary output n elf img) h' = Returned () h'"
  by (simp_all add: println_def krun_pure_def print_layout_def print_summary_def outcome_simps split: option.splits)

text \<open>The three inputs, when all can be read.\<close>

definition inputs_ready :: "string \<Rightarrow> host \<Rightarrow> bool" where
  "inputs_ready dir h \<longleftrightarrow> (case (files h (stage1_path dir), files h (stage2_path dir), files h (kernel_path dir)) of
     (Some stage1, Some stage2, Some elf) \<Rightarrow> inputs_valid stage1 stage2 elf | _ \<Rightarrow> False)"

definition image_of_inputs :: "string \<Rightarrow> host \<Rightarrow> u8 list" where
  "image_of_inputs dir h = disk_image (the (files h (stage1_path dir))) (the (files h (stage2_path dir))) (the (files h (kernel_path dir)))"

text \<open>The lengths of vectors are bounded by \<open>isize::MAX\<close>.\<close>

definition vectors_ok :: "host \<Rightarrow> bool" where
  "vectors_ok h \<longleftrightarrow> (\<forall>path bytes. files h path = Some bytes \<longrightarrow> length bytes < 2 ^ 63)"

lemma write_image_outcome:
  assumes "inputs_valid stage1 stage2 elf"
  shows "outcome_of (write_image output stage1 stage2 elf n) h = (case create_error h of
     Some e \<Rightarrow> Returned (Inl e) h
   | None \<Rightarrow> (case write_error h of
       Some (k, e) \<Rightarrow> Returned (Inl e) (h\<lparr>files := (files h)(output \<mapsto> take k (disk_image stage1 stage2 elf))\<rparr>)
     | None \<Rightarrow> Returned (case flush_error h of Some e \<Rightarrow> Inl e | None \<Rightarrow> Inr ())
         (h\<lparr>files := (files h)(output \<mapsto> disk_image stage1 stage2 elf)\<rparr>)))"
  by (simp add: write_image_def outcome_simps build_image_exact [OF assms] file_create_def file_write_all_def file_flush_def
      split: option.splits)

lemma image_builder_refuses:
  assumes "vectors_ok h" and "\<not> inputs_ready dir h"
  shows "\<exists>e. outcome_of (image_builder_main dir) h = Returned (Inl e) h"
proof (cases "files h (stage1_path dir)")
  case None
  then show ?thesis by (simp add: image_builder_main_def outcome_simps read_file_def fs_read_def)
next
  case (Some stage1)
  note s1 = Some
  obtain r1 where r1: "check_stage1 stage1 = ret r1" "r1 = Inr () \<longleftrightarrow> length stage1 = 512 \<and> stage1 ! 510 = 0x55 \<and> stage1 ! 511 = 0xAA"
    using check_stage1_exact by blast
  show ?thesis
  proof (cases "files h (stage2_path dir)")
    case None
    then show ?thesis using s1 r1(1) by (cases r1) (simp_all add: image_builder_main_def outcome_simps read_file_def fs_read_def)
  next
    case (Some stage2)
    note s2 = Some
    show ?thesis
    proof (cases "files h (kernel_path dir)")
      case None
      then show ?thesis
        using s1 r1(1) s2 by (cases r1; cases "check_stage2 stage2") (simp_all add: image_builder_main_def outcome_simps read_file_def fs_read_def)
    next
      case (Some elf)
      then have "length elf < 2 ^ 63" using assms(1) by (simp add: vectors_ok_def)
      then obtain n where n: "kernel_sectors elf = ret n" "check_kernel n = Inr () \<longleftrightarrow> 0 < length elf \<and> length elf \<le> 524288"
        using check_kernel_exact by blast
      have "r1 \<noteq> Inr () \<or> check_stage2 stage2 \<noteq> Inr () \<or> check_kernel n \<noteq> Inr ()"
        using assms(2) s1 s2 Some r1(2) n(2) by (auto simp: inputs_ready_def inputs_valid_def check_stage2_exact)
      then show ?thesis
        using s1 r1(1) s2 Some n(1) by (cases r1; cases "check_stage2 stage2"; cases "check_kernel n")
          (auto simp: image_builder_main_def outcome_simps read_file_def fs_read_def)
    qed
  qed
qed

lemma image_builder_accepts:
  assumes "vectors_ok h" and "inputs_ready dir h"
  shows "outcome_of (image_builder_main dir) h = (case create_error h of
     Some e \<Rightarrow> Returned (Inl e) h
   | None \<Rightarrow> (case write_error h of
       Some (k, e) \<Rightarrow> Returned (Inl e) (h\<lparr>files := (files h)(output_path dir \<mapsto> take k (image_of_inputs dir h))\<rparr>)
     | None \<Rightarrow> Returned (case flush_error h of Some e \<Rightarrow> Inl e | None \<Rightarrow> Inr ())
         (h\<lparr>files := (files h)(output_path dir \<mapsto> image_of_inputs dir h)\<rparr>)))"
proof -
  obtain stage1 stage2 elf where f: "files h (stage1_path dir) = Some stage1" "files h (stage2_path dir) = Some stage2"
      "files h (kernel_path dir) = Some elf" "inputs_valid stage1 stage2 elf"
    using assms(2) by (auto simp: inputs_ready_def split: option.splits)
  then have "length elf < 2 ^ 63" using assms(1) by (simp add: vectors_ok_def)
  then obtain n where n: "kernel_sectors elf = ret n" "check_kernel n = Inr ()"
    using check_kernel_exact [of elf] f(4) by (auto simp: inputs_valid_def)
  have "check_stage1 stage1 = ret (Inr ())" "check_stage2 stage2 = Inr ()"
    using check_stage1_exact [of stage1] check_stage2_exact [of stage2] f(4) by (auto simp: inputs_valid_def)
  then have "outcome_of (image_builder_main dir) h = outcome_of (write_image (output_path dir) stage1 stage2 elf n) h"
    using f n by (simp add: image_builder_main_def outcome_simps read_file_def fs_read_def)
  then show ?thesis unfolding write_image_outcome [OF f(4)] image_of_inputs_def f(1-3) option.sel .
qed

section \<open>Properties\<close>

text \<open>
  C36.  The image builder never panics and succeeds exactly when all three inputs can be read and fit their areas, stage 1 ends with
  the boot signature and the host reports no error.  The image it leaves is then stage 1 in sector 0, stage 2 in sectors 1
  to 32 and the kernel in sectors 33 to 1056, each padded with zeros.  Invalid inputs leave every file as it was, and no
  file but the image is ever changed.
\<close>

theorem image_builder_exact:
  assumes "vectors_ok h"
  shows "\<exists>r h'. outcome_of (image_builder_main dir) h = Returned r h'
    \<and> (r = Inr () \<longleftrightarrow> inputs_ready dir h \<and> create_error h = None \<and> write_error h = None \<and> flush_error h = None)
    \<and> (r = Inr () \<longrightarrow> files h' (output_path dir) = Some (image_of_inputs dir h))
    \<and> (inputs_ready dir h \<or> h' = h)
    \<and> (\<forall>path. path \<noteq> output_path dir \<longrightarrow> files h' path = files h path)"
proof (cases "inputs_ready dir h")
  case True
  show ?thesis unfolding image_builder_accepts [OF assms True] using True by (auto split: option.splits)
next
  case False
  then show ?thesis using image_builder_refuses [OF assms False] by auto
qed

text \<open>A host with the smallest inputs that are accepted.\<close>

definition small_stage1 :: "u8 list" where
  "small_stage1 = replicate 510 0 @ [0x55, 0xAA]"

definition small_host :: host where
  "small_host = \<lparr>files = [stage1_path ''w'' \<mapsto> small_stage1, stage2_path ''w'' \<mapsto> [0xFA], kernel_path ''w'' \<mapsto> [0x7F, 0x45]],
     read_error = HostError 2, create_error = None, write_error = None, flush_error = None\<rparr>"

lemma small_host_files:
  "files small_host (stage1_path ''w'') = Some small_stage1" "files small_host (stage2_path ''w'') = Some [0xFA]"
  "files small_host (kernel_path ''w'') = Some [0x7F, 0x45]"
  by (simp_all add: small_host_def stage1_path_def stage2_path_def kernel_path_def path_join_def)

lemma small_stage1_valid: "length small_stage1 = 512" "small_stage1 ! 510 = 0x55" "small_stage1 ! 511 = 0xAA"
  by (simp_all add: small_stage1_def nth_append)

lemma small_host_vectors: "vectors_ok small_host"
  using small_stage1_valid(1) by (auto simp: vectors_ok_def small_host_def split: if_splits)

lemma small_host_ready: "inputs_ready ''w'' small_host" "image_of_inputs ''w'' small_host = disk_image small_stage1 [0xFA] [0x7F, 0x45]"
  using small_stage1_valid by (simp_all add: inputs_ready_def small_host_files inputs_valid_def image_of_inputs_def)

lemma small_host_errors: "create_error small_host = None" "write_error small_host = None" "flush_error small_host = None"
  by (simp_all add: small_host_def)

lemma small_host_runs:
  "\<exists>h'. outcome_of (image_builder_main ''w'') small_host = Returned (Inr ()) h'
     \<and> files h' (output_path ''w'') = Some (disk_image small_stage1 [0xFA] [0x7F, 0x45])"
  using image_builder_accepts [OF small_host_vectors small_host_ready(1)] by (simp add: small_host_errors small_host_ready(2))

theorem image_builder_exact_witness:
  "vectors_ok small_host \<and> (\<exists>h'. outcome_of (image_builder_main ''w'') small_host = Returned (Inr ()) h'
     \<and> files h' (output_path ''w'') = Some (disk_image small_stage1 [0xFA] [0x7F, 0x45]))"
  using image_builder_exact [OF small_host_vectors, of "''w''"] small_host_vectors small_host_ready small_host_errors by metis

end
