(* ===== verification/Loader.thy ===== *)
theory Loader
  imports Image_Builder Frame_Allocator
begin

text \<open>
  The boot loader before long mode: stage 1 (\<open>boot/stage1/boot.asm\<close>) and, of stage 2 (\<open>boot/stage2/stage2.asm\<close>), the loop
  that reads the kernel from disk and the loop that collects the memory map.

  Memory is a function from physical addresses to bytes.  The variables of the two programs are fields of the state, not
  bytes of that memory, and the stack, which both keep below \<open>0x8000\<close>, is left out; the statements speak of the memory from
  \<open>0x8000\<close> on.  The firmware is a parameter with a state of its own.  What is used of it is what is documented of the
  two calls: an extended read without carry has put the sectors of the packet at its address (\<open>disk_bios\<close>), and the memory-map
  call delivers one entry after the other (\<open>e820_bios\<close>).
\<close>

section \<open>Physical memory\<close>

type_synonym ram = "nat \<Rightarrow> u8"

definition write_bytes :: "nat \<Rightarrow> u8 list \<Rightarrow> ram \<Rightarrow> ram" where
  "write_bytes a bs m = (\<lambda>x. if a \<le> x \<and> x < a + length bs then bs ! (x - a) else m x)"

text \<open>A little-endian number of \<open>n\<close> bytes.\<close>

fun le_nat :: "ram \<Rightarrow> nat \<Rightarrow> nat \<Rightarrow> nat" where
  "le_nat m a 0 = 0"
| "le_nat m a (Suc n) = unat (m a) + 256 * le_nat m (a + 1) n"

fun le_list :: "nat \<Rightarrow> nat \<Rightarrow> u8 list" where
  "le_list 0 v = []"
| "le_list (Suc n) v = of_nat (v mod 256) # le_list n (v div 256)"

lemma length_le_list [simp]: "length (le_list n v) = n"
  by (induction n arbitrary: v) auto

lemma write_bytes_outside: "x < a \<or> a + length bs \<le> x \<Longrightarrow> write_bytes a bs m x = m x"
  by (auto simp: write_bytes_def)

lemma write_bytes_inside: "i < length bs \<Longrightarrow> write_bytes a bs m (a + i) = bs ! i"
  by (simp add: write_bytes_def)

lemma write_bytes_Nil [simp]: "write_bytes a [] m = m"
  by (auto simp: write_bytes_def fun_eq_iff)

lemma write_bytes_append: "write_bytes a (bs @ cs) m = write_bytes (a + length bs) cs (write_bytes a bs m)"
  by (rule ext) (auto simp: write_bytes_def nth_append diff_diff_eq)

lemma le_nat_cong: "(\<And>i. i < n \<Longrightarrow> m (a + i) = m' (b + i)) \<Longrightarrow> le_nat m a n = le_nat m' b n"
proof (induction n arbitrary: a b)
  case (Suc n)
  have "m (a + 1 + i) = m' (b + 1 + i)" if "i < n" for i using Suc.prems [of "Suc i"] that by simp
  then have "le_nat m (a + 1) n = le_nat m' (b + 1) n" by (rule Suc.IH)
  then show ?case using Suc.prems [of 0] by simp
qed simp

lemma le_nat_le_list:
  assumes "\<And>i. i < n \<Longrightarrow> m (a + i) = le_list n v ! i" and "v < 256 ^ n"
  shows "le_nat m a n = v"
  using assms
proof (induction n arbitrary: a v)
  case (Suc n)
  have "m (a + 1 + i) = le_list n (v div 256) ! i" if "i < n" for i using Suc.prems(1) [of "Suc i"] that by simp
  then have "le_nat m (a + 1) n = v div 256" using Suc.prems(2) by (intro Suc.IH) (simp_all add: less_mult_imp_div_less)
  moreover have "unat (m a) = v mod 256" using Suc.prems(1) [of 0] by (simp add: unat_of_nat_small)
  ultimately show ?case by simp
qed simp

section \<open>Firmware\<close>

text \<open>The disk address packet of \<open>INT 13h\<close>, function \<open>42h\<close>.\<close>

record dap =
  dap_count :: u16
  dap_offset :: u16
  dap_segment :: u16
  dap_lba_low :: u32
  dap_lba_high :: u32

definition dap_address :: "dap \<Rightarrow> nat" where
  "dap_address d = 16 * unat (dap_segment d) + unat (dap_offset d)"

definition dap_lba :: "dap \<Rightarrow> nat" where
  "dap_lba d = unat (dap_lba_low d) + 2 ^ 32 * unat (dap_lba_high d)"

text \<open>What \<open>INT 15h\<close>, function \<open>E820h\<close>, leaves in the carry flag and the registers.\<close>

record e820_result =
  e820_cf :: bool
  e820_eax :: u32
  e820_ebx :: u32
  e820_ecx :: u32

record 'b bios =
  int13 :: "u8 \<Rightarrow> dap \<Rightarrow> 'b \<times> ram \<Rightarrow> bool \<times> 'b \<times> ram"
  int15 :: "u32 \<Rightarrow> u32 \<Rightarrow> u32 \<Rightarrow> u32 \<Rightarrow> nat \<Rightarrow> 'b \<times> ram \<Rightarrow> e820_result \<times> 'b \<times> ram"

text \<open>The state of both stages: memory, firmware, the bytes written to the ports of the serial line, their variables and the control registers.\<close>

record 'b loader =
  l_ram :: ram
  firmware :: 'b
  ports :: "(u16 \<times> u8) list"
  stage1_boot_drive :: u8
  stage2_boot_drive :: u8
  kernel_remaining :: u16
  kernel_current_chunk :: u16
  kernel_destination_segment :: u16
  kernel_current_lba_low :: u32
  kernel_current_lba_high :: u32
  kernel_dap :: dap
  e820_count :: u16
  memory_map_error_code :: u8
  control_0 :: u32
  control_3 :: u32
  control_4 :: u32
  efer :: u64
  port_92 :: u8


definition disk_read :: "'b bios \<Rightarrow> u8 \<Rightarrow> dap \<Rightarrow> 'b loader \<Rightarrow> bool \<times> 'b loader" where
  "disk_read B drive d s = (case int13 B drive d (firmware s, l_ram s) of (cf, b, m) \<Rightarrow> (cf, s\<lparr>firmware := b, l_ram := m\<rparr>))"

section \<open>Stage 1\<close>




section \<open>Reading the kernel\<close>

definition kernel_max_sectors :: u16 where "kernel_max_sectors = 1024"
definition kernel_read_chunk :: u16 where "kernel_read_chunk = 32"

text \<open>The body of the loop before the call and after it.\<close>

definition prepare_chunk :: "'b loader \<Rightarrow> 'b loader" where
  "prepare_chunk s = (
     let ax = (if kernel_remaining s \<le> kernel_read_chunk then kernel_remaining s else kernel_read_chunk);
         s = s\<lparr>kernel_current_chunk := ax\<rparr>
     in s\<lparr>kernel_dap := \<lparr>dap_count = ax, dap_offset = 0, dap_segment = kernel_destination_segment s,
          dap_lba_low = kernel_current_lba_low s, dap_lba_high = kernel_current_lba_high s\<rparr>\<rparr>)"

definition advance_chunk :: "'b loader \<Rightarrow> 'b loader" where
  "advance_chunk s = (
     let s = s\<lparr>kernel_remaining := kernel_remaining s - kernel_current_chunk s\<rparr>;
         edx = ucast (kernel_current_chunk s);
         low = kernel_current_lba_low s + edx;
         carry = (if low < edx then 1 else 0);
         s = s\<lparr>kernel_current_lba_low := low, kernel_current_lba_high := kernel_current_lba_high s + carry\<rparr>
     in s\<lparr>kernel_destination_segment := kernel_destination_segment s + push_bit 5 (kernel_current_chunk s)\<rparr>)"

lemma chunk_decreases:
  "0 < r \<Longrightarrow> r \<le> k \<or> 0 < k \<Longrightarrow> unat (r - (if r \<le> k then r else k)) < unat r" for r k :: "'a::len word"
  by (auto simp: unat_sub word_less_nat_alt word_le_nat_alt)

function load_next_chunk :: "'b bios \<Rightarrow> 'b loader \<Rightarrow> bool \<times> 'b loader" where
  "load_next_chunk B s = (
     if kernel_remaining s = 0 then (False, s)
     else let s' = prepare_chunk s in
       case disk_read B (stage2_boot_drive s') (kernel_dap s') s' of (cf, s') \<Rightarrow>
         if cf then (True, s') else load_next_chunk B (advance_chunk s'))"
  by pat_completeness auto

termination
proof (relation "measure (\<lambda>(B, s). unat (kernel_remaining s))", simp, clarify)
  fix s s' :: "'b loader" and B :: "'b bios" and cf
  assume nz: "kernel_remaining s \<noteq> 0" and read: "(cf, s') = disk_read B (stage2_boot_drive (prepare_chunk s)) (kernel_dap (prepare_chunk s)) (prepare_chunk s)"
  have "kernel_remaining s' = kernel_remaining s"
    "kernel_current_chunk s' = (if kernel_remaining s \<le> kernel_read_chunk then kernel_remaining s else kernel_read_chunk)"
    using read by (auto simp: disk_read_def prepare_chunk_def Let_def split: prod.splits)
  then show "((B, advance_chunk s'), B, s) \<in> measure (\<lambda>(B, s). unat (kernel_remaining s))"
    using chunk_decreases [of "kernel_remaining s" kernel_read_chunk] nz
    by (simp add: advance_chunk_def Let_def kernel_read_chunk_def word_neq_0_conv)
qed

declare load_next_chunk.simps [simp del]

definition load_kernel :: "'b bios \<Rightarrow> 'b loader \<Rightarrow> bool \<times> 'b loader" where
  "load_kernel B s = load_next_chunk B (s\<lparr>kernel_remaining := kernel_max_sectors, kernel_destination_segment := 0x2000,
     kernel_current_lba_low := 33, kernel_current_lba_high := 0\<rparr>)"

section \<open>Collecting the memory map\<close>

lemma e820_count_rises: "si < 128 \<Longrightarrow> 128 - unat (si + 1) < 128 - unat si" for si :: u16
  by (simp add: unat_word_ariths word_less_nat_alt)

text \<open>The loop, with the registers \<open>EBX\<close>, \<open>SI\<close> and \<open>DI\<close>.  It ends with the code of an error or with the count.\<close>

function e820_next :: "'b bios \<Rightarrow> u32 \<Rightarrow> u16 \<Rightarrow> u16 \<Rightarrow> 'b loader \<Rightarrow> (u8 + u16) \<times> 'b loader" where
  "e820_next B ebx si di s = (
     if 128 \<le> si then (Inr si, s)
     else let dest = 16 * 0x6000 + unat di;
              m = write_bytes (16 * 0x6000 + unat (di + 20)) (le_list 4 1) (l_ram s) in
       case int15 B 0xE820 ebx 24 0x534D4150 dest (firmware s, m) of (r, b, m) \<Rightarrow>
         let s = s\<lparr>firmware := b, l_ram := m\<rparr> in
         if e820_cf r then (Inl 1, s)
         else if e820_eax r \<noteq> 0x534D4150 then (Inl 2, s)
         else if e820_ecx r < 20 then (Inl 3, s)
         else let si = si + 1; di = di + 24 in
           if e820_ebx r = 0 then (Inr si, s) else e820_next B (e820_ebx r) si di s)"
  by pat_completeness auto

termination
  by (relation "measure (\<lambda>(B, ebx, si, di, s). 128 - unat si)") (simp_all add: e820_count_rises not_le)

declare e820_next.simps [simp del]

definition detect_memory_map :: "'b bios \<Rightarrow> 'b loader \<Rightarrow> bool \<times> 'b loader" where
  "detect_memory_map B s = (case e820_next B 0 0 0 s of
     (Inr si, s) \<Rightarrow> (False, s\<lparr>e820_count := si\<rparr>)
   | (Inl code, s) \<Rightarrow> (True, s\<lparr>memory_map_error_code := code, e820_count := 0\<rparr>))"

section \<open>The documented firmware\<close>

text \<open>Memory from the end of the stacks on.\<close>

definition same_ram :: "ram \<Rightarrow> ram \<Rightarrow> bool" where
  "same_ram m m' \<longleftrightarrow> (\<forall>x \<ge> 0x8000. m x = m' x)"

definition sectors :: "u8 list \<Rightarrow> nat \<Rightarrow> nat \<Rightarrow> u8 list" where
  "sectors disk lba n = take (512 * n) (drop (512 * lba) disk)"

definition disk_bios :: "'b bios \<Rightarrow> u8 \<Rightarrow> u8 list \<Rightarrow> bool" where
  "disk_bios B drive disk \<longleftrightarrow> (\<forall>d b m b' m'. 512 * (dap_lba d + unat (dap_count d)) \<le> length disk \<longrightarrow>
     int13 B drive d (b, m) = (False, b', m') \<longrightarrow>
     same_ram m' (write_bytes (dap_address d) (sectors disk (dap_lba d) (unat (dap_count d))) m))"

definition disk_works :: "'b bios \<Rightarrow> u8 \<Rightarrow> u8 list \<Rightarrow> bool" where
  "disk_works B drive disk \<longleftrightarrow> (\<forall>d s. 512 * (dap_lba d + unat (dap_count d)) \<le> length disk \<longrightarrow> \<not> fst (int13 B drive d s))"

lemma same_ram_refl [simp]: "same_ram m m"
  by (simp add: same_ram_def)

lemma same_ram_trans: "same_ram m m' \<Longrightarrow> same_ram m' m'' \<Longrightarrow> same_ram m m''"
  by (simp add: same_ram_def)

lemma same_ram_write: "same_ram m m' \<Longrightarrow> same_ram (write_bytes a bs m) (write_bytes a bs m')"
  by (simp add: same_ram_def write_bytes_def)

lemma length_sectors: "512 * (lba + n) \<le> length disk \<Longrightarrow> length (sectors disk lba n) = 512 * n"
  by (simp add: sectors_def)

lemma sectors_add: "sectors disk lba (n + k) = sectors disk lba n @ sectors disk (lba + n) k"
  by (simp add: sectors_def take_add drop_drop distrib_left add.commute [of "512 * n" "512 * lba"])

section \<open>The kernel is read\<close>

text \<open>The state of the loop when \<open>k\<close> chunks are left.\<close>

definition chunks_left :: "nat \<Rightarrow> 'b loader \<Rightarrow> bool" where
  "chunks_left k s \<longleftrightarrow> k \<le> 32 \<and> unat (kernel_remaining s) = 32 * k \<and> unat (kernel_destination_segment s) = 0x2000 + 0x400 * (32 - k)
     \<and> unat (kernel_current_lba_low s) = 33 + 32 * (32 - k) \<and> kernel_current_lba_high s = 0"

lemma prepare_chunk_full:
  assumes "chunks_left (Suc k) s"
  shows "unat (kernel_current_chunk (prepare_chunk s)) = 32" and "unat (dap_count (kernel_dap (prepare_chunk s))) = 32"
    and "dap_lba (kernel_dap (prepare_chunk s)) = 33 + 32 * (31 - k)" and "dap_address (kernel_dap (prepare_chunk s)) = 0x20000 + 0x4000 * (31 - k)"
proof -
  have "kernel_read_chunk \<le> kernel_remaining s" using assms by (simp add: chunks_left_def kernel_read_chunk_def word_le_nat_alt)
  then have "(if kernel_remaining s \<le> kernel_read_chunk then kernel_remaining s else kernel_read_chunk) = 32"
    by (auto simp: kernel_read_chunk_def)
  then show "unat (kernel_current_chunk (prepare_chunk s)) = 32" "unat (dap_count (kernel_dap (prepare_chunk s))) = 32"
      "dap_lba (kernel_dap (prepare_chunk s)) = 33 + 32 * (31 - k)" "dap_address (kernel_dap (prepare_chunk s)) = 0x20000 + 0x4000 * (31 - k)"
    using assms by (simp_all add: prepare_chunk_def Let_def chunks_left_def dap_lba_def dap_address_def)
qed

lemma advance_chunk_full:
  assumes "chunks_left (Suc k) s" and "unat (kernel_current_chunk s) = 32"
  shows "chunks_left k (advance_chunk s)"
proof -
  have k: "k \<le> 31" using assms(1) by (simp add: chunks_left_def)
  have c: "kernel_current_chunk s = 32" using assms(2) by (simp add: word_unat_eq_iff)
  have "unat (kernel_remaining s - 32) = 32 * k" using assms(1) by (subst unat_sub) (simp_all add: chunks_left_def word_le_nat_alt)
  moreover have "unat (kernel_destination_segment s + 0x400) = 0x2000 + 0x400 * (32 - k)"
    using assms(1) k by (subst unat_word_ariths) (auto simp: chunks_left_def)
  moreover have low: "unat (kernel_current_lba_low s + 32) = 33 + 32 * (32 - k)"
    using assms(1) k by (subst unat_word_ariths) (auto simp: chunks_left_def)
  moreover have "\<not> kernel_current_lba_low s + 32 < 32" by (simp add: word_less_nat_alt low)
  ultimately show ?thesis using assms(1) by (simp add: advance_chunk_def Let_def chunks_left_def c)
qed

lemma write_chunks:
  assumes "512 * (lba + 32) \<le> length disk" and "n = 32 + n'" and "lba' = lba + 32" and "a' = a + 512 * 32"
  shows "write_bytes a (sectors disk lba n) m = write_bytes a' (sectors disk lba' n') (write_bytes a (sectors disk lba 32) m)"
  by (simp only: assms(2-4) sectors_add write_bytes_append length_sectors [OF assms(1)])

lemma load_next_chunk_exact:
  assumes "disk_bios B drive disk" and "length disk = 512 * 1057" and "chunks_left k s" and "stage2_boot_drive s = drive"
    and "load_next_chunk B s = (cf, s')"
  shows "(\<not> cf \<longrightarrow> same_ram (l_ram s') (write_bytes (0x20000 + 0x4000 * (32 - k)) (sectors disk (33 + 32 * (32 - k)) (32 * k)) (l_ram s)))
    \<and> (disk_works B drive disk \<longrightarrow> \<not> cf) \<and> stage2_boot_drive s' = drive"
  using assms(3-5)
proof (induction k arbitrary: s)
  case 0
  then have "kernel_remaining s = 0" by (simp add: chunks_left_def unat_eq_0)
  then have "cf = False" "s' = s" using 0(3) by (simp_all add: load_next_chunk.simps)
  then show ?case using 0 by (simp add: sectors_def)
next
  case (Suc k)
  let ?p = "prepare_chunk s"
  have k: "k \<le> 31" using Suc.prems(1) by (simp add: chunks_left_def)
  have nz: "kernel_remaining s \<noteq> 0" using Suc.prems(1) by (auto simp: chunks_left_def)
  have p: "stage2_boot_drive ?p = drive" "l_ram ?p = l_ram s" "chunks_left (Suc k) ?p" using Suc.prems(1,2) by (simp_all add: prepare_chunk_def Let_def chunks_left_def)
  note full = prepare_chunk_full [OF Suc.prems(1)]
  obtain c b m where r: "int13 B drive (kernel_dap ?p) (firmware ?p, l_ram s) = (c, b, m)" by (metis prod_cases3)
  let ?s = "?p\<lparr>firmware := b, l_ram := m\<rparr>"
  have range: "512 * (dap_lba (kernel_dap ?p) + unat (dap_count (kernel_dap ?p))) \<le> length disk" using full k assms(2) by simp
  have step: "load_next_chunk B s = (if c then (True, ?s) else load_next_chunk B (advance_chunk ?s))"
    using nz r p by (subst load_next_chunk.simps) (simp add: Let_def disk_read_def)
  show ?case
  proof (cases c)
    case True
    then have "fst (int13 B drive (kernel_dap ?p) (firmware ?p, l_ram s))" using r by simp
    then have "\<not> disk_works B drive disk" using range by (auto simp: disk_works_def)
    then show ?thesis using step True Suc.prems(3) p(1) by auto
  next
    case False
    have left: "chunks_left k (advance_chunk ?s)" using advance_chunk_full [of k ?s] p(3) full(1) by (simp add: chunks_left_def)
    have a: "stage2_boot_drive (advance_chunk ?s) = drive" "l_ram (advance_chunk ?s) = m" using p by (simp_all add: advance_chunk_def Let_def)
    have ih: "(\<not> cf \<longrightarrow> same_ram (l_ram s') (write_bytes (0x20000 + 0x4000 * (32 - k)) (sectors disk (33 + 32 * (32 - k)) (32 * k)) m))
      \<and> (disk_works B drive disk \<longrightarrow> \<not> cf) \<and> stage2_boot_drive s' = drive"
      using Suc.IH [OF left a(1)] step False Suc.prems(3) a(2) by simp
    have m: "same_ram m (write_bytes (0x20000 + 0x4000 * (31 - k)) (sectors disk (33 + 32 * (31 - k)) 32) (l_ram s))"
      using assms(1) range r False full unfolding disk_bios_def by metis
    have same_chunk: "32 - Suc k = 31 - k" by simp
    have "write_bytes (0x20000 + 0x4000 * (32 - Suc k)) (sectors disk (33 + 32 * (32 - Suc k)) (32 * Suc k)) (l_ram s)
      = write_bytes (0x20000 + 0x4000 * (32 - k)) (sectors disk (33 + 32 * (32 - k)) (32 * k))
          (write_bytes (0x20000 + 0x4000 * (31 - k)) (sectors disk (33 + 32 * (31 - k)) 32) (l_ram s))"
      unfolding same_chunk using k by (intro write_chunks) (simp_all add: assms(2))
    moreover have "\<not> cf \<Longrightarrow> same_ram (l_ram s') (write_bytes (0x20000 + 0x4000 * (32 - k)) (sectors disk (33 + 32 * (32 - k)) (32 * k))
          (write_bytes (0x20000 + 0x4000 * (31 - k)) (sectors disk (33 + 32 * (31 - k)) 32) (l_ram s)))"
      using ih same_ram_trans [OF _ same_ram_write [OF m]] by blast
    ultimately show ?thesis using ih by simp
  qed
qed

lemma load_kernel_exact:
  assumes "disk_bios B drive disk" and "length disk = 512 * 1057" and "stage2_boot_drive s = drive" and "load_kernel B s = (cf, s')"
  shows "\<not> cf \<Longrightarrow> same_ram (l_ram s') (write_bytes 0x20000 (sectors disk 33 1024) (l_ram s))"
    and "disk_works B drive disk \<Longrightarrow> \<not> cf" and "stage2_boot_drive s' = drive"
proof -
  let ?s = "s\<lparr>kernel_remaining := kernel_max_sectors, kernel_destination_segment := 0x2000, kernel_current_lba_low := 33, kernel_current_lba_high := 0\<rparr>"
  have "chunks_left 32 ?s" by (simp add: chunks_left_def kernel_max_sectors_def)
  from load_next_chunk_exact [OF assms(1,2) this _ assms(4) [unfolded load_kernel_def]] assms(3)
  show "\<not> cf \<Longrightarrow> same_ram (l_ram s') (write_bytes 0x20000 (sectors disk 33 1024) (l_ram s))"
    and "disk_works B drive disk \<Longrightarrow> \<not> cf" and "stage2_boot_drive s' = drive" by simp_all
qed

text \<open>The areas of the built image.\<close>

lemma disk_image_areas:
  assumes "inputs_valid stage1 stage2 elf"
  shows "length (disk_image stage1 stage2 elf) = 512 * 1057"
    and "sectors (disk_image stage1 stage2 elf) 1 32 = padded (32 * 512) stage2"
    and "sectors (disk_image stage1 stage2 elf) 33 1024 = padded (1024 * 512) elf"
proof -
  have l: "length stage1 = 512" "length (padded (32 * 512) stage2) = 32 * 512" "length (padded (1024 * 512) elf) = 1024 * 512"
    using assms by (simp_all add: inputs_valid_def length_padded)
  show "length (disk_image stage1 stage2 elf) = 512 * 1057" unfolding disk_image_def by (simp only: length_append l)
  show "sectors (disk_image stage1 stage2 elf) 1 32 = padded (32 * 512) stage2"
    unfolding disk_image_def sectors_def using l by simp
  show "sectors (disk_image stage1 stage2 elf) 33 1024 = padded (1024 * 512) elf"
    unfolding disk_image_def sectors_def using l by simp
qed

section \<open>The memory map is collected\<close>

definition entry_bytes :: "MemoryMapEntry \<Rightarrow> u8 list" where
  "entry_bytes e = le_list 8 (unat (base_addr e)) @ le_list 8 (unat (region_length e)) @ le_list 4 (unat (entry_type e)) @ le_list 4 (unat (attributes e))"

text \<open>
  Entry \<open>i\<close> is asked for with the token \<open>tok i\<close>; it has 20 bytes, or 24 with the attributes.  The interface lets
  firmware end the list in two ways: with the last entry, by the token 0, or with one more call that sets the
  carry flag.  \<open>e820_bios\<close> is the first kind; \<open>e820_carry_bios\<close> below is the second, which stage 2 takes for an error.
\<close>

definition e820_bios :: "'b bios \<Rightarrow> (u32 \<times> MemoryMapEntry) list \<Rightarrow> bool" where
  "e820_bios B es \<longleftrightarrow> (\<exists>tok. tok 0 = 0 \<and> (\<forall>i < length es. (0 < i \<longrightarrow> tok i \<noteq> 0) \<and> (\<forall>dest b m. \<exists>b' m'.
     int15 B 0xE820 (tok i) 24 0x534D4150 dest (b, m) = (\<lparr>e820_cf = False, e820_eax = 0x534D4150,
       e820_ebx = (if Suc i < length es then tok (Suc i) else 0), e820_ecx = fst (es ! i)\<rparr>, b', m')
     \<and> fst (es ! i) \<in> {20, 24} \<and> same_ram m' (write_bytes dest (take (unat (fst (es ! i))) (entry_bytes (snd (es ! i)))) m))))"

definition stored_entry :: "u32 \<times> MemoryMapEntry \<Rightarrow> MemoryMapEntry" where
  "stored_entry x = (if fst x = 20 then (snd x)\<lparr>attributes := 1\<rparr> else snd x)"

definition map_bytes :: "MemoryMapEntry list \<Rightarrow> u8 list" where
  "map_bytes es = concat (map entry_bytes es)"

lemma length_entry_bytes [simp]: "length (entry_bytes e) = 24"
  by (simp add: entry_bytes_def)

lemma length_map_bytes [simp]: "length (map_bytes es) = 24 * length es"
  by (induction es) (simp_all add: map_bytes_def)

lemma write_entry_bytes:
  assumes "fst x \<in> {20, 24}"
  shows "write_bytes a (take (unat (fst x)) (entry_bytes (snd x))) (write_bytes (a + 20) (le_list 4 1) m) = write_bytes a (entry_bytes (stored_entry x)) m"
proof (cases "fst x = 20")
  case True
  have "entry_bytes (stored_entry x) = take 20 (entry_bytes (snd x)) @ le_list 4 1" using True by (simp add: entry_bytes_def stored_entry_def)
  then show ?thesis using True by (auto simp: write_bytes_def nth_append fun_eq_iff)
next
  case False
  then have "fst x = 24" using assms by simp
  then show ?thesis by (auto simp: write_bytes_def stored_entry_def fun_eq_iff)
qed

lemma e820_next_step:
  assumes "si < 128"
    and "int15 B 0xE820 ebx 24 0x534D4150 (16 * 0x6000 + unat di)
      (firmware s, write_bytes (16 * 0x6000 + unat (di + 20)) (le_list 4 1) (l_ram s)) = (r, b, m)"
    and "\<not> e820_cf r" and "e820_eax r = 0x534D4150" and "\<not> e820_ecx r < 20"
  shows "e820_next B ebx si di s = (if e820_ebx r = 0 then (Inr (si + 1), s\<lparr>firmware := b, l_ram := m\<rparr>)
    else e820_next B (e820_ebx r) (si + 1) (di + 24) (s\<lparr>firmware := b, l_ram := m\<rparr>))"
  using assms by (subst e820_next.simps) (auto simp: Let_def)

lemma e820_next_exact:
  assumes tok: "\<And>i. i < length es \<Longrightarrow> (0 < i \<longrightarrow> tok i \<noteq> 0) \<and> (\<forall>dest b m. \<exists>b' m'.
     int15 B 0xE820 (tok i) 24 0x534D4150 dest (b, m) = (\<lparr>e820_cf = False, e820_eax = 0x534D4150,
       e820_ebx = (if Suc i < length es then tok (Suc i) else 0), e820_ecx = fst (es ! i)\<rparr>, b', m')
     \<and> fst (es ! i) \<in> {20, 24} \<and> same_ram m' (write_bytes dest (take (unat (fst (es ! i))) (entry_bytes (snd (es ! i)))) m))"
    and "i < length es" and "i \<le> 128" and "n = min 128 (length es) - i"
  shows "\<exists>s'. e820_next B (tok i) (of_nat i) (of_nat (24 * i)) s = (Inr (of_nat (min 128 (length es))), s')
    \<and> (\<exists>b m. s' = s\<lparr>firmware := b, l_ram := m\<rparr>)
    \<and> same_ram (l_ram s') (write_bytes (0x60000 + 24 * i) (map_bytes (map stored_entry (drop i (take 128 es)))) (l_ram s))"
  using assms(2-4)
proof (induction n arbitrary: i s)
  case 0
  then have "i = 128" by simp
  then have "e820_next B (tok i) (of_nat i) (of_nat (24 * i)) s = (Inr 128, s)" by (simp add: e820_next.simps)
  moreover have "\<exists>b m. s = s\<lparr>firmware := b, l_ram := m\<rparr>" by (intro exI [of _ "firmware s"] exI [of _ "l_ram s"]) simp
  ultimately show ?case using 0 \<open>i = 128\<close> by (intro exI [of _ s]) (simp add: map_bytes_def)
next
  case (Suc n)
  have i: "i < 128" using Suc.prems by simp
  let ?x = "es ! i" and ?d = "0x60000 + 24 * i" and ?m = "write_bytes (0x60000 + 24 * i + 20) (le_list 4 1) (l_ram s)"
  obtain b m where r: "int15 B 0xE820 (tok i) 24 0x534D4150 ?d (firmware s, ?m) = (\<lparr>e820_cf = False, e820_eax = 0x534D4150,
       e820_ebx = (if Suc i < length es then tok (Suc i) else 0), e820_ecx = fst ?x\<rparr>, b, m)"
    and size: "fst ?x \<in> {20, 24}" and m: "same_ram m (write_bytes ?d (take (unat (fst ?x)) (entry_bytes (snd ?x))) ?m)"
    using tok [OF Suc.prems(1)] by metis
  have m': "same_ram m (write_bytes ?d (entry_bytes (stored_entry ?x)) (l_ram s))" using m unfolding write_entry_bytes [OF size] .
  have di: "unat (of_nat (24 * i) :: u16) = 24 * i" using i by (intro unat_of_nat_small) simp
  have si: "(of_nat i :: u16) < 128" using i unat_of_nat_small [of i, where 'a = 16] by (simp add: word_less_nat_alt)
  have dest: "16 * 0x6000 + unat (of_nat (24 * i) :: u16) = ?d" "16 * 0x6000 + unat (of_nat (24 * i) + 20 :: u16) = ?d + 20"
    using i by (simp_all only: unat_word_ariths di) simp_all
  let ?s = "s\<lparr>firmware := b, l_ram := m\<rparr>"
  have ok: "\<not> fst ?x < 20" using size by auto
  have step: "e820_next B (tok i) (of_nat i) (of_nat (24 * i)) s = (if Suc i < length es
      then e820_next B (tok (Suc i)) (of_nat (Suc i)) (of_nat (24 * Suc i)) ?s else (Inr (of_nat (Suc i)), ?s))"
    using e820_next_step [OF si, of B "tok i" "of_nat (24 * i)" s, unfolded dest, OF r] ok tok [of "Suc i"] by (simp add: add.commute)
  have split: "drop i (take 128 es) = ?x # drop (Suc i) (take 128 es)" using i Suc.prems(1) by (simp flip: Cons_nth_drop_Suc)
  show ?case
  proof (cases "Suc i < length es")
    case True
    have left_over: "n = min 128 (length es) - Suc i" using Suc.prems(3) by simp
    obtain s' where s': "e820_next B (tok (Suc i)) (of_nat (Suc i)) (of_nat (24 * Suc i)) ?s = (Inr (of_nat (min 128 (length es))), s')"
      "\<exists>b m. s' = ?s\<lparr>firmware := b, l_ram := m\<rparr>"
      "same_ram (l_ram s') (write_bytes (0x60000 + 24 * Suc i) (map_bytes (map stored_entry (drop (Suc i) (take 128 es)))) (l_ram ?s))"
      using Suc.IH [of "Suc i" ?s, OF True Suc_leI [OF i] left_over] by blast
    have "same_ram (l_ram s') (write_bytes ?d (map_bytes (map stored_entry (drop i (take 128 es)))) (l_ram s))"
      using same_ram_trans [OF s'(3) [simplified] same_ram_write [OF m']] unfolding split by (simp add: map_bytes_def write_bytes_append add.assoc)
    then show ?thesis using step True s'(1,2) by auto
  next
    case False
    then have "length es = Suc i" using Suc.prems(1) by simp
    then have "drop i (take 128 es) = [?x]" "min 128 (length es) = Suc i" using i split by simp_all
    then show ?thesis using step False m' by (auto simp: map_bytes_def)
  qed
qed

lemma detect_memory_map_exact:
  assumes "e820_bios B es" and "es \<noteq> []"
  shows "\<exists>s'. detect_memory_map B s = (False, s') \<and> unat (e820_count s') = min 128 (length es)
    \<and> stage2_boot_drive s' = stage2_boot_drive s
    \<and> same_ram (l_ram s') (write_bytes 0x60000 (map_bytes (map stored_entry (take 128 es))) (l_ram s))"
proof -
  obtain tok where t0: "tok 0 = 0" and tok: "\<And>i. i < length es \<Longrightarrow> (0 < i \<longrightarrow> tok i \<noteq> 0) \<and> (\<forall>dest b m. \<exists>b' m'.
     int15 B 0xE820 (tok i) 24 0x534D4150 dest (b, m) = (\<lparr>e820_cf = False, e820_eax = 0x534D4150,
       e820_ebx = (if Suc i < length es then tok (Suc i) else 0), e820_ecx = fst (es ! i)\<rparr>, b', m')
     \<and> fst (es ! i) \<in> {20, 24} \<and> same_ram m' (write_bytes dest (take (unat (fst (es ! i))) (entry_bytes (snd (es ! i)))) m))"
    using assms(1) unfolding e820_bios_def by blast
  obtain s' where s': "e820_next B 0 0 0 s = (Inr (of_nat (min 128 (length es))), s')" "\<exists>b m. s' = s\<lparr>firmware := b, l_ram := m\<rparr>"
      "same_ram (l_ram s') (write_bytes 0x60000 (map_bytes (map stored_entry (take 128 es))) (l_ram s))"
    using e820_next_exact [of es tok B 0 "min 128 (length es)" s, OF tok] t0 assms(2) by auto
  have "unat (of_nat (min 128 (length es)) :: u16) = min 128 (length es)" by (rule unat_of_nat_small) simp
  then show ?thesis using s' by (auto simp: detect_memory_map_def)
qed

definition e820_carry_bios :: "'b bios \<Rightarrow> (u32 \<times> MemoryMapEntry) list \<Rightarrow> bool" where
  "e820_carry_bios B es \<longleftrightarrow> (\<exists>tok. tok 0 = 0
     \<and> (\<forall>i < length es. tok (Suc i) \<noteq> 0 \<and> fst (es ! i) \<in> {20, 24} \<and> (\<forall>dest b m. \<exists>b' m'.
          int15 B 0xE820 (tok i) 24 0x534D4150 dest (b, m) = (\<lparr>e820_cf = False, e820_eax = 0x534D4150,
            e820_ebx = tok (Suc i), e820_ecx = fst (es ! i)\<rparr>, b', m')
          \<and> same_ram m' (write_bytes dest (take (unat (fst (es ! i))) (entry_bytes (snd (es ! i)))) m)))
     \<and> (\<forall>dest b m. e820_cf (fst (int15 B 0xE820 (tok (length es)) 24 0x534D4150 dest (b, m)))))"

text \<open>
  A map of fewer than 128 entries that the firmware ends with the carry flag is discarded: \<open>detect_memory_map\<close>
  fails with code 1 and an empty map, whatever entries it has stored.
\<close>

lemma carry_end_discards_map:
  assumes "e820_carry_bios B es" and "length es < 128"
  shows "\<exists>s'. detect_memory_map B s = (True, s') \<and> memory_map_error_code s' = 1 \<and> e820_count s' = 0"
proof -
  obtain tok where t0: "tok 0 = 0"
    and es: "\<forall>i < length es. tok (Suc i) \<noteq> 0 \<and> fst (es ! i) \<in> {20, 24} \<and> (\<forall>dest b m. \<exists>b' m'.
       int15 B 0xE820 (tok i) 24 0x534D4150 dest (b, m) = (\<lparr>e820_cf = False, e820_eax = 0x534D4150,
         e820_ebx = tok (Suc i), e820_ecx = fst (es ! i)\<rparr>, b', m')
       \<and> same_ram m' (write_bytes dest (take (unat (fst (es ! i))) (entry_bytes (snd (es ! i)))) m))"
    and last: "\<forall>dest b m. e820_cf (fst (int15 B 0xE820 (tok (length es)) 24 0x534D4150 dest (b, m)))"
    using assms(1) unfolding e820_carry_bios_def by (elim exE conjE) (rule that)
  have tok: "tok (Suc i) \<noteq> 0 \<and> fst (es ! i) \<in> {20, 24} \<and> (\<exists>b' m'.
       int15 B 0xE820 (tok i) 24 0x534D4150 dest (b, m) = (\<lparr>e820_cf = False, e820_eax = 0x534D4150,
         e820_ebx = tok (Suc i), e820_ecx = fst (es ! i)\<rparr>, b', m'))" if "i < length es" for i dest b m
    using es [rule_format, OF that] by blast
  have "\<exists>s'. e820_next B (tok i) (of_nat i) di s = (Inl 1, s')" if "length es = i + n" for i n di s
    using that
  proof (induction n arbitrary: i di s)
    case 0
    have "(of_nat i :: u16) < 128" using 0 assms(2) unat_of_nat_small [of i, where 'a = 16] by (simp add: word_less_nat_alt)
    moreover obtain r b m where "int15 B 0xE820 (tok i) 24 0x534D4150 (16 * 0x6000 + unat di)
        (firmware s, write_bytes (16 * 0x6000 + unat (di + 20)) (le_list 4 1) (l_ram s)) = (r, b, m)"
      by (metis prod_cases3)
    moreover from this have "e820_cf r" using last 0 by (metis add_0_right fst_conv)
    ultimately show ?case by (subst e820_next.simps) (simp add: Let_def not_le [symmetric])
  next
    case (Suc n)
    have si: "(of_nat i :: u16) < 128" using Suc.prems assms(2) unat_of_nat_small [of i, where 'a = 16] by (simp add: word_less_nat_alt)
    have i: "i < length es" and left_over: "length es = Suc i + n" using Suc.prems by simp_all
    let ?d = "16 * 0x6000 + unat di" and ?m = "write_bytes (16 * 0x6000 + unat (di + 20)) (le_list 4 1) (l_ram s)"
    obtain b m where r: "int15 B 0xE820 (tok i) 24 0x534D4150 ?d (firmware s, ?m)
        = (\<lparr>e820_cf = False, e820_eax = 0x534D4150, e820_ebx = tok (Suc i), e820_ecx = fst (es ! i)\<rparr>, b, m)"
      and ok: "tok (Suc i) \<noteq> 0" "\<not> fst (es ! i) < 20"
      using tok [OF i, of ?d "firmware s" ?m] by auto
    show ?case
      using e820_next_step [OF si r] ok Suc.IH [OF left_over, of "di + 24" "s\<lparr>firmware := b, l_ram := m\<rparr>"]
      by (simp add: add.commute)
  qed
  from this [of 0 "length es" 0 s] t0 show ?thesis by (auto simp: detect_memory_map_def)
qed

section \<open>The firmware is called a bounded number of times\<close>

text \<open>A firmware that counts its calls.\<close>

definition counting :: "'b bios \<Rightarrow> ('b \<times> nat) bios" where
  "counting B = \<lparr>int13 = (\<lambda>drive d ((b, n), m). case int13 B drive d (b, m) of (cf, b, m) \<Rightarrow> (cf, (b, n + 1), m)),
     int15 = (\<lambda>eax ebx ecx edx dest ((b, n), m). case int15 B eax ebx ecx edx dest (b, m) of (r, b, m) \<Rightarrow> (r, (b, n + 1), m))\<rparr>"

definition calls :: "('b \<times> nat) loader \<Rightarrow> nat" where
  "calls s = snd (firmware s)"

lemma e820_next_calls: "calls (snd (e820_next (counting B) ebx si di s)) \<le> calls s + (128 - unat si)"
proof (induction "counting B" ebx si di s rule: e820_next.induct)
  case (1 ebx si di s)
  show ?case
  proof (cases "128 \<le> si")
    case True
    then show ?thesis by (simp add: e820_next.simps)
  next
    case False
    let ?m = "write_bytes (16 * 0x6000 + unat (di + 20)) (le_list 4 1) (l_ram s)"
    obtain r b m where r: "int15 (counting B) 0xE820 ebx 24 0x534D4150 (16 * 0x6000 + unat di) (firmware s, ?m) = (r, b, m)" by (metis prod_cases3)
    then have n: "snd b = calls s + 1" by (auto simp: counting_def calls_def split: prod.splits)
    let ?s = "s\<lparr>firmware := b, l_ram := m\<rparr>"
    have "calls (snd (e820_next (counting B) (e820_ebx r) (si + 1) (di + 24) ?s)) \<le> calls ?s + (128 - unat (si + 1))"
      if "\<not> e820_cf r" "e820_eax r = 0x534D4150" "\<not> e820_ecx r < 20" "e820_ebx r \<noteq> 0"
      using 1 [OF False refl refl r [symmetric] refl refl] that by simp
    then show ?thesis
      using False r n e820_count_rises [of si] by (subst e820_next.simps) (auto simp: Let_def calls_def not_le)
  qed
qed

lemma load_next_chunk_calls:
  "chunks_left k s \<Longrightarrow> calls (snd (load_next_chunk (counting B) s)) \<le> calls s + k"
proof (induction k arbitrary: s)
  case 0
  then have "kernel_remaining s = 0" by (simp add: chunks_left_def unat_eq_0)
  then show ?case by (simp add: load_next_chunk.simps)
next
  case (Suc k)
  let ?p = "prepare_chunk s"
  have nz: "kernel_remaining s \<noteq> 0" using Suc.prems by (auto simp: chunks_left_def)
  obtain c b m where r: "int13 (counting B) (stage2_boot_drive ?p) (kernel_dap ?p) (firmware ?p, l_ram ?p) = (c, b, m)" by (metis prod_cases3)
  then have n: "snd b = calls s + 1" by (auto simp: counting_def calls_def prepare_chunk_def Let_def split: prod.splits)
  let ?s = "?p\<lparr>firmware := b, l_ram := m\<rparr>"
  have "chunks_left (Suc k) ?s" "unat (kernel_current_chunk ?s) = 32"
    using Suc.prems prepare_chunk_full(1) [OF Suc.prems] by (simp_all add: prepare_chunk_def Let_def chunks_left_def)
  then have "calls (snd (load_next_chunk (counting B) (advance_chunk ?s))) \<le> calls (advance_chunk ?s) + k"
    by (intro Suc.IH advance_chunk_full)
  moreover have "calls (advance_chunk ?s) = calls s + 1" "calls ?s = calls s + 1" using n by (simp_all add: calls_def advance_chunk_def Let_def)
  ultimately show ?case
    using nz r by (subst load_next_chunk.simps) (auto simp: Let_def disk_read_def)
qed

lemma e820_next_result:
  "si \<le> 128 \<Longrightarrow> (case e820_next B ebx si di s of (Inl code, s') \<Rightarrow> code \<in> {1, 2, 3}
     | (Inr n, s') \<Rightarrow> n \<le> 128 \<and> memory_map_error_code s' = memory_map_error_code s)"
proof (induction B ebx si di s rule: e820_next.induct)
  case (1 B ebx si di s)
  show ?case
  proof (cases "128 \<le> si")
    case True
    then show ?thesis using 1(2) by (simp add: e820_next.simps)
  next
    case False
    let ?m = "write_bytes (16 * 0x6000 + unat (di + 20)) (le_list 4 1) (l_ram s)"
    obtain r b m where r: "int15 B 0xE820 ebx 24 0x534D4150 (16 * 0x6000 + unat di) (firmware s, ?m) = (r, b, m)" by (metis prod_cases3)
    have le: "si + 1 \<le> 128" using False by (simp add: word_le_nat_alt unat_word_ariths)
    note ih = 1(1) [OF False refl refl r [symmetric] refl refl]
    show ?thesis using False r le ih by (subst e820_next.simps) (auto simp: Let_def split: sum.splits prod.splits)
  qed
qed

section \<open>Properties\<close>

text \<open>
  C39.  The two loops of stage 2 end whatever the firmware answers: loading the kernel makes at most 32 disk reads and
  collecting the memory map asks at most 128 times.  Afterwards the memory map has at most 128 entries, and the carry flag
  is set exactly for the error codes 1, 2 and 3, with no entries.
\<close>

theorem stage2_loops_end:
  "calls (snd (load_kernel (counting B) s)) \<le> calls s + 32
   \<and> calls (snd (detect_memory_map (counting B) s)) \<le> calls s + 128
   \<and> (case detect_memory_map B' s' of (cf, s'') \<Rightarrow>
       if cf then memory_map_error_code s'' \<in> {1, 2, 3} \<and> e820_count s'' = 0
       else memory_map_error_code s'' = memory_map_error_code s' \<and> e820_count s'' \<le> 128)"
proof -
  have "calls (snd (load_kernel (counting B) s)) \<le> calls s + 32"
    unfolding load_kernel_def by (rule order_trans [OF load_next_chunk_calls [of 32]]) (simp_all add: chunks_left_def kernel_max_sectors_def calls_def)
  moreover have "calls (snd (detect_memory_map (counting B) s)) \<le> calls s + 128"
    using e820_next_calls [of B 0 0 0 s] by (auto simp: detect_memory_map_def calls_def split: prod.splits sum.splits)
  ultimately show ?thesis using e820_next_result [where si = 0 and B = B' and ebx = 0 and di = 0 and s = s']
    by (simp add: detect_memory_map_def split: prod.splits sum.splits)
qed


lemma same_ram_area:
  assumes "same_ram m (write_bytes a bs m')" and "0x8000 \<le> a"
  shows "\<And>i. i < length bs \<Longrightarrow> m (a + i) = bs ! i" and "\<And>x. 0x8000 \<le> x \<Longrightarrow> x < a \<or> a + length bs \<le> x \<Longrightarrow> m x = m' x"
  using assms by (auto simp: same_ram_def write_bytes_inside write_bytes_outside)

lemma padded_nth: "i < length bs \<Longrightarrow> padded n bs ! i = bs ! i"
  by (simp add: padded_def nth_append)


text \<open>
  C40.  The memory map is collected after the kernel and into the same buffer.  After both loops the bytes of the kernel file
  from offset \<open>0x40000\<close> on are those of the memory map, 24 for each of its entries, and only a kernel file of at most 256 KiB
  is kept whatever the map.
\<close>

theorem memory_map_overwrites_kernel:
  assumes "inputs_valid stage1 stage2 elf" and "disk_bios B (stage2_boot_drive s) (disk_image stage1 stage2 elf)"
    and "disk_works B (stage2_boot_drive s) (disk_image stage1 stage2 elf)" and "e820_bios B es" and "es \<noteq> []"
  shows "\<exists>s' s''. load_kernel B s = (False, s') \<and> detect_memory_map B s' = (False, s'')
    \<and> (\<forall>i < length elf. l_ram s'' (0x20000 + i)
        = (if 0x40000 \<le> i \<and> i < 0x40000 + 24 * min 128 (length es) then map_bytes (map stored_entry (take 128 es)) ! (i - 0x40000) else elf ! i))"
proof -
  note areas = disk_image_areas [OF assms(1)]
  obtain cf s' where load: "load_kernel B s = (cf, s')" by fastforce
  note k = load_kernel_exact [OF assms(2) areas(1) refl load, unfolded areas(3)]
  have cf: "\<not> cf" using k(2) assms(3) .
  obtain s'' where map: "detect_memory_map B s' = (False, s'')" "same_ram (l_ram s'') (write_bytes 0x60000 (map_bytes (map stored_entry (take 128 es))) (l_ram s'))"
    using detect_memory_map_exact [OF assms(4,5), of s'] by blast
  have elf: "l_ram s' (0x20000 + i) = elf ! i" if "i < length elf" for i
    using same_ram_area(1) [OF k(1) [OF cf], of i] that padded_nth [OF that] by (simp add: padded_def)
  have len: "length (map_bytes (map stored_entry (take 128 es))) = 24 * min 128 (length es)" by simp
  have "l_ram s'' (0x20000 + i)
        = (if 0x40000 \<le> i \<and> i < 0x40000 + 24 * min 128 (length es) then map_bytes (map stored_entry (take 128 es)) ! (i - 0x40000) else elf ! i)"
    if "i < length elf" for i
    using same_ram_area(1) [OF map(2), of "i - 0x40000", unfolded len] same_ram_area(2) [OF map(2), of "0x20000 + i", unfolded len] elf [OF that]
    by (cases "0x40000 \<le> i \<and> i < 0x40000 + 24 * min 128 (length es)") auto
  then show ?thesis using load cf map(1) by auto
qed

section \<open>A firmware\<close>

text \<open>A firmware that behaves as documented, for a disk and a memory map.\<close>

definition plain_bios :: "u8 list \<Rightarrow> (u32 \<times> MemoryMapEntry) list \<Rightarrow> unit bios" where
  "plain_bios disk es = \<lparr>
     int13 = (\<lambda>drive d (b, m). if 512 * (dap_lba d + unat (dap_count d)) \<le> length disk
       then (False, b, write_bytes (dap_address d) (sectors disk (dap_lba d) (unat (dap_count d))) m) else (True, b, m)),
     int15 = (\<lambda>eax ebx ecx edx dest (b, m). if unat ebx < length es
       then (\<lparr>e820_cf = False, e820_eax = 0x534D4150, e820_ebx = (if Suc (unat ebx) < length es then of_nat (Suc (unat ebx)) else 0),
              e820_ecx = fst (es ! unat ebx)\<rparr>, b, write_bytes dest (take (unat (fst (es ! unat ebx))) (entry_bytes (snd (es ! unat ebx)))) m)
       else (\<lparr>e820_cf = True, e820_eax = 0, e820_ebx = 0, e820_ecx = 0\<rparr>, b, m))\<rparr>"

lemma plain_bios_disk: "disk_bios (plain_bios disk es) drive disk" "disk_works (plain_bios disk es) drive disk"
  by (simp_all add: disk_bios_def disk_works_def plain_bios_def)

lemma plain_bios_e820:
  assumes "length es < 2 ^ 32" and "\<forall>x \<in> set es. fst x \<in> {20, 24}"
  shows "e820_bios (plain_bios disk es) es"
  unfolding e820_bios_def
proof (intro exI [of _ "\<lambda>i. of_nat i"] conjI allI impI)
  fix i assume i: "i < length es"
  have u: "unat (of_nat i :: u32) = i" using i assms(1) by (intro unat_of_nat_small) simp
  then show "(of_nat i :: u32) \<noteq> 0" if "0 < i" using that by (metis less_not_refl unsigned_0)
  have "fst (es ! i) \<in> {20, 24}" using assms(2) i by simp
  then show "\<exists>b' m'. int15 (plain_bios disk es) 0xE820 (of_nat i) 24 0x534D4150 dest (b, m) = (\<lparr>e820_cf = False, e820_eax = 0x534D4150,
       e820_ebx = (if Suc i < length es then of_nat (Suc i) else 0), e820_ecx = fst (es ! i)\<rparr>, b', m')
     \<and> fst (es ! i) \<in> {20, 24} \<and> same_ram m' (write_bytes dest (take (unat (fst (es ! i))) (entry_bytes (snd (es ! i)))) m)" for dest b m
    using i u by (simp add: plain_bios_def)
qed simp

definition loader_at_reset :: "'b \<Rightarrow> 'b loader" where
  "loader_at_reset b = \<lparr>l_ram = (\<lambda>_. 0), firmware = b, ports = [], stage1_boot_drive = 0, stage2_boot_drive = 0x80, kernel_remaining = 0,
     kernel_current_chunk = 0, kernel_destination_segment = 0, kernel_current_lba_low = 0, kernel_current_lba_high = 0,
     kernel_dap = \<lparr>dap_count = 32, dap_offset = 0, dap_segment = 0x2000, dap_lba_low = 33, dap_lba_high = 0\<rparr>, e820_count = 0, memory_map_error_code = 0,
     control_0 = 0x10, control_3 = 0, control_4 = 0, efer = 0, port_92 = 0\<rparr>"


text \<open>A kernel file above 256 KiB.\<close>

definition large_kernel :: "u8 list" where
  "large_kernel = replicate 0x40100 0xFF"

lemma length_large_kernel: "length large_kernel = 0x40100"
  unfolding large_kernel_def by (simp only: length_replicate)

lemma large_kernel_nth: "i < 0x40100 \<Longrightarrow> large_kernel ! i = 0xFF"
  unfolding large_kernel_def by (simp only: nth_replicate)

definition low_memory :: "(u32 \<times> MemoryMapEntry) list" where
  "low_memory = [(20, \<lparr>base_addr = 0, region_length = 0x9F000, entry_type = 1, attributes = 0\<rparr>)]"

lemma entry_bytes_first: "entry_bytes e ! 0 = of_nat (unat (base_addr e) mod 256)"
proof -
  have "le_list n v ! 0 = of_nat (v mod 256)" if "0 < n" for n v using that by (cases n) simp_all
  then show ?thesis by (simp add: entry_bytes_def nth_append)
qed

theorem memory_map_overwrites_kernel_witness:
  "\<exists>s' s''. load_kernel (plain_bios (disk_image small_stage1 [0xFA] large_kernel) low_memory) (loader_at_reset ()) = (False, s')
     \<and> detect_memory_map (plain_bios (disk_image small_stage1 [0xFA] large_kernel) low_memory) s' = (False, s'')
     \<and> large_kernel ! 0x40000 = 0xFF \<and> l_ram s'' 0x60000 = 0"
proof -
  let ?B = "plain_bios (disk_image small_stage1 [0xFA] large_kernel) low_memory"
  have valid: "inputs_valid small_stage1 [0xFA] large_kernel" by (simp add: inputs_valid_def small_stage1_valid length_large_kernel flip: length_greater_0_conv)
  have e820: "e820_bios ?B low_memory" by (rule plain_bios_e820) (simp_all add: low_memory_def)
  have first: "map_bytes (map stored_entry (take 128 low_memory)) ! 0 = 0" "length low_memory = 1"
    by (simp_all add: low_memory_def map_bytes_def entry_bytes_first stored_entry_def)
  obtain s' s'' where run: "load_kernel ?B (loader_at_reset ()) = (False, s')" "detect_memory_map ?B s' = (False, s'')"
    and bytes: "\<forall>i < length large_kernel. l_ram s'' (0x20000 + i)
        = (if 0x40000 \<le> i \<and> i < 0x40000 + 24 * min 128 (length low_memory) then map_bytes (map stored_entry (take 128 low_memory)) ! (i - 0x40000) else large_kernel ! i)"
    using memory_map_overwrites_kernel [OF valid plain_bios_disk e820] first(2) by fastforce
  have "0x40000 < length large_kernel" by (simp add: length_large_kernel)
  then have "l_ram s'' (0x20000 + 0x40000) = 0" using bytes first by auto
  moreover have "large_kernel ! 0x40000 = 0xFF" by (rule large_kernel_nth) simp
  ultimately show ?thesis using run by auto
qed

end
