(* ===== verification/Elf_Loader.thy ===== *)
theory Elf_Loader
  imports Loader
begin

text \<open>
  Stage 2 in long mode: parsing the kernel's ELF file in the buffer at \<open>0x20000\<close> and copying its segments
  (\<open>boot/stage2/stage2.asm\<close> from \<open>long_mode_entry\<close> to \<open>elf_segments_done\<close>, \<open>memory_copy\<close>, \<open>memory_zero\<close>).  Only the first
  2 MiB are mapped and there is no interrupt table, so any other access ends in a triple fault, the value \<open>panic\<close>.

  Registers keep their names and wrap around; memory is that of the theory \<open>Loader\<close>.
\<close>

section \<open>Memory accesses\<close>

definition fetch :: "nat \<Rightarrow> u64 \<Rightarrow> ram \<Rightarrow> nat run" where
  "fetch n a m = (if unat a + n \<le> 0x200000 then ret (le_nat m (unat a) n) else panic)"

definition store_byte :: "u64 \<Rightarrow> u8 \<Rightarrow> ram \<Rightarrow> ram run" where
  "store_byte a v m = (if unat a < 0x200000 then ret (m(unat a := v)) else panic)"

lemma unat_pred: "w \<noteq> 0 \<Longrightarrow> unat (w - 1) < unat w" for w :: "'a::len word"
  by (metis measure_unat)

function memory_copy :: "u64 \<Rightarrow> u64 \<Rightarrow> u64 \<Rightarrow> ram \<Rightarrow> (u64 \<times> u64 \<times> ram) run" where
  "memory_copy rsi rdi rcx m = (
     if rcx = 0 then ret (rsi, rdi, m)
     else do {
       al \<leftarrow> fetch 1 rsi m;
       m \<leftarrow> store_byte rdi (of_nat al) m;
       memory_copy (rsi + 1) (rdi + 1) (rcx - 1) m })"
  by pat_completeness auto

termination
  by (relation "measure (\<lambda>(rsi, rdi, rcx, m). unat rcx)") (simp_all add: unat_pred)

function memory_zero :: "u64 \<Rightarrow> u64 \<Rightarrow> ram \<Rightarrow> (u64 \<times> ram) run" where
  "memory_zero rdi rcx m = (
     if rcx = 0 then ret (rdi, m)
     else do {
       m \<leftarrow> store_byte rdi 0 m;
       memory_zero (rdi + 1) (rcx - 1) m })"
  by pat_completeness auto

termination
  by (relation "measure (\<lambda>(rdi, rcx, m). unat rcx)") (simp_all add: unat_pred)

declare memory_copy.simps [simp del] memory_zero.simps [simp del]

section \<open>The program headers\<close>

definition kernel_buffer :: u64 where "kernel_buffer = 0x20000"

text \<open>One header at \<open>RBX\<close>; \<open>R10\<close> and \<open>R11\<close> are the physical range of the kernel so far.\<close>

definition elf_program_header :: "u64 \<Rightarrow> u64 \<times> u64 \<Rightarrow> ram \<Rightarrow> ((u64 \<times> u64) \<times> ram) run" where
  "elf_program_header rbx bounds m = (case bounds of (r10, r11) \<Rightarrow> do {
     eax \<leftarrow> fetch 4 rbx m;
     if eax \<noteq> 1 then ret ((r10, r11), m)
     else do {
       r9 \<leftarrow> fetch 8 (rbx + 0x08) m;
       let rsi = kernel_buffer + of_nat r9;
       rax \<leftarrow> fetch 8 (rbx + 0x18) m;
       let r10 = (if r10 \<le> of_nat rax then r10 else of_nat rax);
       rax \<leftarrow> fetch 8 (rbx + 0x18) m;
       memsz \<leftarrow> fetch 8 (rbx + 0x28) m;
       let rax = of_nat rax + of_nat memsz;
       let r11 = (if rax \<le> r11 then r11 else rax);
       rdi \<leftarrow> fetch 8 (rbx + 0x18) m;
       rcx \<leftarrow> fetch 8 (rbx + 0x20) m;
       (rsi, rdi, m) \<leftarrow> memory_copy rsi (of_nat rdi) (of_nat rcx) m;
       rax \<leftarrow> fetch 8 (rbx + 0x28) m;
       filesz \<leftarrow> fetch 8 (rbx + 0x20) m;
       (rdi, m) \<leftarrow> memory_zero rdi (of_nat rax - of_nat filesz) m;
       ret ((r10, r11), m) } })"

lemma unat_rises: "r8 < r15 \<Longrightarrow> unat r15 - unat (r8 + 1) < unat r15 - unat r8" for r8 r15 :: u64
  using unat_bound [of r15] by (simp add: unat_word_ariths word_less_nat_alt)

function elf_program_loop :: "u64 \<Rightarrow> u64 \<Rightarrow> u64 \<Rightarrow> u64 \<Rightarrow> u64 \<times> u64 \<Rightarrow> ram \<Rightarrow> ((u64 \<times> u64) \<times> ram) run" where
  "elf_program_loop r14 r15 rbx r8 bounds m = (
     if r15 \<le> r8 then ret (bounds, m)
     else do {
       (bounds, m) \<leftarrow> elf_program_header rbx bounds m;
       elf_program_loop r14 r15 (rbx + r14) (r8 + 1) bounds m })"
  by pat_completeness auto

termination
  by (relation "measure (\<lambda>(r14, r15, rbx, r8, bounds, m). unat r15 - unat r8)") (simp_all add: unat_rises not_le)

declare elf_program_loop.simps [simp del]

text \<open>The header, with \<open>R12\<close>, \<open>R10\<close> and \<open>R11\<close> as the result; \<open>None\<close> is the jump to \<open>elf_error\<close>.\<close>

definition elf_load :: "ram \<Rightarrow> ((u64 \<times> u64 \<times> u64) option \<times> ram) run" where
  "elf_load m = do {
     mag \<leftarrow> fetch 4 kernel_buffer m;
     if mag \<noteq> 0x464C457F then ret (None, m)
     else do {
       elf_class \<leftarrow> fetch 1 (kernel_buffer + 4) m;
       if elf_class \<noteq> 2 then ret (None, m)
       else do {
         elf_data \<leftarrow> fetch 1 (kernel_buffer + 5) m;
         if elf_data \<noteq> 1 then ret (None, m)
         else do {
           r12 \<leftarrow> fetch 8 (kernel_buffer + 0x18) m;
           r13 \<leftarrow> fetch 8 (kernel_buffer + 0x20) m;
           r14 \<leftarrow> fetch 2 (kernel_buffer + 0x36) m;
           r15 \<leftarrow> fetch 2 (kernel_buffer + 0x38) m;
           ((r10, r11), m) \<leftarrow> elf_program_loop (of_nat r14) (of_nat r15) (kernel_buffer + of_nat r13) 0 (0xFFFFFFFFFFFFFFFF, 0) m;
           ret (Some (of_nat r12, r10, r11), m) } } } }"

section \<open>The copies\<close>

lemma le_nat_bound: "le_nat m a n < 256 ^ n"
proof (induction n arbitrary: a)
  case (Suc n)
  have "unat (m a) \<le> 255" using unat_bound [of "m a"] by simp
  then show ?case using Suc.IH [of "a + 1"] by simp
qed simp

lemma unat_next: "unat a + 1 \<le> 0x200000 \<Longrightarrow> unat (a + 1) = unat a + 1" for a :: u64
  by (simp add: unat_word_ariths)

lemma write_bytes_Cons: "write_bytes a (b # bs) m = write_bytes (a + 1) bs (m(a := b))"
  by (auto simp: write_bytes_def fun_eq_iff nth_Cons')

lemma le_nat_byte: "le_nat m a 1 = unat (m a)" "le_nat m a (Suc 0) = unat (m a)"
  by simp_all

lemma memory_copy_ret:
  assumes "unat rcx = n" and "unat rsi + n \<le> 0x200000" and "unat rdi + n \<le> 0x200000"
    and "unat rsi + n \<le> unat rdi \<or> unat rdi + n \<le> unat rsi"
  shows "\<exists>rsi'. memory_copy rsi rdi rcx m = ret (rsi', rdi + rcx, write_bytes (unat rdi) (map (\<lambda>i. m (unat rsi + i)) [0..<n]) m)"
  using assms
proof (induction n arbitrary: rsi rdi rcx m)
  case 0
  then show ?case by (simp add: memory_copy.simps unat_eq_0)
next
  case (Suc n)
  have nz: "rcx \<noteq> 0" using Suc.prems(1) by auto
  have c: "unat (rcx - 1) = n" using Suc.prems(1) nz by (simp add: unat_minus_one)
  have a: "unat (rsi + 1) = unat rsi + 1" "unat (rdi + 1) = unat rdi + 1" using Suc.prems(2,3) by (simp_all add: unat_next)
  let ?m = "m(unat rdi := m (unat rsi))"
  have step: "memory_copy rsi rdi rcx m = memory_copy (rsi + 1) (rdi + 1) (rcx - 1) ?m"
    using nz Suc.prems(2,3) by (subst memory_copy.simps) (simp add: fetch_def store_byte_def le_nat_byte)
  obtain rsi' where r: "memory_copy (rsi + 1) (rdi + 1) (rcx - 1) ?m
      = ret (rsi', rdi + 1 + (rcx - 1), write_bytes (unat (rdi + 1)) (map (\<lambda>i. ?m (unat (rsi + 1) + i)) [0..<n]) ?m)"
    using Suc.IH [OF c, of "rsi + 1" "rdi + 1" ?m] Suc.prems(2-4) unfolding a by fastforce
  have "map (\<lambda>i. ?m (unat (rsi + 1) + i)) [0..<n] = map (\<lambda>i. m (unat rsi + Suc i)) [0..<n]"
    using Suc.prems(4) unfolding a by auto
  then have "write_bytes (unat (rdi + 1)) (map (\<lambda>i. ?m (unat (rsi + 1) + i)) [0..<n]) ?m
      = write_bytes (unat rdi) (map (\<lambda>i. m (unat rsi + i)) [0..<Suc n]) m"
    by (simp only: a map_upt_Suc write_bytes_Cons add_0_right)
  then show ?case using step r by (simp del: fun_upd_apply upt_Suc)
qed

lemma memory_zero_ret:
  assumes "unat rcx = n" and "unat rdi + n \<le> 0x200000"
  shows "memory_zero rdi rcx m = ret (rdi + rcx, write_bytes (unat rdi) (replicate n 0) m)"
  using assms
proof (induction n arbitrary: rdi rcx m)
  case 0
  then show ?case by (simp add: memory_zero.simps unat_eq_0)
next
  case (Suc n)
  have nz: "rcx \<noteq> 0" using Suc.prems(1) by auto
  have c: "unat (rcx - 1) = n" using Suc.prems(1) nz by (simp add: unat_minus_one)
  have a: "unat (rdi + 1) = unat rdi + 1" using Suc.prems(2) by (simp add: unat_next)
  have step: "memory_zero rdi rcx m = memory_zero (rdi + 1) (rcx - 1) (m(unat rdi := 0))"
    using nz Suc.prems(2) by (subst memory_zero.simps) (simp add: store_byte_def)
  then show ?case
    using Suc.IH [OF c, of "rdi + 1" "m(unat rdi := 0)"] Suc.prems(2) by (simp add: a write_bytes_Cons del: fun_upd_apply)
qed

section \<open>The file\<close>

text \<open>A file is its bytes, zero behind its end.  Segments are what its loadable program headers say.\<close>

definition file_bytes :: "u8 list \<Rightarrow> ram" where
  "file_bytes elf = (\<lambda>i. if i < length elf then elf ! i else 0)"

record segment =
  seg_offset :: nat
  seg_paddr :: nat
  seg_filesz :: nat
  seg_memsz :: nat

definition phdr_segment :: "ram \<Rightarrow> nat \<Rightarrow> segment" where
  "phdr_segment F h = \<lparr>seg_offset = le_nat F (h + 0x08) 8, seg_paddr = le_nat F (h + 0x18) 8,
     seg_filesz = le_nat F (h + 0x20) 8, seg_memsz = le_nat F (h + 0x28) 8\<rparr>"

definition elf_headers :: "ram \<Rightarrow> nat list" where
  "elf_headers F = map (\<lambda>i. le_nat F 0x20 8 + i * le_nat F 0x36 2) [0..<le_nat F 0x38 2]"

definition loadable :: "ram \<Rightarrow> nat list \<Rightarrow> segment list" where
  "loadable F hs = map (phdr_segment F) (filter (\<lambda>h. le_nat F h 4 = 1) hs)"

definition elf_segments :: "ram \<Rightarrow> segment list" where
  "elf_segments F = loadable F (elf_headers F)"

definition load_segment :: "ram \<Rightarrow> segment \<Rightarrow> ram \<Rightarrow> ram" where
  "load_segment F g m = write_bytes (seg_paddr g + seg_filesz g) (replicate (seg_memsz g - seg_filesz g) 0)
     (write_bytes (seg_paddr g) (map (\<lambda>i. F (seg_offset g + i)) [0..<seg_filesz g]) m)"

definition grow_range :: "segment \<Rightarrow> u64 \<times> u64 \<Rightarrow> u64 \<times> u64" where
  "grow_range g r = (min (fst r) (of_nat (seg_paddr g)), max (of_nat (seg_paddr g + seg_memsz g)) (snd r))"

text \<open>A segment inside the file whose memory is between 1 and 2 MiB.\<close>

definition segment_ok :: "nat \<Rightarrow> segment \<Rightarrow> bool" where
  "segment_ok len g \<longleftrightarrow> seg_offset g + seg_filesz g \<le> len \<and> seg_filesz g \<le> seg_memsz g
     \<and> 0x100000 \<le> seg_paddr g \<and> seg_paddr g + seg_memsz g \<le> 0x200000"

definition holds_file :: "ram \<Rightarrow> nat \<Rightarrow> ram \<Rightarrow> bool" where
  "holds_file F len m \<longleftrightarrow> (\<forall>i < len. m (0x20000 + i) = F i)"

lemma fetch_file:
  assumes "holds_file F len m" and "len \<le> 0xE0000" and "h + n \<le> len"
  shows "fetch n (of_nat (0x20000 + h)) m = ret (le_nat F h n)"
proof -
  have "unat (of_nat (0x20000 + h) :: u64) = 0x20000 + h" using assms by (intro unat_of_nat_small) simp
  moreover have "le_nat m (0x20000 + h) n = le_nat F h n" using assms(1,3) by (intro le_nat_cong) (simp add: holds_file_def add.assoc)
  ultimately show ?thesis using assms by (simp add: fetch_def)
qed

lemma load_segment_low: "segment_ok len g \<Longrightarrow> x < 0x100000 \<Longrightarrow> load_segment F g m x = m x"
  by (simp add: load_segment_def segment_ok_def write_bytes_outside)

lemma holds_file_load: "holds_file F len m \<Longrightarrow> len \<le> 0xE0000 \<Longrightarrow> segment_ok len g \<Longrightarrow> holds_file F len (load_segment F g m)"
  by (simp add: holds_file_def load_segment_low)

lemma copy_segment:
  assumes "holds_file F len m" and "len \<le> 0xE0000" and "segment_ok len g"
  shows "\<exists>rsi m'. memory_copy (kernel_buffer + of_nat (seg_offset g)) (of_nat (seg_paddr g)) (of_nat (seg_filesz g)) m
      = ret (rsi, of_nat (seg_paddr g + seg_filesz g), m') \<and> holds_file F len m'
    \<and> memory_zero (of_nat (seg_paddr g + seg_filesz g)) (of_nat (seg_memsz g) - of_nat (seg_filesz g)) m'
      = ret (of_nat (seg_paddr g + seg_filesz g) + (of_nat (seg_memsz g) - of_nat (seg_filesz g)), load_segment F g m)"
proof -
  have ok: "seg_offset g + seg_filesz g \<le> len" "seg_filesz g \<le> seg_memsz g" "0x100000 \<le> seg_paddr g" "seg_paddr g + seg_memsz g \<le> 0x200000"
    using assms(3) by (simp_all add: segment_ok_def)
  have u: "unat (of_nat (seg_filesz g) :: u64) = seg_filesz g" "unat (of_nat (seg_paddr g) :: u64) = seg_paddr g"
      "unat (of_nat (0x20000 + seg_offset g) :: u64) = 0x20000 + seg_offset g" "unat (of_nat (seg_paddr g + seg_filesz g) :: u64) = seg_paddr g + seg_filesz g"
    using ok assms(2) by (intro unat_of_nat_small; simp)+
  have z: "(of_nat (seg_memsz g) - of_nat (seg_filesz g) :: u64) = of_nat (seg_memsz g - seg_filesz g)" using ok(2) by (simp add: of_nat_diff)
  have zu: "unat (of_nat (seg_memsz g - seg_filesz g) :: u64) = seg_memsz g - seg_filesz g" using ok by (intro unat_of_nat_small) simp
  let ?m = "write_bytes (seg_paddr g) (map (\<lambda>i. F (seg_offset g + i)) [0..<seg_filesz g]) m"
  have src: "map (\<lambda>i. m (0x20000 + seg_offset g + i)) [0..<seg_filesz g] = map (\<lambda>i. F (seg_offset g + i)) [0..<seg_filesz g]"
    using assms(1) ok(1) by (auto simp: holds_file_def add.assoc)
  have b: "kernel_buffer + of_nat (seg_offset g) = of_nat (0x20000 + seg_offset g)" by (simp add: kernel_buffer_def)
  obtain rsi where "memory_copy (kernel_buffer + of_nat (seg_offset g)) (of_nat (seg_paddr g)) (of_nat (seg_filesz g)) m
      = ret (rsi, of_nat (seg_paddr g) + of_nat (seg_filesz g), ?m)"
    using memory_copy_ret [OF u(1), of "of_nat (0x20000 + seg_offset g)" "of_nat (seg_paddr g)" m, unfolded u src] ok assms(2) unfolding b by auto
  moreover have "holds_file F len ?m" using assms ok(3) by (simp add: holds_file_def write_bytes_outside)
  moreover have "memory_zero (of_nat (seg_paddr g + seg_filesz g)) (of_nat (seg_memsz g) - of_nat (seg_filesz g)) ?m
      = ret (of_nat (seg_paddr g + seg_filesz g) + (of_nat (seg_memsz g) - of_nat (seg_filesz g)), load_segment F g m)"
    unfolding z using memory_zero_ret [OF zu, of "of_nat (seg_paddr g + seg_filesz g)" ?m, unfolded u(4)] ok by (simp add: load_segment_def)
  ultimately show ?thesis by (intro exI conjI) (simp_all only: of_nat_add)
qed

lemma elf_program_header_ret:
  assumes "holds_file F len m" and "len \<le> 0xE0000" and "h + 56 \<le> len" and "le_nat F h 4 = 1 \<Longrightarrow> segment_ok len (phdr_segment F h)"
  shows "elf_program_header (of_nat (0x20000 + h)) r m = ret (if le_nat F h 4 = 1
    then (grow_range (phdr_segment F h) r, load_segment F (phdr_segment F h) m) else (r, m))"
proof (cases "le_nat F h 4 = 1")
  case True
  let ?g = "phdr_segment F h"
  note ok = assms(4) [OF True]
  define b :: u64 where "b = of_nat (0x20000 + h)"
  define d :: u64 where "d = of_nat (seg_paddr ?g + seg_filesz ?g)"
  have at: "b + k = of_nat (0x20000 + (h + n))" if "k = of_nat n" for k n using that by (simp add: b_def)
  have f: "fetch 4 b m' = ret 1" "fetch 8 (b + 0x08) m' = ret (seg_offset ?g)"
    "fetch 8 (b + 0x18) m' = ret (seg_paddr ?g)" "fetch 8 (b + 0x20) m' = ret (seg_filesz ?g)"
    "fetch 8 (b + 0x28) m' = ret (seg_memsz ?g)" if "holds_file F len m'" for m'
    using fetch_file [OF that assms(2), of h 4] fetch_file [OF that assms(2), of "h + 0x08" 8] fetch_file [OF that assms(2), of "h + 0x18" 8]
      fetch_file [OF that assms(2), of "h + 0x20" 8] fetch_file [OF that assms(2), of "h + 0x28" 8] assms(3) True
    by (simp_all add: phdr_segment_def b_def [symmetric] at [of _ "0x08"] at [of _ "0x18"] at [of _ "0x20"] at [of _ "0x28"] del: of_nat_add)
  obtain rsi m' e where c: "memory_copy (kernel_buffer + of_nat (seg_offset ?g)) (of_nat (seg_paddr ?g)) (of_nat (seg_filesz ?g)) m
      = ret (rsi, d, m')" and m': "holds_file F len m'"
    and z: "memory_zero d (of_nat (seg_memsz ?g) - of_nat (seg_filesz ?g)) m' = ret (e, load_segment F ?g m)"
    using copy_segment [OF assms(1,2) ok, folded d_def] by blast
  have "elf_program_header b r m = ret (grow_range ?g r, load_segment F ?g m)"
    by (cases r) (simp add: elf_program_header_def f [OF assms(1)] f [OF m'] c z grow_range_def min_def max_def)
  then show ?thesis using True by (simp add: b_def)
next
  case False
  then show ?thesis using fetch_file [OF assms(1,2), of h 4] assms(3) by (simp add: elf_program_header_def split: prod.split)
qed

text \<open>The loop over headers that are a fixed distance apart.\<close>

lemma elf_program_loop_ret:
  assumes "unat r8 + n = unat r15" and "rbx = of_nat (0x20000 + h)" and "hs = map (\<lambda>i. h + i * k) [0..<n]" and "r14 = of_nat k"
    and "holds_file F len m" and "len \<le> 0xE0000" and "\<forall>h \<in> set hs. h + 56 \<le> len" and "\<forall>g \<in> set (loadable F hs). segment_ok len g"
  shows "elf_program_loop r14 r15 rbx r8 r m = ret (fold grow_range (loadable F hs) r, fold (load_segment F) (loadable F hs) m)"
  using assms
proof (induction n arbitrary: r8 rbx h hs r m)
  case 0
  then show ?case by (simp add: elf_program_loop.simps loadable_def word_le_nat_alt)
next
  case (Suc n)
  let ?g = "phdr_segment F h" and ?p = "le_nat F h 4 = 1"
  let ?r = "if ?p then grow_range ?g r else r" and ?m = "if ?p then load_segment F ?g m else m"
  let ?hs = "map (\<lambda>i. h + k + i * k) [0..<n]"
  have hs: "hs = h # ?hs" unfolding Suc.prems(3) map_upt_Suc by (simp add: add.assoc)
  have seg: "?p \<Longrightarrow> segment_ok len ?g" using Suc.prems(8) unfolding hs by (simp add: loadable_def)
  have hd: "h + 56 \<le> len" using Suc.prems(7) unfolding hs by simp
  have step: "elf_program_loop r14 r15 rbx r8 r m = elf_program_loop r14 r15 (rbx + r14) (r8 + 1) ?r ?m"
    using Suc.prems(1) elf_program_header_ret [OF Suc.prems(5,6) hd seg, of r] unfolding Suc.prems(2)
    by (subst elf_program_loop.simps) (simp add: word_le_nat_alt)
  have count: "unat (r8 + 1) + n = unat r15" using Suc.prems(1) unat_bound [of r15] by (simp add: unat_word_ariths)
  have rbx: "rbx + r14 = of_nat (0x20000 + (h + k))" using Suc.prems(2,4) by simp
  have held: "holds_file F len ?m" using Suc.prems(5,6) seg holds_file_load by simp
  have rest: "\<forall>h \<in> set ?hs. h + 56 \<le> len" "\<forall>g \<in> set (loadable F ?hs). segment_ok len g"
    using Suc.prems(7,8) unfolding hs by (auto simp: loadable_def)
  have "elf_program_loop r14 r15 (rbx + r14) (r8 + 1) ?r ?m = ret (fold grow_range (loadable F ?hs) ?r, fold (load_segment F) (loadable F ?hs) ?m)"
    by (rule Suc.IH [OF count rbx refl Suc.prems(4) held Suc.prems(6) rest])
  then show ?case unfolding step hs by (simp add: loadable_def)
qed

text \<open>Files that load: an ELF64 header, and headers and segments inside the file.\<close>

definition elf_ok :: "u8 list \<Rightarrow> bool" where
  "elf_ok elf \<longleftrightarrow> (let F = file_bytes elf in le_nat F 0 4 = 0x464C457F \<and> le_nat F 4 1 = 2 \<and> le_nat F 5 1 = 1 \<and> 64 \<le> length elf
     \<and> (\<forall>h \<in> set (elf_headers F). h + 56 \<le> length elf) \<and> (\<forall>g \<in> set (elf_segments F). segment_ok (length elf) g))"

definition elf_entry :: "u8 list \<Rightarrow> u64" where
  "elf_entry elf = of_nat (le_nat (file_bytes elf) 0x18 8)"

definition kernel_range :: "segment list \<Rightarrow> u64 \<times> u64" where
  "kernel_range gs = fold grow_range gs (0xFFFFFFFFFFFFFFFF, 0)"

lemma elf_load_ret:
  assumes "elf_ok elf" and "holds_file (file_bytes elf) (length elf) m" and "length elf \<le> 0xE0000"
  shows "elf_load m = ret (Some (elf_entry elf, kernel_range (elf_segments (file_bytes elf))),
    fold (load_segment (file_bytes elf)) (elf_segments (file_bytes elf)) m)"
proof -
  let ?F = "file_bytes elf"
  have ok: "le_nat ?F 0 4 = 0x464C457F" "le_nat ?F 4 1 = 2" "le_nat ?F 5 1 = 1" "64 \<le> length elf"
      "\<forall>h \<in> set (elf_headers ?F). h + 56 \<le> length elf" "\<forall>g \<in> set (elf_segments ?F). segment_ok (length elf) g"
    using assms(1) by (simp_all add: elf_ok_def Let_def)
  have at: "kernel_buffer + k = of_nat (0x20000 + n)" if "k = of_nat n" for k n using that by (simp add: kernel_buffer_def)
  note at_offset = fetch_file [OF assms(2,3)]
  have f: "fetch 4 kernel_buffer m = ret (le_nat ?F 0 4)" "fetch 1 (kernel_buffer + 4) m = ret (le_nat ?F 4 1)"
    "fetch 1 (kernel_buffer + 5) m = ret (le_nat ?F 5 1)" "fetch 8 (kernel_buffer + 0x18) m = ret (le_nat ?F 0x18 8)"
    "fetch 8 (kernel_buffer + 0x20) m = ret (le_nat ?F 0x20 8)" "fetch 2 (kernel_buffer + 0x36) m = ret (le_nat ?F 0x36 2)"
    "fetch 2 (kernel_buffer + 0x38) m = ret (le_nat ?F 0x38 2)"
    using at_offset [of 0 4] at_offset [of 4 1] at_offset [of 5 1] at_offset [of "0x18" 8] at_offset [of "0x20" 8] at_offset [of "0x36" 2] at_offset [of "0x38" 2] ok(4)
    by (simp_all add: kernel_buffer_def del: One_nat_def)
  have n: "unat (0 :: u64) + le_nat ?F 0x38 2 = unat (of_nat (le_nat ?F 0x38 2) :: u64)"
    using le_nat_bound [of ?F "0x38" 2] unat_of_nat_small [of "le_nat ?F 0x38 2", where 'a = 64] by simp
  have "elf_program_loop (of_nat (le_nat ?F 0x36 2)) (of_nat (le_nat ?F 0x38 2)) (kernel_buffer + of_nat (le_nat ?F 0x20 8)) 0 r m
      = ret (fold grow_range (elf_segments ?F) r, fold (load_segment ?F) (elf_segments ?F) m)" for r
    unfolding elf_segments_def
    by (rule elf_program_loop_ret [OF n at [OF refl] elf_headers_def refl assms(2,3) ok(5) ok(6) [unfolded elf_segments_def]])
  then show ?thesis
    unfolding elf_load_def f ok(1-3) by (simp add: elf_entry_def kernel_range_def split: prod.split)
qed

section \<open>What is loaded\<close>

definition segment_loaded :: "ram \<Rightarrow> ram \<Rightarrow> segment \<Rightarrow> bool" where
  "segment_loaded F m g \<longleftrightarrow> (\<forall>i < seg_memsz g. m (seg_paddr g + i) = (if i < seg_filesz g then F (seg_offset g + i) else 0))"

definition apart :: "segment \<Rightarrow> segment \<Rightarrow> bool" where
  "apart g g' \<longleftrightarrow> seg_paddr g + seg_memsz g \<le> seg_paddr g' \<or> seg_paddr g' + seg_memsz g' \<le> seg_paddr g"

lemma load_segment_outside:
  "seg_filesz g \<le> seg_memsz g \<Longrightarrow> x < seg_paddr g \<or> seg_paddr g + seg_memsz g \<le> x \<Longrightarrow> load_segment F g m x = m x"
  by (auto simp: load_segment_def write_bytes_def)

lemma load_segment_inside: "seg_filesz g \<le> seg_memsz g \<Longrightarrow> segment_loaded F (load_segment F g m) g"
  by (auto simp: segment_loaded_def load_segment_def write_bytes_def)

lemma load_segments_outside:
  "\<forall>g \<in> set gs. seg_filesz g \<le> seg_memsz g \<and> (x < seg_paddr g \<or> seg_paddr g + seg_memsz g \<le> x) \<Longrightarrow> fold (load_segment F) gs m x = m x"
  by (induction gs arbitrary: m) (simp_all add: load_segment_outside)

lemma load_segments_inside:
  assumes "sorted_wrt apart gs" and "\<forall>g \<in> set gs. seg_filesz g \<le> seg_memsz g" and "g \<in> set gs"
  shows "segment_loaded F (fold (load_segment F) gs m) g"
  using assms
proof (induction gs arbitrary: m)
  case (Cons g' gs)
  show ?case
  proof (cases "g \<in> set gs")
    case True
    then show ?thesis using Cons by simp
  next
    case False
    then have "g = g'" using Cons.prems(3) by simp
    have "fold (load_segment F) gs (load_segment F g m) (seg_paddr g + i) = load_segment F g m (seg_paddr g + i)" if "i < seg_memsz g" for i
      using Cons.prems(1,2) that \<open>g = g'\<close> by (intro load_segments_outside) (auto simp: apart_def)
    then show ?thesis using load_segment_inside [of g F m] Cons.prems(2) \<open>g = g'\<close> by (simp add: segment_loaded_def)
  qed
qed simp

lemma grow_range_fold:
  assumes "\<forall>g \<in> set gs. seg_paddr g + seg_memsz g \<le> 0x200000"
  shows "(\<forall>g \<in> set gs. unat (fst (fold grow_range gs r)) \<le> seg_paddr g \<and> seg_paddr g + seg_memsz g \<le> unat (snd (fold grow_range gs r)))
    \<and> unat (fst (fold grow_range gs r)) \<le> unat (fst r) \<and> unat (snd r) \<le> unat (snd (fold grow_range gs r))
    \<and> (fst (fold grow_range gs r) = fst r \<or> (\<exists>g \<in> set gs. unat (fst (fold grow_range gs r)) = seg_paddr g))
    \<and> (snd (fold grow_range gs r) = snd r \<or> (\<exists>g \<in> set gs. unat (snd (fold grow_range gs r)) = seg_paddr g + seg_memsz g))"
  using assms
proof (induction gs arbitrary: r)
  case (Cons g gs)
  have u: "unat (of_nat (seg_paddr g) :: u64) = seg_paddr g" "unat (of_nat (seg_paddr g + seg_memsz g) :: u64) = seg_paddr g + seg_memsz g"
    using Cons.prems by (intro unat_of_nat_small; simp)+
  have "unat (fst (grow_range g r)) = min (unat (fst r)) (seg_paddr g)" "unat (snd (grow_range g r)) = max (seg_paddr g + seg_memsz g) (unat (snd r))"
    unfolding grow_range_def fst_conv snd_conv min_def max_def word_le_nat_alt u by (simp_all only: u if_distrib [of unat])
  moreover have "fst (grow_range g r) = fst r \<or> unat (fst (grow_range g r)) = seg_paddr g" "snd (grow_range g r) = snd r \<or> unat (snd (grow_range g r)) = seg_paddr g + seg_memsz g"
    unfolding grow_range_def fst_conv snd_conv min_def max_def using u by auto
  ultimately show ?case using Cons.IH [of "grow_range g r"] Cons.prems by fastforce
qed simp

section \<open>A small file\<close>

lemma le_nat_file:
  assumes "take n (drop a elf) = le_list n v" and "v < 256 ^ n"
  shows "le_nat (file_bytes elf) a n = v"
proof (rule le_nat_le_list [OF _ assms(2)])
  fix i assume i: "i < n"
  have "length (take n (drop a elf)) = n" unfolding assms(1) by simp
  then have "a + n \<le> length elf \<or> n = 0" by (auto simp: min_def split: if_splits)
  then have "file_bytes elf (a + i) = take n (drop a elf) ! i" using i by (simp add: file_bytes_def)
  then show "file_bytes elf (a + i) = le_list n v ! i" unfolding assms(1) .
qed

text \<open>A file with one segment of two bytes and two zeros behind them.\<close>

definition tiny_elf :: "u8 list" where
  "tiny_elf = le_list 4 0x464C457F @ le_list 1 2 @ le_list 1 1 @ replicate 18 0 @ le_list 8 0x100000 @ le_list 8 64 @ replicate 14 0 @ le_list 2 56 @ le_list 2 1 @ replicate 6 0
     @ le_list 4 1 @ le_list 4 5 @ le_list 8 120 @ le_list 8 0x100000 @ le_list 8 0x100000 @ le_list 8 2 @ le_list 8 4 @ le_list 8 0x1000 @ [0xFA, 0xF4]"

lemma tiny_elf_fields:
  "le_nat (file_bytes tiny_elf) 0 4 = 0x464C457F" "le_nat (file_bytes tiny_elf) 4 1 = 2" "le_nat (file_bytes tiny_elf) 5 1 = 1"
  "le_nat (file_bytes tiny_elf) 0x18 8 = 0x100000" "le_nat (file_bytes tiny_elf) 0x20 8 = 64" "le_nat (file_bytes tiny_elf) 0x36 2 = 56"
  "le_nat (file_bytes tiny_elf) 0x38 2 = 1" "le_nat (file_bytes tiny_elf) 64 4 = 1" "le_nat (file_bytes tiny_elf) 72 8 = 120"
  "le_nat (file_bytes tiny_elf) 88 8 = 0x100000" "le_nat (file_bytes tiny_elf) 96 8 = 2" "le_nat (file_bytes tiny_elf) 104 8 = 4"
  by (rule le_nat_file; simp add: tiny_elf_def del: le_list.simps One_nat_def)+

lemma length_tiny_elf: "length tiny_elf = 122"
  by (simp add: tiny_elf_def del: le_list.simps One_nat_def)

lemma tiny_elf_segments: "elf_headers (file_bytes tiny_elf) = [64]"
    "elf_segments (file_bytes tiny_elf) = [\<lparr>seg_offset = 120, seg_paddr = 0x100000, seg_filesz = 2, seg_memsz = 4\<rparr>]"
  by (simp_all add: elf_segments_def elf_headers_def loadable_def phdr_segment_def tiny_elf_fields)

lemma tiny_elf_ok: "elf_ok tiny_elf"
  unfolding elf_ok_def Let_def tiny_elf_fields tiny_elf_segments by (simp add: length_tiny_elf segment_ok_def)

end
