(* ===== verification/Msr.thy ===== *)
theory Msr
  imports Prelude
begin

text \<open>
  The model-specific registers that configure \<open>syscall\<close> and \<open>sysret\<close> (\<open>arch/x86_64/msr.rs\<close>).  The register
  file of the processor is a function of the register number; \<open>rdmsr\<close> and \<open>wrmsr\<close> move a register through
  the two 32-bit halves \<open>EDX:EAX\<close>.
\<close>

section \<open>Constants\<close>

definition IA32_EFER :: u32 where "IA32_EFER = 0xC0000080"
definition IA32_STAR :: u32 where "IA32_STAR = 0xC0000081"
definition IA32_LSTAR :: u32 where "IA32_LSTAR = 0xC0000082"
definition IA32_CSTAR :: u32 where "IA32_CSTAR = 0xC0000083"
definition IA32_FMASK :: u32 where "IA32_FMASK = 0xC0000084"

definition EFER_SCE :: u64 where "EFER_SCE = push_bit 0 1"

definition STAR_KERNEL_CS :: u64 where "STAR_KERNEL_CS = 0x08"
definition STAR_USER_CS_BASE :: u64 where "STAR_USER_CS_BASE = 0x20"

text \<open>The selectors this file repeats from the descriptor table, under the prefix of the file.\<close>

definition msr_USER_DATA_SELECTOR_R3 :: u16 where "msr_USER_DATA_SELECTOR_R3 = 0x2B"
definition msr_USER_CODE_SELECTOR_R3 :: u16 where "msr_USER_CODE_SELECTOR_R3 = 0x33"

definition SYSCALL_FMASK :: u64 where "SYSCALL_FMASK = 0x200"

section \<open>Raw access\<close>

type_synonym msr_file = "u32 \<Rightarrow> u64"

definition rdmsr :: "u32 \<Rightarrow> msr_file \<Rightarrow> u32 \<times> u32" where
  "rdmsr ecx msrs = (ucast (msrs ecx), ucast (drop_bit 32 (msrs ecx)))"

definition wrmsr :: "u32 \<Rightarrow> u32 \<Rightarrow> u32 \<Rightarrow> msr_file \<Rightarrow> msr_file" where
  "wrmsr ecx eax edx msrs = msrs(ecx := push_bit 32 (ucast edx) OR ucast eax)"

definition msr_read :: "u32 \<Rightarrow> msr_file \<Rightarrow> u64" where
  "msr_read msr msrs = (case rdmsr msr msrs of (low, high) \<Rightarrow> push_bit 32 (ucast high) OR ucast low)"

definition msr_write :: "u32 \<Rightarrow> u64 \<Rightarrow> msr_file \<Rightarrow> msr_file" where
  "msr_write msr value msrs = (let low = ucast value; high = ucast (drop_bit 32 value) in wrmsr msr low high msrs)"

section \<open>EFER\<close>

definition read_efer :: "msr_file \<Rightarrow> u64" where
  "read_efer msrs = msr_read IA32_EFER msrs"

definition write_efer :: "u64 \<Rightarrow> msr_file \<Rightarrow> msr_file" where
  "write_efer value msrs = msr_write IA32_EFER value msrs"

definition enable_syscall_extensions :: "msr_file \<Rightarrow> msr_file" where
  "enable_syscall_extensions msrs = (let efer = read_efer msrs in
     if efer AND EFER_SCE = 0 then write_efer (efer OR EFER_SCE) msrs else msrs)"

definition syscall_extensions_enabled :: "msr_file \<Rightarrow> bool" where
  "syscall_extensions_enabled msrs \<longleftrightarrow> read_efer msrs AND EFER_SCE \<noteq> 0"

section \<open>STAR, LSTAR, CSTAR and FMASK\<close>

definition make_star :: u64 where
  "make_star = push_bit 48 STAR_USER_CS_BASE OR push_bit 32 STAR_KERNEL_CS"

definition read_star :: "msr_file \<Rightarrow> u64" where "read_star msrs = msr_read IA32_STAR msrs"
definition read_lstar :: "msr_file \<Rightarrow> u64" where "read_lstar msrs = msr_read IA32_LSTAR msrs"
definition read_cstar :: "msr_file \<Rightarrow> u64" where "read_cstar msrs = msr_read IA32_CSTAR msrs"
definition read_fmask :: "msr_file \<Rightarrow> u64" where "read_fmask msrs = msr_read IA32_FMASK msrs"

definition init_syscall_msrs :: "u64 \<Rightarrow> msr_file \<Rightarrow> msr_file" where
  "init_syscall_msrs lstar msrs =
     (let star = make_star;
          msrs = msr_write IA32_STAR star msrs;
          msrs = msr_write IA32_LSTAR lstar msrs;
          msrs = msr_write IA32_CSTAR 0 msrs
      in msr_write IA32_FMASK SYSCALL_FMASK msrs)"

definition verify_syscall_msrs :: "u64 \<Rightarrow> msr_file \<Rightarrow> bool" where
  "verify_syscall_msrs lstar msrs \<longleftrightarrow>
     (let star = read_star msrs; actual_lstar = read_lstar msrs; cstar = read_cstar msrs; fmask = read_fmask msrs in
      if star \<noteq> make_star then False
      else if actual_lstar \<noteq> lstar then False
      else if cstar \<noteq> 0 then False
      else if fmask \<noteq> SYSCALL_FMASK then False
      else True)"

definition verify_syscall_selectors :: "bool run" where
  "verify_syscall_selectors = do {
     user_code \<leftarrow> padd STAR_USER_CS_BASE 16;
     user_data \<leftarrow> padd STAR_USER_CS_BASE 8;
     ret ((ucast user_code :: u16) = 0x30 \<and> (ucast user_data :: u16) = 0x28 \<and> msr_USER_CODE_SELECTOR_R3 = 0x33
       \<and> msr_USER_DATA_SELECTOR_R3 = 0x2B \<and> (ucast STAR_KERNEL_CS :: u16) = 0x08) }"

definition syscall_kernel_cs :: u16 where
  "syscall_kernel_cs = ucast STAR_KERNEL_CS"

definition syscall_kernel_ss :: "u16 run" where
  "syscall_kernel_ss = do { ss \<leftarrow> padd STAR_KERNEL_CS 8; ret (ucast ss) }"

definition sysret_user_cs :: "u16 run" where
  "sysret_user_cs = do { cs \<leftarrow> padd STAR_USER_CS_BASE 16; ret (ucast cs OR 0x03) }"

definition sysret_user_ss :: "u16 run" where
  "sysret_user_ss = do { ss \<leftarrow> padd STAR_USER_CS_BASE 8; ret (ucast ss OR 0x03) }"

section \<open>Reading back what was written\<close>

lemma word_halves: "push_bit 32 (ucast (ucast (drop_bit 32 v) :: u32)) OR ucast (ucast v :: u32) = (v :: u64)"
proof (rule bit_word_eqI)
  fix n assume "n < LENGTH(64)"
  then show "bit (push_bit 32 (ucast (ucast (drop_bit 32 v) :: u32)) OR ucast (ucast v :: u32) :: u64) n \<longleftrightarrow> bit v n"
    by (cases "n < 32") (auto simp: bit_simps)
qed

lemma msr_read_eq [simp]: "msr_read r msrs = msrs r"
  by (simp add: msr_read_def rdmsr_def word_halves)

lemma msr_write_eq [simp]: "msr_write r v msrs = msrs(r := v)"
  by (simp add: msr_write_def wrmsr_def Let_def word_halves)

lemmas msr_numbers = IA32_EFER_def IA32_STAR_def IA32_LSTAR_def IA32_CSTAR_def IA32_FMASK_def

lemmas msr_readers = read_efer_def read_star_def read_lstar_def read_cstar_def read_fmask_def write_efer_def

lemma enable_syscall_extensions_eq: "enable_syscall_extensions msrs = msrs(IA32_EFER := msrs IA32_EFER OR 1)"
proof -
  have "msrs IA32_EFER OR 1 = msrs IA32_EFER" if "msrs IA32_EFER AND 1 \<noteq> 0"
    using that by (auto simp: and_one_eq or_one_eq odd_iff_mod_2_eq_one bit_0 split: if_splits)
  then show ?thesis by (auto simp: enable_syscall_extensions_def Let_def msr_readers EFER_SCE_def fun_upd_idem)
qed

lemma init_syscall_msrs_eq:
  "init_syscall_msrs lstar msrs
    = msrs(IA32_STAR := make_star, IA32_LSTAR := lstar, IA32_CSTAR := 0, IA32_FMASK := SYSCALL_FMASK)"
  by (simp add: init_syscall_msrs_def Let_def)

lemma init_then_verify: "verify_syscall_msrs lstar (init_syscall_msrs lstar msrs)"
  by (simp add: verify_syscall_msrs_def init_syscall_msrs_eq Let_def msr_readers msr_numbers)

lemma enable_then_enabled: "syscall_extensions_enabled (enable_syscall_extensions msrs)"
proof -
  have "bit ((msrs IA32_EFER OR 1) AND 1) 0" by (simp add: bit_simps)
  then have "(msrs IA32_EFER OR 1) AND 1 \<noteq> 0" by (metis bit_0_eq bot_apply bot_bool_def)
  then show ?thesis by (simp add: syscall_extensions_enabled_def enable_syscall_extensions_eq msr_readers EFER_SCE_def)
qed

end
