(* ===== verification/Syscall.thy ===== *)
theory Syscall
  imports X86 Msr Descriptors
begin

text \<open>
  System calls: the dispatcher (\<open>syscall/mod.rs\<close>), the entry path (\<open>arch/x86_64/syscall.asm\<close>, \<open>syscall.rs\<close>) and
  the user side (\<open>user.rs\<close>, \<open>user_entry.asm\<close>).  The instructions \<open>syscall\<close> and \<open>sysretq\<close> of the processor are
  given by the model-specific registers they read.  The dispatcher as the entry path calls it is a function on the
  machine that follows the System V calling convention.
\<close>

section \<open>The dispatcher\<close>

definition SYS_GET_VERSION :: u64 where "SYS_GET_VERSION = 0"
definition UNBOUND_SYSCALL_ABI_VERSION :: u64 where "UNBOUND_SYSCALL_ABI_VERSION = 1"

definition dispatch :: "u64 \<Rightarrow> u64 \<Rightarrow> u64 \<Rightarrow> u64 \<Rightarrow> u64" where
  "dispatch number arg0 arg1 arg2 = (if number = SYS_GET_VERSION then UNBOUND_SYSCALL_ABI_VERSION else - 1)"

definition unbound_syscall_dispatch :: "u64 \<Rightarrow> u64 \<Rightarrow> u64 \<Rightarrow> u64 \<Rightarrow> u64" where
  "unbound_syscall_dispatch number arg0 arg1 arg2 = dispatch number arg0 arg1 arg2"

text \<open>The compiled dispatcher: arguments in \<open>RDI\<close>, \<open>RSI\<close>, \<open>RDX\<close>, \<open>RCX\<close>, the result in \<open>RAX\<close>.\<close>

definition dispatch_call :: "machine \<Rightarrow> machine" where
  "dispatch_call m = set_reg RAX (unbound_syscall_dispatch (m_regs m RDI) (m_regs m RSI) (m_regs m RDX) (m_regs m RCX)) m"

section \<open>Stacks\<close>

definition SYSCALL_STACK_SIZE :: u64 where "SYSCALL_STACK_SIZE = 16 * 1024"

definition syscall_entry_address :: "Addresses \<Rightarrow> u64" where
  "syscall_entry_address L = syscall_entry_addr L"

text \<open>The new value of \<open>unbound_syscall_stack_top\<close>.\<close>

definition initialize_stack :: "Addresses \<Rightarrow> u64 run" where
  "initialize_stack L = padd (syscall_stack_addr L) SYSCALL_STACK_SIZE"

definition USER_CODE_VADDR :: u64 where "USER_CODE_VADDR = 0x00400000"
definition USER_STACK_VADDR :: u64 where "USER_STACK_VADDR = 0x00800000"
definition USER_STACK_SIZE :: u64 where "USER_STACK_SIZE = 16 * 1024"

definition stack_physical_start :: "Addresses \<Rightarrow> u64" where
  "stack_physical_start L = user_stack_addr L"

definition stack_physical_end :: "Addresses \<Rightarrow> u64 run" where
  "stack_physical_end L = padd (stack_physical_start L) USER_STACK_SIZE"

definition test_entry_physical_address :: "Addresses \<Rightarrow> u64" where
  "test_entry_physical_address L = user_entry_addr L"

section \<open>Entering user mode\<close>

definition enter_ring3 :: "u64 \<Rightarrow> u64 \<Rightarrow> machine \<Rightarrow> machine" where
  "enter_ring3 entry user_stack m = iretq (exec [
     PushImm (ucast USER_DATA_SELECTOR_R3), PushImm user_stack, PushImm 0x202, PushImm (ucast USER_CODE_SELECTOR_R3), PushImm entry] m)"

text \<open>The user test program up to its \<open>syscall\<close>; \<open>xor r, r\<close> clears a register.\<close>

definition user_test_code :: "instr list" where
  "user_test_code = [MovImm RAX 0, MovImm RDI 0, MovImm RSI 0, MovImm RDX 0]"

section \<open>The instructions of the processor\<close>

text \<open>\<open>m_rip\<close> is the address of the instruction after \<open>syscall\<close>.\<close>

definition syscall_instr :: "msr_file \<Rightarrow> machine \<Rightarrow> machine" where
  "syscall_instr msrs m = m\<lparr>
     m_regs := (m_regs m)(RCX := m_rip m, R11 := m_rflags m), m_rip := msrs IA32_LSTAR,
     m_cs := take_bit 16 (drop_bit 32 (msrs IA32_STAR)) AND NOT 3, m_ss := take_bit 16 (drop_bit 32 (msrs IA32_STAR)) + 8,
     m_rflags := m_rflags m AND NOT (msrs IA32_FMASK)\<rparr>"

definition sysretq :: "msr_file \<Rightarrow> machine \<Rightarrow> machine" where
  "sysretq msrs m = m\<lparr>
     m_rip := m_regs m RCX, m_rflags := (m_regs m R11 AND 0x3C7FD7) OR 2,
     m_cs := (drop_bit 48 (msrs IA32_STAR) + 16) OR 3, m_ss := (drop_bit 48 (msrs IA32_STAR) + 8) OR 3\<rparr>"

section \<open>The entry path\<close>

text \<open>\<open>stack_var\<close> is the address of the variable \<open>unbound_syscall_stack_top\<close>.\<close>

definition syscall_save_code :: "u64 \<Rightarrow> instr list" where
  "syscall_save_code stack_var = [
     Mov R12 RSP, LoadAbs RSP stack_var,
     Push R12, Push RCX, Push R11,
     Push RAX, Push RDX, Push RBX, Push RBP, Push RSI, Push RDI, Push R8, Push R9, Push R10,
     Push R13, Push R14, Push R15]"

definition syscall_args_code :: "instr list" where
  "syscall_args_code = [
     Cli,
     Load RAX RSP 96, Load RDI RSP 56, Load RSI RSP 64, Load RDX RSP 88,
     Mov R12 RSP, AndImm RSP (NOT 15)]"

definition syscall_restore_code :: "instr list" where
  "syscall_restore_code = [
     Mov RSP R12,
     Pop R15, Pop R14, Pop R13, Pop R10, Pop R9, Pop R8, Pop RDI, Pop RSI, Pop RBP, Pop RBX, Pop RDX,
     AddImm RSP 8,
     Pop R11, Pop RCX, Pop R12,
     Mov RSP R12]"

definition syscall_entered :: "u64 \<Rightarrow> machine \<Rightarrow> machine" where
  "syscall_entered stack_var m = exec (syscall_save_code stack_var @ syscall_args_code) m"

definition unbound_syscall_entry :: "msr_file \<Rightarrow> u64 \<Rightarrow> u64 \<Rightarrow> (machine \<Rightarrow> machine) \<Rightarrow> machine \<Rightarrow> machine" where
  "unbound_syscall_entry msrs stack_var ra dispatcher m =
     sysretq msrs (exec syscall_restore_code (call_fn ra dispatcher (syscall_entered stack_var m)))"

text \<open>A whole system call as user code sees it.\<close>

definition system_call :: "msr_file \<Rightarrow> u64 \<Rightarrow> u64 \<Rightarrow> (machine \<Rightarrow> machine) \<Rightarrow> machine \<Rightarrow> machine" where
  "system_call msrs stack_var ra dispatcher m = unbound_syscall_entry msrs stack_var ra dispatcher (syscall_instr msrs m)"

section \<open>The frame of a system call\<close>

definition syscall_frame_regs :: "reg list" where
  "syscall_frame_regs = [R15, R14, R13, R10, R9, R8, RDI, RSI, RBP, RBX, RDX, RAX, R11, RCX]"

lemma syscall_frame_regs_facts:
  "distinct syscall_frame_regs" "RSP \<notin> set syscall_frame_regs" "R12 \<notin> set syscall_frame_regs" "length syscall_frame_regs = 14"
  by (simp_all add: syscall_frame_regs_def)

lemma syscall_save_pushes:
  "syscall_save_code stack_var = [Mov R12 RSP, LoadAbs RSP stack_var, Push R12] @ map Push (rev syscall_frame_regs)"
  by (simp add: syscall_save_code_def syscall_frame_regs_def)

lemma syscall_saved:
  fixes m :: machine and stack_var :: u64
  defines "m' \<equiv> exec (syscall_save_code stack_var) m"
  shows "m_regs m' = (m_regs m)(R12 := m_regs m RSP, RSP := m_mem m stack_var - 120)"
    and "words_at (m_mem m') (m_mem m stack_var - 120) 15 = map (m_regs m) syscall_frame_regs @ [m_regs m RSP]"
proof -
  define q where "q = exec [Mov R12 RSP, LoadAbs RSP stack_var] m"
  let ?r = "map (m_regs m) (rev syscall_frame_regs)" let ?vs = "m_regs m RSP # ?r"
  have q: "m_regs q = (m_regs m)(R12 := m_regs m RSP, RSP := m_mem m stack_var)" "m_mem q = m_mem m"
    by (simp_all add: q_def)
  have "RSP \<notin> set (R12 # rev syscall_frame_regs)" using syscall_frame_regs_facts by simp
  note push = exec_pushes [OF this, of q]
  have vs: "map (m_regs q) (R12 # rev syscall_frame_regs) = ?vs" unfolding q(1) by (simp add: syscall_frame_regs_def)
  have m': "m' = exec (map PushImm ?vs) q"
    unfolding m'_def syscall_save_pushes using push unfolding vs by (simp add: q_def exec_append)
  have len: "length ?vs = 15" by (simp add: syscall_frame_regs_facts)
  show "m_regs m' = (m_regs m)(R12 := m_regs m RSP, RSP := m_mem m stack_var - 120)"
    unfolding m' exec_push_imms len q by simp
  have "length ?vs < 2 ^ 61" unfolding len by simp
  then have "words_at (pushed ?vs (m_mem m stack_var) (m_mem m)) (m_mem m stack_var - 8 * of_nat (length ?vs)) (length ?vs) = rev ?vs"
    by (rule pushed_words)
  then show "words_at (m_mem m') (m_mem m stack_var - 120) 15 = map (m_regs m) syscall_frame_regs @ [m_regs m RSP]"
    unfolding m' exec_push_imms q len by (simp add: rev_map)
qed

text \<open>The machine at the call of the dispatcher, for a 16-aligned stack.\<close>

lemma syscall_entered_state:
  fixes m :: machine and stack_var :: u64
  defines "m' \<equiv> syscall_entered stack_var m"
  assumes al: "m_mem m stack_var AND NOT 15 = m_mem m stack_var"
  shows "words_at (m_mem m') (m_regs m' RSP + 8 * of_nat 1) 15 = map (m_regs m) syscall_frame_regs @ [m_regs m RSP]"
    and "m_regs m' RSP = m_mem m stack_var - 128" and "m_regs m' R12 = m_mem m stack_var - 120"
    and "m_regs m' RDI = m_regs m RSI" "m_regs m' RSI = m_regs m RBP" "m_regs m' RDX = m_regs m RAX" "m_regs m' RCX = m_regs m RCX"
proof -
  let ?p = "m_mem m stack_var - 120"
  define s where "s = exec (syscall_save_code stack_var) m"
  note s = syscall_saved [where m = m and stack_var = stack_var, folded s_def]
  have m': "m' = exec syscall_args_code s" by (simp only: m'_def syscall_entered_def exec_append s_def)
  have word: "m_mem s (?p + 8 * of_nat i) = (map (m_regs m) syscall_frame_regs @ [m_regs m RSP]) ! i" if "i < 15" for i
    using words_at_nth [OF that, of "m_mem s" ?p] unfolding s(2) by simp
  have args: "m_mem s (?p + 56) = m_regs m RSI" "m_mem s (?p + 64) = m_regs m RBP" "m_mem s (?p + 88) = m_regs m RAX"
    using word [of 7] word [of 8] word [of 11] by (simp_all add: syscall_frame_regs_def)
  show "m_regs m' RDI = m_regs m RSI" "m_regs m' RSI = m_regs m RBP" "m_regs m' RDX = m_regs m RAX" "m_regs m' RCX = m_regs m RCX"
    using args by (simp_all add: m' syscall_args_code_def s(1))
  show "m_regs m' R12 = ?p" by (simp add: m' syscall_args_code_def s(1))
  have "(m_mem m stack_var AND NOT 15) - 16 * 8 + 8 = ?p" unfolding al by simp
  then have "?p AND NOT 15 = m_mem m stack_var - 128" using aligned_sub(2) [of "m_mem m stack_var" 8] unfolding al by simp
  then show rsp: "m_regs m' RSP = m_mem m stack_var - 128" by (simp add: m' syscall_args_code_def s(1))
  have eqs: "m_regs m' RSP + 8 * of_nat 1 = ?p" "m_mem m' = m_mem s" unfolding rsp by (simp_all add: m' syscall_args_code_def)
  show "words_at (m_mem m') (m_regs m' RSP + 8 * of_nat 1) 15 = map (m_regs m) syscall_frame_regs @ [m_regs m RSP]"
    unfolding eqs s(2) ..
qed

text \<open>Restoring from the frame: everything but \<open>RAX\<close>, with the user stack pointer also in \<open>R12\<close>.\<close>

lemma syscall_restored:
  fixes m :: machine
  defines "m' \<equiv> exec syscall_restore_code m"
  assumes frame: "words_at (m_mem m) (m_regs m R12) 15 = map f syscall_frame_regs @ [usp]"
  shows "r \<in> set syscall_frame_regs \<Longrightarrow> r \<noteq> RAX \<Longrightarrow> m_regs m' r = f r"
    and "m_regs m' RAX = m_regs m RAX" "m_regs m' RSP = usp" "m_regs m' R12 = usp"
proof -
  let ?p = "m_regs m R12"
  let ?a = "[R15, R14, R13, R10, R9, R8, RDI, RSI, RBP, RBX, RDX]" let ?b = "[R11, RCX, R12]"
  define m1 where "m1 = exec (map Pop ?a) (exec [Mov RSP R12] m)"
  define m2 where "m2 = exec (map Pop ?b) (exec [AddImm RSP 8] m1)"
  have m': "m' = exec [Mov RSP R12] m2"
    unfolding m'_def m2_def m1_def exec_append [symmetric] by (rule arg_cong [where f = "\<lambda>c. exec c m"]) (simp add: syscall_restore_code_def)
  have nsp: "RSP \<notin> set ?a" "RSP \<notin> set ?b" by simp_all
  have r1: "m_regs m1 = (popped ?a ?p (m_mem m) (m_regs m))(RSP := ?p + 88)" "m_mem m1 = m_mem m"
    using exec_pops [OF nsp(1), of "exec [Mov RSP R12] m"] by (simp_all add: m1_def popped_RSP exec_pops_frame)
  have r2: "m_regs m2 = (popped ?b (?p + 96) (m_mem m) (popped ?a ?p (m_mem m) (m_regs m)))(RSP := ?p + 120)"
    using exec_pops [OF nsp(2), of "exec [AddImm RSP 8] m1"] by (simp add: m2_def r1 popped_RSP [OF nsp(2)] add.commute del: popped.simps)
  have word: "m_mem m (?p + 8 * of_nat i) = (map f syscall_frame_regs @ [usp]) ! i" if "i < 15" for i
    using words_at_nth [OF that, of "m_mem m" ?p] unfolding frame by simp
  have w: "m_mem m ?p = f R15" "m_mem m (?p + 8) = f R14" "m_mem m (?p + 16) = f R13" "m_mem m (?p + 24) = f R10"
    "m_mem m (?p + 32) = f R9" "m_mem m (?p + 40) = f R8" "m_mem m (?p + 48) = f RDI" "m_mem m (?p + 56) = f RSI"
    "m_mem m (?p + 64) = f RBP" "m_mem m (?p + 72) = f RBX" "m_mem m (?p + 80) = f RDX" "m_mem m (?p + 96) = f R11"
    "m_mem m (?p + 104) = f RCX" "m_mem m (?p + 112) = usp"
    using word [of 0] word [of 1] word [of 2] word [of 3] word [of 4] word [of 5] word [of 6] word [of 7] word [of 8]
      word [of 9] word [of 10] word [of 12] word [of 13] word [of 14] by (simp_all add: syscall_frame_regs_def)
  show "r \<in> set syscall_frame_regs \<Longrightarrow> r \<noteq> RAX \<Longrightarrow> m_regs m' r = f r"
    unfolding m' by (auto simp: r2 w w [simplified add.commute [of "?p"]] syscall_frame_regs_def)
  show "m_regs m' RAX = m_regs m RAX" "m_regs m' RSP = usp" "m_regs m' R12 = usp" unfolding m' by (simp_all add: r2 w w [simplified add.commute [of "?p"]])
qed

section \<open>Properties\<close>

lemma msrs_star: "init_syscall_msrs lstar msrs IA32_STAR = 0x0020000800000000"
  by (simp add: init_syscall_msrs_eq msr_numbers make_star_def STAR_USER_CS_BASE_def STAR_KERNEL_CS_def)

text \<open>
  C25.  A system call returns to its caller.  With the registers programmed by \<open>init_syscall_msrs\<close> and a 16-aligned
  system-call stack, for every dispatcher that keeps to the calling convention, user code continues after its
  \<open>syscall\<close> in ring 3 with its own stack pointer, its flags (within the mask of \<open>sysret\<close>) and every register,
  except for \<open>RAX\<close>, which holds the dispatcher's result, the two registers \<open>syscall\<close> itself overwrites, and \<open>R12\<close>,
  which the entry path loses: it comes back as the user stack pointer.
\<close>

theorem system_call_returns:
  assumes "sysv 17 dispatcher" and "m_mem m stack_var AND NOT 15 = m_mem m stack_var"
    and msrs: "msrs = init_syscall_msrs lstar msrs0"
  shows "let m' = system_call msrs stack_var ra dispatcher m in (\<forall>r. r \<notin> {RAX, RCX, R11, R12} \<longrightarrow> m_regs m' r = m_regs m r)
    \<and> m_rip m' = m_rip m \<and> m_cs m' = ucast USER_CODE_SELECTOR_R3 \<and> m_ss m' = ucast USER_DATA_SELECTOR_R3
    \<and> m_rflags m' = (m_rflags m AND 0x3C7FD7) OR 2
    \<and> m_regs m' RAX = m_regs (call_fn ra dispatcher (syscall_entered stack_var (syscall_instr msrs m))) RAX
    \<and> m_regs m' R12 = m_regs m RSP"
proof -
  define m' where "m' = system_call msrs stack_var ra dispatcher m"
  let ?u = "syscall_instr msrs m" let ?e = "syscall_entered stack_var ?u" let ?d = "call_fn ra dispatcher ?e"
  have u: "m_regs ?u = (m_regs m)(RCX := m_rip m, R11 := m_rflags m)" "m_mem ?u = m_mem m" by (simp_all add: syscall_instr_def)
  have al: "m_mem ?u stack_var AND NOT 15 = m_mem ?u stack_var" using assms(2) by (simp add: u)
  note e = syscall_entered_state [OF al]
  have r12: "m_regs ?d R12 = m_regs ?e RSP + 8 * of_nat 1"
    using call_fn_regs [OF assms(1), of R12 ra ?e] e(2,3) by (simp add: callee_saved_def)
  have "words_at (m_mem ?d) (m_regs ?d R12) 15 = map (m_regs ?u) syscall_frame_regs @ [m_regs ?u RSP]"
    unfolding r12 using call_fn_words [OF assms(1), of 1 15 ra ?e] e(1) by simp
  note res = syscall_restored [OF this]
  have m': "m' = sysretq msrs (exec syscall_restore_code ?d)" by (simp add: m'_def system_call_def unbound_syscall_entry_def)
  have regs: "m_regs m' = m_regs (exec syscall_restore_code ?d)" by (simp add: m' sysretq_def)
  have "m_regs m' r = m_regs m r" if "r \<notin> {RAX, RCX, R11, R12}" for r
    using res(1) [of r] res(3) that unfolding regs u by (cases r) (simp_all add: syscall_frame_regs_def)
  moreover have "m_rip m' = m_rip m" "m_rflags m' = (m_rflags m AND 0x3C7FD7) OR 2"
    using res(1) [of RCX] res(1) [of R11] by (simp_all add: m' sysretq_def u syscall_frame_regs_def)
  moreover have "m_cs m' = ucast USER_CODE_SELECTOR_R3" "m_ss m' = ucast USER_DATA_SELECTOR_R3"
    by (simp_all add: m' sysretq_def msrs msrs_star USER_CODE_SELECTOR_R3_def USER_DATA_SELECTOR_R3_def USER_CODE_SELECTOR_def
        USER_DATA_SELECTOR_def)
  moreover have "m_regs m' RAX = m_regs ?d RAX" "m_regs m' R12 = m_regs m RSP" using res(2,4) unfolding regs u by simp_all
  ultimately show ?thesis unfolding Let_def m'_def [symmetric] by blast
qed

lemma dispatch_call_sysv: "sysv n dispatch_call"
  by (simp add: sysv_def dispatch_call_def callee_saved_def)

text \<open>
  The system-call number of the user is ignored.  The offsets from which the entry path loads the dispatcher's
  arguments are those of a frame with \<open>R12\<close> in it, one word more than it pushes, and the number is left in \<open>RAX\<close>,
  which is no argument register: the dispatcher takes the user's \<open>RSI\<close> for the number, \<open>RBP\<close> and \<open>RAX\<close> for the first
  two arguments and the return address for the third.  So \<open>SYS_GET_VERSION\<close> is answered whenever \<open>RSI\<close> is 0,
  whatever \<open>RAX\<close> asks for, and never otherwise.
\<close>

theorem system_call_number_ignored:
  assumes "m_mem m stack_var AND NOT 15 = m_mem m stack_var" and "msrs = init_syscall_msrs lstar msrs0"
  shows "m_regs (system_call msrs stack_var ra dispatch_call m) RAX
    = unbound_syscall_dispatch (m_regs m RSI) (m_regs m RBP) (m_regs m RAX) (m_rip m)
    \<and> (m_regs (system_call msrs stack_var ra dispatch_call m) RAX = UNBOUND_SYSCALL_ABI_VERSION \<longleftrightarrow> m_regs m RSI = SYS_GET_VERSION)"
proof -
  let ?u = "syscall_instr msrs m" let ?e = "syscall_entered stack_var ?u" let ?d = "call_fn ra dispatch_call ?e"
  have u: "m_regs ?u = (m_regs m)(RCX := m_rip m, R11 := m_rflags m)" "m_mem ?u = m_mem m" by (simp_all add: syscall_instr_def)
  have al: "m_mem ?u stack_var AND NOT 15 = m_mem ?u stack_var" using assms(1) by (simp add: u)
  note e = syscall_entered_state [OF al]
  have frame: "m_regs ?d R12 = m_regs ?e RSP + 8 * of_nat 1"
    using call_fn_regs [OF dispatch_call_sysv, of R12 ra ?e] e(2,3) by (simp add: callee_saved_def)
  have "words_at (m_mem ?d) (m_regs ?d R12) 15 = map (m_regs ?u) syscall_frame_regs @ [m_regs ?u RSP]"
    unfolding frame using call_fn_words [OF dispatch_call_sysv [of 17], of 1 15 ra ?e] e(1) by simp
  from syscall_restored(2) [OF this]
  have "m_regs (system_call msrs stack_var ra dispatch_call m) RAX = m_regs ?d RAX"
    by (simp add: system_call_def unbound_syscall_entry_def sysretq_def)
  also have "\<dots> = unbound_syscall_dispatch (m_regs m RSI) (m_regs m RBP) (m_regs m RAX) (m_rip m)"
    using e(4-7) by (simp add: call_fn_def Let_def dispatch_call_def u)
  finally show ?thesis
    by (simp add: unbound_syscall_dispatch_def dispatch_def UNBOUND_SYSCALL_ABI_VERSION_def)
qed

text \<open>
  Entering user mode loads exactly the requested state: \<open>enter_ring3\<close> continues at the entry point with the user
  stack, in the user segments with privilege level 3 and with interrupts enabled; no other register changes.
\<close>

theorem enter_ring3_exact:
  "hw_frame (enter_ring3 entry user_stack m) = [entry, 0x33, 0x202, user_stack, 0x2B]
   \<and> (\<forall>r. r \<noteq> RSP \<longrightarrow> m_regs (enter_ring3 entry user_stack m) r = m_regs m r)
   \<and> bit (m_rflags (enter_ring3 entry user_stack m)) 9"
proof -
  let ?vs = "[ucast USER_DATA_SELECTOR_R3, user_stack, 0x202, ucast USER_CODE_SELECTOR_R3, entry]"
  let ?m = "exec (map PushImm ?vs) m"
  have e: "enter_ring3 entry user_stack m = iretq ?m" by (simp add: enter_ring3_def)
  have "words_at (m_mem ?m) (m_regs ?m RSP) (length ?vs) = rev ?vs"
    using pushed_words [of ?vs "m_regs m RSP" "m_mem m"] unfolding exec_push_imms by simp
  then have "hw_frame (iretq ?m) = rev ?vs" unfolding iretq_frame by (simp add: eval_nat_numeral)
  then have hw: "hw_frame (iretq ?m) = [entry, 0x33, 0x202, user_stack, 0x2B]"
    by (simp add: USER_DATA_SELECTOR_R3_def USER_CODE_SELECTOR_R3_def USER_DATA_SELECTOR_def USER_CODE_SELECTOR_def)
  moreover have "m_regs (iretq ?m) r = m_regs m r" if "r \<noteq> RSP" for r
    unfolding iretq_regs [OF that] exec_push_imms using that by simp
  moreover have "m_rflags (iretq ?m) = 0x202" using hw by (simp add: hw_frame_def)
  ultimately show ?thesis unfolding e by simp
qed

section \<open>Witnesses\<close>

text \<open>The user test program after its register setup, with the stack top at address \<open>0x5000\<close>.\<close>

definition user_machine :: machine where
  "user_machine = exec user_test_code (example_machine\<lparr>m_cs := 0x33, m_ss := 0x2B, m_rip := 0x40001E\<rparr>)"

lemma user_machine_stack: "m_mem user_machine 0x5000 AND NOT 15 = m_mem user_machine 0x5000"
  by (simp add: user_machine_def user_test_code_def example_machine_def)

theorem system_call_returns_witness:
  "m_rip (system_call (init_syscall_msrs 0x103000 (\<lambda>_. 0)) 0x5000 0x103080 dispatch_call user_machine) = 0x40001E
   \<and> m_regs (system_call (init_syscall_msrs 0x103000 (\<lambda>_. 0)) 0x5000 0x103080 dispatch_call user_machine) RSP = 0x3000"
proof -
  have "m_rip user_machine = 0x40001E" "m_regs user_machine RSP = 0x3000"
    by (simp_all add: user_machine_def user_test_code_def example_machine_def)
  with system_call_returns [OF dispatch_call_sysv user_machine_stack refl, of "0x103000" "\<lambda>_. 0" "0x103080"] show ?thesis by (simp add: Let_def)
qed

theorem system_call_number_ignored_witness:
  "m_regs (system_call (init_syscall_msrs 0x103000 (\<lambda>_. 0)) 0x5000 0x103080 dispatch_call (set_reg RAX 77 user_machine)) RAX
     = UNBOUND_SYSCALL_ABI_VERSION"
proof -
  have "m_mem (set_reg RAX 77 user_machine) 0x5000 AND NOT 15 = m_mem (set_reg RAX 77 user_machine) 0x5000"
    using user_machine_stack by simp
  moreover have "m_regs (set_reg RAX 77 user_machine) RSI = SYS_GET_VERSION"
    by (simp add: user_machine_def user_test_code_def SYS_GET_VERSION_def)
  ultimately show ?thesis
    using system_call_number_ignored [OF _ refl, of "set_reg RAX 77 user_machine" "0x5000" "0x103000" "\<lambda>_. 0" "0x103080"] by blast
qed

theorem enter_ring3_exact_witness:
  "hw_frame (enter_ring3 USER_CODE_VADDR 0x804000 example_machine) = [0x400000, 0x33, 0x202, 0x804000, 0x2B]
   \<and> m_regs (enter_ring3 USER_CODE_VADDR 0x804000 example_machine) RBX = m_regs example_machine RBX"
  using enter_ring3_exact [of USER_CODE_VADDR "0x804000" example_machine] by (simp add: USER_CODE_VADDR_def)

end
