(* ===== verification/Spin_Lock.thy ===== *)
theory Spin_Lock
  imports Prelude
begin

text \<open>
  The spin lock (\<open>sync/spinlock.rs\<close>).  The operations are functions on the lock, atomic as the source makes them:
  one \<open>compare_exchange\<close> per attempt, one store on release.  The loop of \<open>lock\<close> has no bound, so for a single
  thread it is a partial function; for several threads every attempt is one step of a transition system in which
  the steps of all threads interleave freely.
\<close>

section \<open>The lock\<close>

record 'a SpinLock =
  locked :: bool
  data :: 'a

definition SpinLock_new :: "'a \<Rightarrow> 'a SpinLock" where
  "SpinLock_new v = \<lparr>locked = False, data = v\<rparr>"

text \<open>\<open>compare_exchange(current, new)\<close>: whether it succeeded, and the flag after it.\<close>

definition compare_exchange :: "bool \<Rightarrow> bool \<Rightarrow> bool \<Rightarrow> bool \<times> bool" where
  "compare_exchange current new flag = (if flag = current then (True, new) else (False, flag))"

definition SpinLock_try_lock :: "'a SpinLock \<Rightarrow> bool \<times> 'a SpinLock" where
  "SpinLock_try_lock l = (case compare_exchange False True (locked l) of (ok, flag) \<Rightarrow> (ok, l\<lparr>locked := flag\<rparr>))"

text \<open>\<open>lock\<close>: an attempt, and the loop around it; \<open>None\<close> when it spins forever.\<close>

definition lock_attempt :: "'a SpinLock \<Rightarrow> bool \<times> 'a SpinLock" where
  "lock_attempt l = (case compare_exchange False True (locked l) of (ok, flag) \<Rightarrow> (ok, l\<lparr>locked := flag\<rparr>))"

partial_function (option) SpinLock_lock :: "'a SpinLock \<Rightarrow> 'a SpinLock option" where
  "SpinLock_lock l = (case lock_attempt l of (ok, l) \<Rightarrow> if ok then Some l else SpinLock_lock l)"

definition SpinLock_is_locked :: "'a SpinLock \<Rightarrow> bool" where
  "SpinLock_is_locked l = locked l"

text \<open>The guard: reading and writing through it, and its drop.\<close>

definition SpinLockGuard_deref :: "'a SpinLock \<Rightarrow> 'a" where
  "SpinLockGuard_deref l = data l"

definition SpinLockGuard_write :: "'a \<Rightarrow> 'a SpinLock \<Rightarrow> 'a SpinLock" where
  "SpinLockGuard_write v l = l\<lparr>data := v\<rparr>"

definition SpinLockGuard_drop :: "'a SpinLock \<Rightarrow> 'a SpinLock" where
  "SpinLockGuard_drop l = l\<lparr>locked := False\<rparr>"

lemma lock_free: "\<not> locked l \<Longrightarrow> SpinLock_lock l = Some (l\<lparr>locked := True\<rparr>)"
  by (subst SpinLock_lock.simps) (simp add: lock_attempt_def compare_exchange_def)

section \<open>Threads\<close>

text \<open>A thread is outside, spins in \<open>lock\<close>, or holds the guard.\<close>

datatype thread = Outside | Spinning | Holding

record 'a lock_system =
  the_lock :: "'a SpinLock"
  threads :: "nat \<Rightarrow> thread"

definition set_thread :: "nat \<Rightarrow> thread \<Rightarrow> 'a SpinLock \<Rightarrow> 'a lock_system \<Rightarrow> 'a lock_system" where
  "set_thread i t l s = s\<lparr>the_lock := l, threads := (threads s)(i := t)\<rparr>"

inductive lock_step :: "nat \<Rightarrow> 'a lock_system \<Rightarrow> 'a lock_system \<Rightarrow> bool" where
  call_lock: "threads s i = Outside \<Longrightarrow> lock_step i s (set_thread i Spinning (the_lock s) s)"
| attempt: "threads s i = Spinning \<Longrightarrow> lock_attempt (the_lock s) = (ok, l) \<Longrightarrow>
    lock_step i s (set_thread i (if ok then Holding else Spinning) l s)"
| try_lock: "threads s i = Outside \<Longrightarrow> SpinLock_try_lock (the_lock s) = (ok, l) \<Longrightarrow>
    lock_step i s (set_thread i (if ok then Holding else Outside) l s)"
| write_data: "threads s i = Holding \<Longrightarrow> lock_step i s (set_thread i Holding (SpinLockGuard_write v (the_lock s)) s)"
| release: "threads s i = Holding \<Longrightarrow> lock_step i s (set_thread i Outside (SpinLockGuard_drop (the_lock s)) s)"

definition initial_system :: "'a \<Rightarrow> 'a lock_system" where
  "initial_system v = \<lparr>the_lock = SpinLock_new v, threads = (\<lambda>_. Outside)\<rparr>"

text \<open>Runs of given threads, in the order of their steps.\<close>

inductive lock_run :: "nat list \<Rightarrow> 'a lock_system \<Rightarrow> 'a lock_system \<Rightarrow> bool" where
  stop: "lock_run [] s s"
| more: "lock_step i s s' \<Longrightarrow> lock_run is s' s'' \<Longrightarrow> lock_run (i # is) s s''"

inductive_cases lock_stepE: "lock_step i s s'"
inductive_simps lock_run_simps [simp]: "lock_run [] s s'" "lock_run (i # is) s s'"

lemmas lock_defs = set_thread_def lock_attempt_def SpinLock_try_lock_def compare_exchange_def SpinLockGuard_write_def
  SpinLockGuard_drop_def

section \<open>Properties\<close>

definition lock_inv :: "'a lock_system \<Rightarrow> bool" where
  "lock_inv s \<longleftrightarrow> (locked (the_lock s) \<longleftrightarrow> (\<exists>i. threads s i = Holding))
     \<and> (\<forall>i j. threads s i = Holding \<longrightarrow> threads s j = Holding \<longrightarrow> i = j)"

lemma lock_inv_initial: "lock_inv (initial_system v)"
  by (simp add: lock_inv_def initial_system_def SpinLock_new_def)

lemma lock_inv_step: "lock_step i s s' \<Longrightarrow> lock_inv s \<Longrightarrow> lock_inv s'"
  by (erule lock_stepE; auto simp: lock_inv_def lock_defs split: if_splits; metis thread.distinct)

lemma lock_inv_run: "lock_run is s s' \<Longrightarrow> lock_inv s \<Longrightarrow> lock_inv s'"
  by (induction rule: lock_run.induct) (auto intro: lock_inv_step)

text \<open>
  C28.  Mutual exclusion: however the attempts, writes and releases of any number of threads interleave, at most one
  thread holds the guard, and \<open>is_locked\<close> is true exactly while one does.
\<close>

theorem spinlock_mutual_exclusion:
  assumes "lock_run is (initial_system v) s"
  shows "(\<forall>i j. threads s i = Holding \<longrightarrow> threads s j = Holding \<longrightarrow> i = j)
    \<and> (SpinLock_is_locked (the_lock s) \<longleftrightarrow> (\<exists>i. threads s i = Holding))"
  using lock_inv_run [OF assms lock_inv_initial] unfolding lock_inv_def SpinLock_is_locked_def by blast

lemma other_steps_keep_data:
  "lock_step j s s' \<Longrightarrow> lock_inv s \<Longrightarrow> threads s i = Holding \<Longrightarrow> i \<noteq> j \<Longrightarrow>
   data (the_lock s') = data (the_lock s) \<and> threads s' i = Holding"
  by (erule lock_stepE) (auto simp: lock_inv_def lock_defs split: if_splits)

text \<open>
  C29.  The guard protects the data: while a thread holds it, no sequence of steps of the other threads changes the data
  or takes the lock away, so the holder reads what it wrote last; and whenever a thread spins, it can hold the lock
  after at most two steps, one of the holder and one of its own.
\<close>

theorem spinlock_protects:
  assumes "lock_run is (initial_system v) s"
  shows "(\<forall>i js s'. threads s i = Holding \<longrightarrow> lock_run js s s' \<longrightarrow> i \<notin> set js \<longrightarrow>
      SpinLockGuard_deref (the_lock s') = SpinLockGuard_deref (the_lock s) \<and> threads s' i = Holding)
    \<and> (\<forall>i. threads s i = Spinning \<longrightarrow> (\<exists>js s'. length js \<le> 2 \<and> lock_run js s s' \<and> threads s' i = Holding))"
proof -
  have inv: "lock_inv s" using lock_inv_run [OF assms lock_inv_initial] .
  have keep: "SpinLockGuard_deref (the_lock s') = SpinLockGuard_deref (the_lock s) \<and> threads s' i = Holding"
    if "threads s i = Holding" "lock_run js s s'" "i \<notin> set js" for i js s'
    using that(2,1,3) inv
    by (induction rule: lock_run.induct) (use other_steps_keep_data lock_inv_step in \<open>fastforce simp: SpinLockGuard_deref_def\<close>)+
  have acquire: "\<exists>s'. lock_step i s s' \<and> threads s' i = Holding" if "threads s i = Spinning" "\<not> locked (the_lock s)" for s :: "'a lock_system" and i
    using lock_step.attempt [OF that(1), of True "(the_lock s)\<lparr>locked := True\<rparr>"] that(2)
    by (intro exI conjI) (auto simp: lock_defs)
  have "\<exists>js s'. length js \<le> 2 \<and> lock_run js s s' \<and> threads s' i = Holding" if spin: "threads s i = Spinning" for i
  proof (cases "locked (the_lock s)")
    case False
    from acquire [OF spin this] obtain s' where "lock_step i s s'" "threads s' i = Holding" by blast
    then show ?thesis by (intro exI [of _ "[i]"] exI [of _ s']) auto
  next
    case True
    then obtain j where j: "threads s j = Holding" using inv by (auto simp: lock_inv_def)
    let ?s = "set_thread j Outside (SpinLockGuard_drop (the_lock s)) s"
    have "threads ?s i = Spinning" "\<not> locked (the_lock ?s)" using spin j by (auto simp: lock_defs)
    from acquire [OF this] obtain s' where "lock_step i ?s s'" "threads s' i = Holding" by blast
    with lock_step.release [OF j] show ?thesis by (intro exI [of _ "[j, i]"] exI [of _ s']) auto
  qed
  with keep show ?thesis by blast
qed

section \<open>Witnesses\<close>

text \<open>Thread 0 takes the lock while thread 1 spins.\<close>

definition contended :: "nat lock_system" where
  "contended = \<lparr>the_lock = \<lparr>locked = True, data = 5\<rparr>, threads = (\<lambda>_. Outside)(0 := Holding, 1 := Spinning)\<rparr>"

lemma contended_reachable: "lock_run [0, 0, 1, 1] (initial_system 5) contended"
proof -
  let ?t = "\<lambda>_ :: nat. Outside" let ?free = "\<lparr>locked = False, data = 5 :: nat\<rparr>" let ?held = "\<lparr>locked = True, data = 5 :: nat\<rparr>"
  have "lock_step 0 (initial_system 5) \<lparr>the_lock = ?free, threads = ?t(0 := Spinning)\<rparr>"
    using lock_step.call_lock [of "initial_system 5" 0] by (simp add: initial_system_def SpinLock_new_def set_thread_def)
  moreover have "lock_step 0 \<lparr>the_lock = ?free, threads = ?t(0 := Spinning)\<rparr> \<lparr>the_lock = ?held, threads = ?t(0 := Holding)\<rparr>"
    using lock_step.attempt [of "\<lparr>the_lock = ?free, threads = ?t(0 := Spinning)\<rparr>" 0 True ?held] by (simp add: lock_defs)
  moreover have "lock_step 1 \<lparr>the_lock = ?held, threads = ?t(0 := Holding)\<rparr> contended"
    using lock_step.call_lock [of "\<lparr>the_lock = ?held, threads = ?t(0 := Holding)\<rparr>" 1] by (simp add: contended_def set_thread_def)
  moreover have "lock_step 1 contended contended"
    using lock_step.attempt [of contended 1 False ?held] by (simp add: contended_def lock_defs)
  ultimately show ?thesis by auto
qed

theorem spinlock_mutual_exclusion_witness:
  "lock_run [0, 0, 1, 1] (initial_system 5) contended \<and> SpinLock_is_locked (the_lock contended)"
proof -
  have "threads contended 0 = Holding" by (simp add: contended_def)
  with spinlock_mutual_exclusion [OF contended_reachable] contended_reachable show ?thesis by blast
qed

theorem spinlock_protects_witness:
  "\<exists>js s'. length js \<le> 2 \<and> lock_run js contended s' \<and> threads s' 1 = Holding"
proof -
  have "threads contended 1 = Spinning" by (simp add: contended_def)
  with spinlock_protects [OF contended_reachable] show ?thesis by blast
qed

end
