(* ===== verification/Slots.thy ===== *)
theory Slots
  imports Prelude
begin

text \<open>
  Generation-tagged handles and the contract of a table whose slots are recycled.  The object
  table (\<open>kernel/src/objects\<close>) and the IPC manager (\<open>kernel/src/ipc/endpoint.rs\<close>) both hand out
  64-bit handles with the slot index in the lower and the slot's generation in the upper half,
  and both bump the generation when a slot is cleared.  The locale \<open>recycled_slots\<close> states what
  such a table promises and derives, once for both, how long a stale handle stays dead.
\<close>

section \<open>Packing an index and a generation into a handle\<close>

definition pack_handle :: "usize \<Rightarrow> u32 \<Rightarrow> u64" where
  "pack_handle index generation = push_bit 32 (ucast generation) OR of_nat index"

definition handle_index :: "u64 \<Rightarrow> usize" where
  "handle_index h = unat (ucast h :: u32)"

definition handle_generation :: "u64 \<Rightarrow> u32" where
  "handle_generation h = ucast (drop_bit 32 h)"

lemma handle_generation_pack [simp]:
  assumes "i < 2 ^ 32"
  shows "handle_generation (pack_handle i g) = g"
proof (rule bit_word_eqI)
  fix n assume n: "n < LENGTH(32)"
  have "\<not> bit (of_nat i :: u64) (32 + n)"
  proof
    assume "bit (of_nat i :: u64) (32 + n)"
    then have "bit i (32 + n)" by (simp add: bit_simps)
    then have "2 ^ (32 + n) \<le> i" by (metis bit_iff_odd div_less even_zero not_le)
    moreover have "(2::nat) ^ 32 \<le> 2 ^ (32 + n)" by (simp add: power_add)
    ultimately show False using assms by simp
  qed
  then show "bit (handle_generation (pack_handle i g)) n = bit g n"
    using n by (auto simp: handle_generation_def pack_handle_def bit_simps)
qed

lemma handle_index_pack [simp]:
  assumes "i < 2 ^ 32"
  shows "handle_index (pack_handle i g) = i"
proof -
  have "(ucast (pack_handle i g) :: u32) = of_nat i"
    by (rule bit_word_eqI) (auto simp: pack_handle_def bit_simps)
  then show ?thesis using assms by (simp add: handle_index_def unat_of_nat)
qed

lemma pack_handle_unpack [simp]: "pack_handle (handle_index h) (handle_generation h) = h"
proof (rule bit_word_eqI)
  fix n assume "n < LENGTH(64)"
  then show "bit (pack_handle (handle_index h) (handle_generation h)) n = bit h n"
    by (cases "n < 32") (auto simp: pack_handle_def handle_index_def handle_generation_def bit_simps)
qed

lemma pack_handle_eq_iff:
  assumes "i < 2 ^ 32" and "j < 2 ^ 32"
  shows "pack_handle i g = pack_handle j h \<longleftrightarrow> i = j \<and> g = h"
  using assms by (metis handle_generation_pack handle_index_pack)

lemma handle_eqI:
  "handle_index h = handle_index k \<Longrightarrow> handle_generation h = handle_generation k \<Longrightarrow> h = k"
  by (metis pack_handle_unpack)

lemma pack_handle_nonzero: "i < 2 ^ 32 \<Longrightarrow> g \<noteq> 0 \<Longrightarrow> pack_handle i g \<noteq> 0"
  by (metis handle_generation_pack handle_generation_def drop_bit_of_0 unsigned_0)

section \<open>The successor of a generation\<close>

text \<open>\<open>generation.wrapping_add(1)\<close>, with zero skipped.\<close>

definition bump_generation :: "u32 \<Rightarrow> u32" where
  "bump_generation g = (let g' = g + 1 in if g' = 0 then 1 else g')"

lemma bump_generation_nonzero [simp]: "bump_generation g \<noteq> 0"
  by (simp add: bump_generation_def Let_def)

text \<open>
  The generations of a slot run through all nonzero 32-bit values, so they come back after
  \<open>2 ^ 32 - 1\<close> bumps.  Seen from zero, a bump is the successor modulo that period.
\<close>

definition generation_period :: nat where
  "generation_period = 2 ^ 32 - 1"

lemma generation_below_period: "g \<noteq> 0 \<Longrightarrow> unat (g :: u32) - 1 < generation_period"
  using unat_bound [of g] by (auto simp: generation_period_def unat_gt_0)

lemma bump_generation_unat:
  assumes "g \<noteq> 0"
  shows "unat (bump_generation g) - 1 = (unat g - 1 + 1) mod generation_period"
proof (cases "g + 1 = 0")
  case True
  then have "g = - 1" by (simp add: eq_neg_iff_add_eq_0)
  moreover have "unat (- 1 :: u32) = generation_period"
    by (simp add: unsigned_minus_1_eq_mask mask_eq_exp_minus_1 generation_period_def)
  moreover have "generation_period - 1 + 1 = generation_period"
    by (simp add: generation_period_def)
  ultimately show ?thesis by (simp add: bump_generation_def del: One_nat_def)
next
  case False
  then have succ: "unat (g + 1) = unat g + 1" using unatSuc [of g] by (simp add: add.commute)
  have "unat (g + 1) - 1 < generation_period" using False by (rule generation_below_period)
  then have "unat g < generation_period" by (simp only: succ add_diff_cancel_right')
  moreover have "unat g - 1 + 1 = unat g" using assms by (simp add: unat_gt_0)
  ultimately show ?thesis using False by (simp add: bump_generation_def Let_def succ del: One_nat_def)
qed

lemma bump_generation_funpow:
  assumes "g \<noteq> 0"
  shows "(bump_generation ^^ k) g \<noteq> 0
       \<and> unat ((bump_generation ^^ k) g) - 1 = (unat g - 1 + k) mod generation_period"
proof (induction k)
  case 0
  with assms show ?case by (simp add: generation_below_period del: One_nat_def)
next
  case (Suc k)
  then have "unat (bump_generation ((bump_generation ^^ k) g)) - 1
           = ((unat g - 1 + k) mod generation_period + 1) mod generation_period"
    by (simp only: bump_generation_unat simp_thms)
  then show ?case by (simp add: mod_Suc_eq)
qed

lemma bump_generation_fresh:
  assumes "g \<noteq> 0" and "0 < k" and "k < generation_period"
  shows "(bump_generation ^^ k) g \<noteq> g"
proof
  assume eq: "(bump_generation ^^ k) g = g"
  define a n where "a = unat g - 1" and "n = generation_period"
  have "a < n" using assms(1) unfolding a_def n_def by (rule generation_below_period)
  have cyc: "(a + k) mod n = a"
    using bump_generation_funpow [OF assms(1), of k] eq unfolding a_def n_def by metis
  show False
  proof (cases "a + k < n")
    case True
    with cyc assms(2) show False by simp
  next
    case False
    then have "(a + k) mod n = (a + k - n) mod n" by (simp add: le_mod_geq)
    also have "\<dots> = a + k - n" using \<open>a < n\<close> assms(3) by (simp add: n_def)
    finally show False using cyc False assms(3) by (simp add: n_def)
  qed
qed

lemma bump_generation_cycle:
  assumes "g \<noteq> 0"
  shows "(bump_generation ^^ generation_period) g = g"
proof -
  let ?g = "(bump_generation ^^ generation_period) g"
  from bump_generation_funpow [OF assms, of generation_period]
  have nz: "?g \<noteq> 0" and "unat ?g - 1 = unat g - 1"
    using generation_below_period [OF assms] by auto
  moreover have "0 < unat ?g" "0 < unat g" using nz assms by (simp_all add: unat_gt_0)
  ultimately have "unat ?g = unat g" by linarith
  then show ?thesis by (rule word_unat_eq_iff [THEN iffD2])
qed

section \<open>Live handles of an array of slots\<close>

text \<open>
  A handle is live when the slot it names is occupied and carries its generation.  \<open>slot_view\<close> reads
  an array of slots as a finite map from the live handles to what \<open>view\<close> shows of their slots.
\<close>

definition live_handle :: "('s \<Rightarrow> bool) \<Rightarrow> ('s \<Rightarrow> u32) \<Rightarrow> 's list \<Rightarrow> u64 \<Rightarrow> bool" where
  "live_handle occ gen slots h \<longleftrightarrow> h \<noteq> 0 \<and> handle_index h < length slots \<and>
     occ (slots ! handle_index h) \<and> gen (slots ! handle_index h) = handle_generation h"

definition slot_view ::
  "('s \<Rightarrow> bool) \<Rightarrow> ('s \<Rightarrow> u32) \<Rightarrow> ('s \<Rightarrow> 'v) \<Rightarrow> 's list \<Rightarrow> u64 \<rightharpoonup> 'v" where
  "slot_view occ gen view slots h =
     (if live_handle occ gen slots h then Some (view (slots ! handle_index h)) else None)"

lemma dom_slot_view: "h \<in> dom (slot_view occ gen view slots) \<longleftrightarrow> live_handle occ gen slots h"
  by (simp add: slot_view_def domIff)

lemma slot_view_None: "slot_view occ gen view slots h = None \<longleftrightarrow> \<not> live_handle occ gen slots h"
  by (simp add: slot_view_def)

lemma slot_view_Some: "live_handle occ gen slots h \<Longrightarrow>
    slot_view occ gen view slots h = Some (view (slots ! handle_index h))"
  by (simp add: slot_view_def)

text \<open>Two live handles of the same slot are the same handle.\<close>

lemma live_handle_unique:
  "live_handle occ gen slots h \<Longrightarrow> live_handle occ gen slots k \<Longrightarrow> handle_index k = handle_index h
   \<Longrightarrow> k = h"
  by (auto simp: live_handle_def intro: handle_eqI)

text \<open>The three ways an operation changes a slot: it rewrites a live one, clears one or fills a free one.\<close>

lemma slot_view_rewrite:
  assumes live: "live_handle occ gen slots h" and "occ s" and "gen s = handle_generation h"
  shows "slot_view occ gen view (slots[handle_index h := s]) = (slot_view occ gen view slots)(h \<mapsto> view s)"
proof
  fix k
  show "slot_view occ gen view (slots[handle_index h := s]) k
      = ((slot_view occ gen view slots)(h \<mapsto> view s)) k"
    using assms handle_eqI [of k h] live_handle_unique [OF live, of k]
    by (cases "handle_index k = handle_index h") (auto simp: slot_view_def live_handle_def)
qed

lemma slot_view_clear:
  assumes live: "live_handle occ gen slots h" and "\<not> occ s"
  shows "slot_view occ gen view (slots[handle_index h := s]) = (slot_view occ gen view slots)(h := None)"
proof
  fix k
  show "slot_view occ gen view (slots[handle_index h := s]) k
      = ((slot_view occ gen view slots)(h := None)) k"
    using assms live_handle_unique [OF live, of k]
    by (cases "handle_index k = handle_index h") (auto simp: slot_view_def live_handle_def)
qed

lemma slot_view_fill:
  assumes i: "i < length slots" "i < 2 ^ 32" and "\<not> occ (slots ! i)"
    and "occ s" and "gen s = gen (slots ! i)" and "gen s \<noteq> 0"
  shows "slot_view occ gen view (slots[i := s])
       = (slot_view occ gen view slots)(pack_handle i (gen s) \<mapsto> view s)"
    and "pack_handle i (gen s) \<notin> dom (slot_view occ gen view slots)"
proof -
  let ?h = "pack_handle i (gen s)"
  have h: "handle_index ?h = i" "handle_generation ?h = gen s" "?h \<noteq> 0"
    using i(2) assms(6) by (simp_all add: pack_handle_nonzero)
  show "?h \<notin> dom (slot_view occ gen view slots)"
    using h assms(3) by (simp add: dom_slot_view live_handle_def)
  show "slot_view occ gen view (slots[i := s]) = (slot_view occ gen view slots)(?h \<mapsto> view s)"
  proof
    fix k
    consider (self) "k = ?h" | (stale) "handle_index k = i" "handle_generation k \<noteq> gen s"
      | (other) "handle_index k \<noteq> i"
      using h(1,2) handle_eqI [of k ?h] by metis
    then show "slot_view occ gen view (slots[i := s]) k
        = ((slot_view occ gen view slots)(?h \<mapsto> view s)) k"
    proof cases
      case self
      with h i(1) assms(4) show ?thesis by (simp add: slot_view_def live_handle_def)
    next
      case stale
      then have "k \<noteq> ?h" using h(2) by metis
      with stale i(1) assms(3) show ?thesis by (auto simp: slot_view_def live_handle_def)
    next
      case other
      then have "k \<noteq> ?h" using h(1) by metis
      with other show ?thesis by (auto simp: slot_view_def live_handle_def)
    qed
  qed
qed

text \<open>The live handles are in bijection with the occupied slots.\<close>

lemma card_slot_view:
  assumes len: "length slots < 2 ^ 32" and nz: "\<And>s. s \<in> set slots \<Longrightarrow> gen s \<noteq> 0"
  shows "card (dom (slot_view occ gen view slots)) = length (filter occ slots)"
proof -
  let ?I = "{i. i < length slots \<and> occ (slots ! i)}" and ?f = "\<lambda>i. pack_handle i (gen (slots ! i))"
  have "dom (slot_view occ gen view slots) = ?f ` ?I"
  proof (intro set_eqI iffI)
    fix h assume "h \<in> dom (slot_view occ gen view slots)"
    then have "handle_index h \<in> ?I" and "h = ?f (handle_index h)"
      by (auto simp: dom_slot_view live_handle_def)
    then show "h \<in> ?f ` ?I" by blast
  next
    fix h assume "h \<in> ?f ` ?I"
    then obtain i where i: "i < length slots" "occ (slots ! i)" and h: "h = ?f i" by blast
    moreover have "i < 2 ^ 32" "gen (slots ! i) \<noteq> 0" using i(1) len nz by auto
    ultimately show "h \<in> dom (slot_view occ gen view slots)"
      by (simp add: dom_slot_view live_handle_def pack_handle_nonzero)
  qed
  moreover have "inj_on ?f ?I" using len by (intro inj_onI) (auto simp: pack_handle_eq_iff)
  ultimately show ?thesis by (simp add: card_image length_filter_conv_card)
qed

section \<open>Tables of recycled slots\<close>

text \<open>
  The contract.  \<open>exec\<close> runs one operation of the table, \<open>valid\<close> says that a handle refers to a live
  slot and \<open>slot_gen\<close> reads the generation of a slot.  An operation leaves the generation of a slot
  alone or bumps it, and only a slot whose generation agrees with the handle makes it valid.
\<close>

locale recycled_slots =
  fixes inv :: "'t \<Rightarrow> bool"
    and exec :: "'o \<Rightarrow> 't \<Rightarrow> 't"
    and valid :: "'t \<Rightarrow> u64 \<Rightarrow> bool"
    and slot_gen :: "'t \<Rightarrow> usize \<Rightarrow> u32"
    and capacity :: usize
  assumes inv_exec: "inv t \<Longrightarrow> inv (exec a t)"
    and gen_exec: "inv t \<Longrightarrow> i < capacity \<Longrightarrow>
      slot_gen (exec a t) i = slot_gen t i \<or> slot_gen (exec a t) i = bump_generation (slot_gen t i)"
    and gen_nonzero: "inv t \<Longrightarrow> i < capacity \<Longrightarrow> slot_gen t i \<noteq> 0"
    and valid_index: "inv t \<Longrightarrow> valid t h \<Longrightarrow> handle_index h < capacity"
    and valid_gen: "inv t \<Longrightarrow> valid t h \<Longrightarrow> slot_gen t (handle_index h) = handle_generation h"
begin

fun run :: "'o list \<Rightarrow> 't \<Rightarrow> 't" where
  "run [] t = t"
| "run (a # as) t = run as (exec a t)"

text \<open>How many operations of a run bump the generation of slot \<open>i\<close>.\<close>

fun bumps :: "usize \<Rightarrow> 'o list \<Rightarrow> 't \<Rightarrow> nat" where
  "bumps i [] t = 0"
| "bumps i (a # as) t =
     (if slot_gen (exec a t) i = slot_gen t i then 0 else 1) + bumps i as (exec a t)"

lemma inv_run: "inv t \<Longrightarrow> inv (run as t)"
  by (induction as arbitrary: t) (auto intro: inv_exec)

lemma bumps_le: "bumps i as t \<le> length as"
  by (induction as arbitrary: t) (auto simp: le_SucI)

lemma gen_run:
  assumes "inv t" and "i < capacity"
  shows "slot_gen (run as t) i = (bump_generation ^^ bumps i as t) (slot_gen t i)"
  using assms(1)
proof (induction as arbitrary: t)
  case Nil
  then show ?case by simp
next
  case (Cons a as)
  have "slot_gen (run as (exec a t)) i
      = (bump_generation ^^ bumps i as (exec a t)) (slot_gen (exec a t) i)"
    using Cons.prems by (intro Cons.IH inv_exec)
  with gen_exec [OF Cons.prems assms(2), of a] show ?case
    by (auto simp: funpow_swap1)
qed

text \<open>
  A handle whose generation its slot has passed stays dead for the following operations, as long
  as the slot is recycled fewer than \<open>2 ^ 32 - 2\<close> further times.
\<close>

lemma stale_run:
  assumes "inv t" and "handle_index h < capacity" and "handle_generation h \<noteq> 0"
    and stale: "slot_gen t (handle_index h) = bump_generation (handle_generation h)"
    and few: "bumps (handle_index h) as t < generation_period - 1"
  shows "\<not> valid (run as t) h"
proof
  let ?i = "handle_index h" and ?g = "handle_generation h"
  assume "valid (run as t) h"
  with assms(1) have "slot_gen (run as t) ?i = ?g"
    by (intro valid_gen inv_run)
  with gen_run [OF assms(1,2), of as] stale
  have "(bump_generation ^^ Suc (bumps ?i as t)) ?g = ?g"
    by (simp add: funpow_swap1)
  moreover have "(bump_generation ^^ Suc (bumps ?i as t)) ?g \<noteq> ?g"
    using assms(3) few by (intro bump_generation_fresh) auto
  ultimately show False by contradiction
qed

end

end
