(* ===== verification/Objects.thy ===== *)
theory Objects
  imports Slots
begin

text \<open>
  The kernel object system, \<open>kernel/src/objects/object.rs\<close> and \<open>kernel/src/objects/table.rs\<close>:
  typed, reference-counted objects in a static table of 64 slots, named by generation-tagged
  handles.  Each operation of \<open>ObjectTable\<close> takes the spinlock of the table for its whole body
  (theory \<open>Spin_Lock\<close>), so the operations are functions on the array behind the lock.
\<close>

section \<open>Data\<close>

datatype ObjectType =
    Process | Thread | AddressSpace | IpcEndpoint | File | Device | Event

fun ObjectType_name :: "ObjectType \<Rightarrow> string" where
  "ObjectType_name Process = ''PROCESS''"
| "ObjectType_name Thread = ''THREAD''"
| "ObjectType_name AddressSpace = ''ADDRESS SPACE''"
| "ObjectType_name IpcEndpoint = ''IPC ENDPOINT''"
| "ObjectType_name File = ''FILE''"
| "ObjectType_name Device = ''DEVICE''"
| "ObjectType_name Event = ''EVENT''"

type_synonym ObjectHandle = u64

definition ObjectHandle_INVALID :: ObjectHandle where
  "ObjectHandle_INVALID = 0"

definition ObjectHandle_new :: "usize \<Rightarrow> u32 \<Rightarrow> ObjectHandle" where
  "ObjectHandle_new index generation = pack_handle index generation"

definition ObjectHandle_index :: "ObjectHandle \<Rightarrow> usize" where
  "ObjectHandle_index h = handle_index h"

definition ObjectHandle_generation :: "ObjectHandle \<Rightarrow> u32" where
  "ObjectHandle_generation h = handle_generation h"

definition ObjectHandle_is_valid :: "ObjectHandle \<Rightarrow> bool" where
  "ObjectHandle_is_valid h \<longleftrightarrow> h \<noteq> 0"

record ObjectRecord =
  object_type :: ObjectType
  references :: u32

definition ObjectRecord_new :: "ObjectType \<Rightarrow> ObjectRecord" where
  "ObjectRecord_new ty = \<lparr>object_type = ty, references = 1\<rparr>"

record ObjectSlot =
  occupied :: bool
  generation :: u32
  slot_record :: "ObjectRecord option"

definition ObjectSlot_empty :: ObjectSlot where
  "ObjectSlot_empty = \<lparr>occupied = False, generation = 1, slot_record = None\<rparr>"

definition ObjectSlot_is_free :: "ObjectSlot \<Rightarrow> bool" where
  "ObjectSlot_is_free s \<longleftrightarrow> \<not> occupied s"

definition ObjectSlot_clear :: "ObjectSlot \<Rightarrow> ObjectSlot" where
  "ObjectSlot_clear s =
     s\<lparr>occupied := False, slot_record := None, generation := bump_generation (generation s)\<rparr>"

section \<open>The table\<close>

definition MAX_KERNEL_OBJECTS :: usize where
  "MAX_KERNEL_OBJECTS = 64"

type_synonym ObjectTable = "ObjectSlot list"

definition ObjectTable_new :: ObjectTable where
  "ObjectTable_new = replicate MAX_KERNEL_OBJECTS ObjectSlot_empty"

definition ObjectTable_create :: "ObjectType \<Rightarrow> ObjectTable \<Rightarrow> ObjectHandle option \<times> ObjectTable" where
  "ObjectTable_create ty slots =
     (case first_index ObjectSlot_is_free slots of
        None \<Rightarrow> (None, slots)
      | Some index \<Rightarrow>
          (let slot = slots ! index
           in (Some (ObjectHandle_new index (generation slot)),
               slots[index := slot\<lparr>occupied := True, slot_record := Some (ObjectRecord_new ty)\<rparr>])))"

definition ObjectTable_is_valid :: "ObjectTable \<Rightarrow> ObjectHandle \<Rightarrow> bool" where
  "ObjectTable_is_valid slots h =
     (if \<not> ObjectHandle_is_valid h then False
      else let index = ObjectHandle_index h
           in if index \<ge> MAX_KERNEL_OBJECTS then False
              else let slot = slots ! index
                   in occupied slot \<and> generation slot = ObjectHandle_generation h)"

definition ObjectTable_get_type :: "ObjectTable \<Rightarrow> ObjectHandle \<Rightarrow> ObjectType option" where
  "ObjectTable_get_type slots h =
     (if \<not> ObjectHandle_is_valid h then None
      else let index = ObjectHandle_index h
           in if index \<ge> MAX_KERNEL_OBJECTS then None
              else let slot = slots ! index
                   in if \<not> occupied slot \<or> generation slot \<noteq> ObjectHandle_generation h then None
                      else map_option object_type (slot_record slot))"

definition ObjectTable_retain :: "ObjectHandle \<Rightarrow> ObjectTable \<Rightarrow> bool \<times> ObjectTable" where
  "ObjectTable_retain h slots =
     (if \<not> ObjectHandle_is_valid h then (False, slots)
      else let index = ObjectHandle_index h
           in if index \<ge> MAX_KERNEL_OBJECTS then (False, slots)
              else let slot = slots ! index
                   in if \<not> occupied slot \<or> generation slot \<noteq> ObjectHandle_generation h
                      then (False, slots)
                      else case slot_record slot of
                             None \<Rightarrow> (False, slots)
                           | Some r \<Rightarrow>
                               if references r = - 1 then (False, slots)
                               else (True, slots[index := slot\<lparr>slot_record :=
                                       Some (r\<lparr>references := references r + 1\<rparr>)\<rparr>]))"

definition ObjectTable_release :: "ObjectHandle \<Rightarrow> ObjectTable \<Rightarrow> bool \<times> ObjectTable" where
  "ObjectTable_release h slots =
     (if \<not> ObjectHandle_is_valid h then (False, slots)
      else let index = ObjectHandle_index h
           in if index \<ge> MAX_KERNEL_OBJECTS then (False, slots)
              else let slot = slots ! index
                   in if \<not> occupied slot \<or> generation slot \<noteq> ObjectHandle_generation h
                      then (False, slots)
                      else case slot_record slot of
                             None \<Rightarrow> (True, slots)
                           | Some r \<Rightarrow>
                               if references r = 0 then (False, slots)
                               else let slot' = slot\<lparr>slot_record :=
                                                  Some (r\<lparr>references := references r - 1\<rparr>)\<rparr>;
                                        should_destroy = (references r - 1 = 0)
                                    in (True, slots[index := if should_destroy
                                                             then ObjectSlot_clear slot' else slot']))"

definition ObjectTable_destroy :: "ObjectHandle \<Rightarrow> ObjectTable \<Rightarrow> bool \<times> ObjectTable" where
  "ObjectTable_destroy h slots =
     (if \<not> ObjectHandle_is_valid h then (False, slots)
      else let index = ObjectHandle_index h
           in if index \<ge> MAX_KERNEL_OBJECTS then (False, slots)
              else let slot = slots ! index
                   in if \<not> occupied slot \<or> generation slot \<noteq> ObjectHandle_generation h
                      then (False, slots)
                      else (True, slots[index := ObjectSlot_clear slot]))"

definition ObjectTable_count :: "ObjectTable \<Rightarrow> usize" where
  "ObjectTable_count slots = length (filter occupied slots)"

section \<open>Invariant\<close>

text \<open>
  A slot is occupied exactly when it has a record, an object that exists is referenced, and a
  generation is never zero.
\<close>

definition ObjectSlot_ok :: "ObjectSlot \<Rightarrow> bool" where
  "ObjectSlot_ok s \<longleftrightarrow> generation s \<noteq> 0 \<and>
     (case slot_record s of None \<Rightarrow> \<not> occupied s | Some r \<Rightarrow> occupied s \<and> references r \<noteq> 0)"

definition ObjectTable_inv :: "ObjectTable \<Rightarrow> bool" where
  "ObjectTable_inv slots \<longleftrightarrow> length slots = MAX_KERNEL_OBJECTS \<and> (\<forall>s \<in> set slots. ObjectSlot_ok s)"

lemma ObjectTable_inv_new: "ObjectTable_inv ObjectTable_new"
  by (simp add: ObjectTable_inv_def ObjectTable_new_def ObjectSlot_ok_def ObjectSlot_empty_def)

lemma ObjectTable_inv_update:
  "ObjectTable_inv slots \<Longrightarrow> ObjectSlot_ok s \<Longrightarrow> ObjectTable_inv (slots[i := s])"
  by (auto simp: ObjectTable_inv_def dest!: set_update_subset_insert [THEN subsetD])

lemma ObjectTable_inv_nth:
  "ObjectTable_inv slots \<Longrightarrow> i < MAX_KERNEL_OBJECTS \<Longrightarrow> ObjectSlot_ok (slots ! i)"
  by (simp add: ObjectTable_inv_def)

text \<open>The live slot a handle names: the common guard of the operations.\<close>

abbreviation live_slot :: "ObjectTable \<Rightarrow> ObjectHandle \<Rightarrow> bool" where
  "live_slot \<equiv> live_handle occupied generation"

lemma live_slot_iff:
  "ObjectTable_inv slots \<Longrightarrow> live_slot slots h \<longleftrightarrow> h \<noteq> 0 \<and> handle_index h < MAX_KERNEL_OBJECTS \<and>
     occupied (slots ! handle_index h) \<and>
     generation (slots ! handle_index h) = handle_generation h"
  by (simp add: live_handle_def ObjectTable_inv_def)

lemmas object_handle_defs = ObjectHandle_is_valid_def ObjectHandle_index_def
  ObjectHandle_generation_def ObjectHandle_new_def

lemma ObjectTable_is_valid_live:
  "ObjectTable_inv slots \<Longrightarrow> ObjectTable_is_valid slots h \<longleftrightarrow> live_slot slots h"
  by (auto simp: ObjectTable_is_valid_def live_slot_iff object_handle_defs Let_def)

lemma ObjectTable_get_type_live:
  "ObjectTable_inv slots \<Longrightarrow> ObjectTable_get_type slots h =
     (if live_slot slots h then map_option object_type (slot_record (slots ! handle_index h)) else None)"
  by (auto simp: ObjectTable_get_type_def live_slot_iff object_handle_defs Let_def)

lemma live_slotD:
  assumes "ObjectTable_inv slots" and "live_slot slots h"
  obtains r where "handle_index h < length slots" and "slot_record (slots ! handle_index h) = Some r"
    and "references r \<noteq> 0" and "occupied (slots ! handle_index h)"
    and "generation (slots ! handle_index h) = handle_generation h"
    and "handle_generation h \<noteq> 0" and "ObjectSlot_ok (slots ! handle_index h)"
proof -
  have ok: "ObjectSlot_ok (slots ! handle_index h)"
    using assms by (intro ObjectTable_inv_nth) (auto simp: live_slot_iff)
  with assms(2) show thesis
    by (cases "slot_record (slots ! handle_index h)")
      (auto simp: ObjectSlot_ok_def live_handle_def intro: that)
qed

text \<open>On a live handle each operation is an update of the slot it names; otherwise it fails.\<close>

lemma ObjectTable_retain_live:
  assumes "ObjectTable_inv slots" and "live_slot slots h"
    and "slot_record (slots ! handle_index h) = Some r"
  shows "ObjectTable_retain h slots =
     (if references r = - 1 then (False, slots)
      else (True, slots[handle_index h := (slots ! handle_index h)\<lparr>slot_record :=
              Some (r\<lparr>references := references r + 1\<rparr>)\<rparr>]))"
  using assms by (auto simp: ObjectTable_retain_def live_slot_iff object_handle_defs Let_def)

lemma ObjectTable_release_live:
  assumes "ObjectTable_inv slots" and "live_slot slots h"
    and "slot_record (slots ! handle_index h) = Some r"
  shows "ObjectTable_release h slots =
     (True, slots[handle_index h :=
        (if references r = 1 then ObjectSlot_clear (slots ! handle_index h)
         else (slots ! handle_index h)\<lparr>slot_record := Some (r\<lparr>references := references r - 1\<rparr>)\<rparr>)])"
proof -
  have "references r \<noteq> 0" using live_slotD [OF assms(1,2)] assms(3) by auto
  then show ?thesis
    using assms
    by (auto simp: ObjectTable_release_def live_slot_iff object_handle_defs Let_def
        ObjectSlot_clear_def eq_iff_diff_eq_0 [symmetric])
qed

lemma ObjectTable_destroy_live:
  assumes "ObjectTable_inv slots" and "live_slot slots h"
  shows "ObjectTable_destroy h slots =
     (True, slots[handle_index h := ObjectSlot_clear (slots ! handle_index h)])"
  using assms by (auto simp: ObjectTable_destroy_def live_slot_iff object_handle_defs Let_def)

lemma ObjectTable_dead:
  assumes "ObjectTable_inv slots" and "\<not> live_slot slots h"
  shows "ObjectTable_retain h slots = (False, slots)"
    and "ObjectTable_release h slots = (False, slots)"
    and "ObjectTable_destroy h slots = (False, slots)"
  using assms
  by (auto simp: ObjectTable_retain_def ObjectTable_release_def ObjectTable_destroy_def
      live_slot_iff object_handle_defs Let_def)

section \<open>Abstract objects\<close>

text \<open>
  What the table promises: a finite map from the handles of the live objects to their type and
  their reference count.  \<open>objects_of\<close> reads it off a table; \<open>object_spec\<close> says what each operation
  may answer and how it changes the map.
\<close>

type_synonym objects = "ObjectHandle \<rightharpoonup> ObjectType \<times> nat"

definition object_view :: "ObjectSlot \<Rightarrow> ObjectType \<times> nat" where
  "object_view s = (object_type (the (slot_record s)), unat (references (the (slot_record s))))"

abbreviation objects_of :: "ObjectTable \<Rightarrow> objects" where
  "objects_of \<equiv> slot_view occupied generation object_view"

datatype ObjectOp = Create ObjectType | Retain ObjectHandle | Release ObjectHandle | Destroy ObjectHandle

datatype ObjectAnswer = Created "ObjectHandle option" | Done bool

fun ObjectTable_step :: "ObjectOp \<Rightarrow> ObjectTable \<Rightarrow> ObjectAnswer \<times> ObjectTable" where
  "ObjectTable_step (Create ty) t = map_prod Created id (ObjectTable_create ty t)"
| "ObjectTable_step (Retain h) t = map_prod Done id (ObjectTable_retain h t)"
| "ObjectTable_step (Release h) t = map_prod Done id (ObjectTable_release h t)"
| "ObjectTable_step (Destroy h) t = map_prod Done id (ObjectTable_destroy h t)"

inductive object_spec :: "ObjectOp \<Rightarrow> objects \<Rightarrow> ObjectAnswer \<Rightarrow> objects \<Rightarrow> bool" where
  create_ok: "h \<notin> dom m \<Longrightarrow> h \<noteq> ObjectHandle_INVALID \<Longrightarrow> card (dom m) < MAX_KERNEL_OBJECTS \<Longrightarrow>
     object_spec (Create ty) m (Created (Some h)) (m(h \<mapsto> (ty, 1)))"
| create_full: "card (dom m) = MAX_KERNEL_OBJECTS \<Longrightarrow> object_spec (Create ty) m (Created None) m"
| retain_ok: "m h = Some (ty, n) \<Longrightarrow> Suc n < 2 ^ 32 \<Longrightarrow>
     object_spec (Retain h) m (Done True) (m(h \<mapsto> (ty, Suc n)))"
| retain_saturated: "m h = Some (ty, n) \<Longrightarrow> Suc n = 2 ^ 32 \<Longrightarrow> object_spec (Retain h) m (Done False) m"
| retain_dead: "m h = None \<Longrightarrow> object_spec (Retain h) m (Done False) m"
| release_last: "m h = Some (ty, 1) \<Longrightarrow> object_spec (Release h) m (Done True) (m(h := None))"
| release_ok: "m h = Some (ty, Suc n) \<Longrightarrow> 0 < n \<Longrightarrow>
     object_spec (Release h) m (Done True) (m(h \<mapsto> (ty, n)))"
| release_dead: "m h = None \<Longrightarrow> object_spec (Release h) m (Done False) m"
| destroy_ok: "m h = Some x \<Longrightarrow> object_spec (Destroy h) m (Done True) (m(h := None))"
| destroy_dead: "m h = None \<Longrightarrow> object_spec (Destroy h) m (Done False) m"

lemma objects_of_Some:
  "live_slot t h \<Longrightarrow> slot_record (t ! handle_index h) = Some r \<Longrightarrow>
     objects_of t h = Some (object_type r, unat (references r))"
  by (simp add: slot_view_Some object_view_def)

lemma card_objects_of:
  assumes "ObjectTable_inv t"
  shows "card (dom (objects_of t)) = ObjectTable_count t"
  using assms unfolding ObjectTable_count_def
  by (intro card_slot_view) (auto simp: ObjectTable_inv_def MAX_KERNEL_OBJECTS_def ObjectSlot_ok_def)

section \<open>The operations refine the abstract objects\<close>

lemma ObjectTable_create_cases:
  assumes "ObjectTable_inv t"
  obtains (full) "ObjectTable_create ty t = (None, t)" and "\<forall>s \<in> set t. occupied s"
  | (slot) i where "i < length t" and "\<not> occupied (t ! i)"
      and "ObjectTable_create ty t = (Some (pack_handle i (generation (t ! i))),
             t[i := (t ! i)\<lparr>occupied := True, slot_record := Some (ObjectRecord_new ty)\<rparr>])"
proof (cases "first_index ObjectSlot_is_free t")
  case None
  then have "\<forall>s \<in> set t. occupied s" by (simp add: first_index_None ObjectSlot_is_free_def)
  with None show thesis by (intro full) (simp_all add: ObjectTable_create_def)
next
  case (Some i)
  then have "i < length t" and "\<not> occupied (t ! i)"
    by (auto simp: first_index_Some ObjectSlot_is_free_def)
  with Some show thesis
    by (intro slot [of i]) (simp_all add: ObjectTable_create_def ObjectHandle_new_def Let_def)
qed

lemma ObjectSlot_ok_fill:
  "ObjectSlot_ok s \<Longrightarrow> ObjectSlot_ok (s\<lparr>occupied := True, slot_record := Some (ObjectRecord_new ty)\<rparr>)"
  by (simp add: ObjectSlot_ok_def ObjectRecord_new_def)

lemma ObjectSlot_ok_record:
  "ObjectSlot_ok s \<Longrightarrow> occupied s \<Longrightarrow> references r \<noteq> 0 \<Longrightarrow> ObjectSlot_ok (s\<lparr>slot_record := Some r\<rparr>)"
  by (simp add: ObjectSlot_ok_def)

lemma ObjectSlot_ok_clear: "ObjectSlot_ok (ObjectSlot_clear s)"
  by (simp add: ObjectSlot_ok_def ObjectSlot_clear_def)

lemma create_refines:
  assumes inv: "ObjectTable_inv t"
  shows "object_spec (Create ty) (objects_of t) (Created (fst (ObjectTable_create ty t)))
           (objects_of (snd (ObjectTable_create ty t)))
       \<and> ObjectTable_inv (snd (ObjectTable_create ty t))"
  using inv
proof (cases rule: ObjectTable_create_cases [where ty = ty])
  case full
  then have "filter occupied t = t" by (simp add: filter_id_conv)
  then have "card (dom (objects_of t)) = MAX_KERNEL_OBJECTS"
    using inv by (simp add: card_objects_of ObjectTable_count_def ObjectTable_inv_def)
  with full inv show ?thesis by (simp add: object_spec.create_full)
next
  case (slot i)
  let ?s = "(t ! i)\<lparr>occupied := True, slot_record := Some (ObjectRecord_new ty)\<rparr>"
  let ?h = "pack_handle i (generation ?s)"
  have i: "i < 2 ^ 32" "i < MAX_KERNEL_OBJECTS"
    using slot(1) inv by (auto simp: ObjectTable_inv_def MAX_KERNEL_OBJECTS_def)
  have ok: "ObjectSlot_ok (t ! i)" using inv i(2) by (rule ObjectTable_inv_nth)
  have view: "objects_of (t[i := ?s]) = (objects_of t)(?h \<mapsto> object_view ?s)"
    and fresh: "?h \<notin> dom (objects_of t)"
    using slot(1,2) i(1) ok by (intro slot_view_fill; simp add: ObjectSlot_ok_def)+
  have "object_view ?s = (ty, 1)" by (simp add: object_view_def ObjectRecord_new_def)
  moreover have "card (dom (objects_of t)) < MAX_KERNEL_OBJECTS"
    using inv slot(1,2) length_filter_less [of "t ! i" t occupied]
    by (simp add: card_objects_of ObjectTable_count_def ObjectTable_inv_def)
  moreover have "?h \<noteq> ObjectHandle_INVALID"
    using i(1) ok by (simp add: pack_handle_nonzero ObjectSlot_ok_def ObjectHandle_INVALID_def)
  moreover have "ObjectTable_inv (t[i := ?s])"
    using inv ok by (intro ObjectTable_inv_update ObjectSlot_ok_fill)
  ultimately show ?thesis
    using slot(3) view object_spec.create_ok [OF fresh] by simp
qed

lemma retain_refines:
  assumes inv: "ObjectTable_inv t"
  shows "object_spec (Retain h) (objects_of t) (Done (fst (ObjectTable_retain h t)))
           (objects_of (snd (ObjectTable_retain h t)))
       \<and> ObjectTable_inv (snd (ObjectTable_retain h t))"
proof (cases "live_slot t h")
  case False
  with inv show ?thesis by (simp add: ObjectTable_dead object_spec.retain_dead slot_view_None)
next
  case live: True
  then obtain r where r: "slot_record (t ! handle_index h) = Some r"
    and occ: "occupied (t ! handle_index h)" and ok: "ObjectSlot_ok (t ! handle_index h)"
    and gen: "generation (t ! handle_index h) = handle_generation h"
    using inv by (elim live_slotD)
  have obj: "objects_of t h = Some (object_type r, unat (references r))"
    using live r by (rule objects_of_Some)
  show ?thesis
  proof (cases "references r = - 1")
    case True
    then have "Suc (unat (references r)) = 2 ^ 32"
      by (simp add: unsigned_minus_1_eq_mask mask_eq_exp_minus_1)
    from object_spec.retain_saturated [of "objects_of t" h, OF obj this]
    show ?thesis using True ObjectTable_retain_live [OF inv live r] inv by simp
  next
    case False
    then have nz: "references r + 1 \<noteq> 0" by (simp add: eq_neg_iff_add_eq_0)
    then have un: "unat (references r + 1) = Suc (unat (references r))"
      using unatSuc [of "references r"] by (simp add: add.commute)
    have "Suc (unat (references r)) < 2 ^ 32"
      using unat_bound [of "references r + 1"] un by simp
    from object_spec.retain_ok [of "objects_of t" h, OF obj this]
    show ?thesis
      using False ObjectTable_retain_live [OF inv live r] inv live ok occ gen nz un
      by (simp add: slot_view_rewrite object_view_def ObjectTable_inv_update ObjectSlot_ok_record)
  qed
qed

lemma release_refines:
  assumes inv: "ObjectTable_inv t"
  shows "object_spec (Release h) (objects_of t) (Done (fst (ObjectTable_release h t)))
           (objects_of (snd (ObjectTable_release h t)))
       \<and> ObjectTable_inv (snd (ObjectTable_release h t))"
proof (cases "live_slot t h")
  case False
  with inv show ?thesis by (simp add: ObjectTable_dead object_spec.release_dead slot_view_None)
next
  case live: True
  then obtain r where r: "slot_record (t ! handle_index h) = Some r" and nz: "references r \<noteq> 0"
    and occ: "occupied (t ! handle_index h)" and ok: "ObjectSlot_ok (t ! handle_index h)"
    and gen: "generation (t ! handle_index h) = handle_generation h"
    using inv by (elim live_slotD)
  have obj: "objects_of t h = Some (object_type r, unat (references r))"
    using live r by (rule objects_of_Some)
  show ?thesis
  proof (cases "references r = 1")
    case True
    with obj show ?thesis
      using ObjectTable_release_live [OF inv live r] inv live
      by (simp add: slot_view_clear object_spec.release_last ObjectTable_inv_update
          ObjectSlot_ok_clear) (simp add: ObjectSlot_clear_def slot_view_clear object_spec.release_last)
  next
    case False
    then have nz': "references r - 1 \<noteq> 0" by simp
    have "unat (references r) = Suc (unat (references r - 1))"
      using unatSuc [of "references r - 1"] nz by simp
    with obj have "objects_of t h = Some (object_type r, Suc (unat (references r - 1)))" by simp
    moreover have "0 < unat (references r - 1)" using nz' by (simp add: unat_gt_0)
    ultimately have "object_spec (Release h) (objects_of t) (Done True)
        ((objects_of t)(h \<mapsto> (object_type r, unat (references r - 1))))"
      by (rule object_spec.release_ok)
    then show ?thesis
      using False ObjectTable_release_live [OF inv live r] inv live ok occ gen nz'
      by (simp add: slot_view_rewrite object_view_def ObjectTable_inv_update ObjectSlot_ok_record)
  qed
qed

lemma destroy_refines:
  assumes inv: "ObjectTable_inv t"
  shows "object_spec (Destroy h) (objects_of t) (Done (fst (ObjectTable_destroy h t)))
           (objects_of (snd (ObjectTable_destroy h t)))
       \<and> ObjectTable_inv (snd (ObjectTable_destroy h t))"
proof (cases "live_slot t h")
  case False
  with inv show ?thesis by (simp add: ObjectTable_dead object_spec.destroy_dead slot_view_None)
next
  case True
  then have "objects_of (t[handle_index h := ObjectSlot_clear (t ! handle_index h)])
      = (objects_of t)(h := None)"
    by (rule slot_view_clear) (simp add: ObjectSlot_clear_def)
  with True inv object_spec.destroy_ok [of "objects_of t" h, OF slot_view_Some [OF True]] show ?thesis
    by (simp add: ObjectTable_destroy_live ObjectTable_inv_update ObjectSlot_ok_clear)
qed

lemma ObjectTable_step_refines:
  "ObjectTable_inv t \<Longrightarrow>
     object_spec a (objects_of t) (fst (ObjectTable_step a t)) (objects_of (snd (ObjectTable_step a t)))
   \<and> ObjectTable_inv (snd (ObjectTable_step a t))"
  by (cases a) (simp_all add: create_refines retain_refines release_refines destroy_refines)

section \<open>Stale handles\<close>

lemma ObjectTable_step_generation:
  assumes inv: "ObjectTable_inv t" and i: "i < MAX_KERNEL_OBJECTS"
  shows "generation (snd (ObjectTable_step a t) ! i) = generation (t ! i)
       \<or> generation (snd (ObjectTable_step a t) ! i) = bump_generation (generation (t ! i))"
proof -
  have len: "length t = MAX_KERNEL_OBJECTS" using inv by (simp add: ObjectTable_inv_def)
  have create: "generation (snd (ObjectTable_create ty t) ! i) = generation (t ! i)" for ty
    by (cases rule: ObjectTable_create_cases [OF inv, of ty]) (auto simp: nth_list_update)
  have retain: "generation (snd (ObjectTable_retain h t) ! i) = generation (t ! i)" for h
    using len by (auto simp: ObjectTable_retain_def Let_def nth_list_update split: option.splits)
  have release: "generation (snd (ObjectTable_release h t) ! i) = generation (t ! i)
      \<or> generation (snd (ObjectTable_release h t) ! i) = bump_generation (generation (t ! i))" for h
  proof (cases "live_slot t h")
    case True
    then obtain r where "slot_record (t ! handle_index h) = Some r" "handle_index h < length t"
      using inv by (elim live_slotD)
    with inv True show ?thesis
      by (auto simp: ObjectTable_release_live ObjectSlot_clear_def nth_list_update)
  qed (simp add: inv ObjectTable_dead)
  have destroy: "generation (snd (ObjectTable_destroy h t) ! i) = generation (t ! i)
      \<or> generation (snd (ObjectTable_destroy h t) ! i) = bump_generation (generation (t ! i))" for h
    using inv by (cases "live_slot t h")
      (auto simp: ObjectTable_dead ObjectTable_destroy_live ObjectSlot_clear_def nth_list_update
        live_handle_def)
  show ?thesis using create retain release destroy by (cases a) auto
qed

interpretation objects: recycled_slots ObjectTable_inv "\<lambda>a t. snd (ObjectTable_step a t)"
  ObjectTable_is_valid "\<lambda>t i. generation (t ! i)" MAX_KERNEL_OBJECTS
proof
  fix t :: ObjectTable and a :: ObjectOp and i h
  assume inv: "ObjectTable_inv t"
  show "ObjectTable_inv (snd (ObjectTable_step a t))"
    using ObjectTable_step_refines [OF inv] by blast
  show "ObjectTable_is_valid t h \<Longrightarrow> handle_index h < MAX_KERNEL_OBJECTS"
    and "ObjectTable_is_valid t h \<Longrightarrow> generation (t ! handle_index h) = handle_generation h"
    using inv by (simp_all add: ObjectTable_is_valid_live live_slot_iff)
  assume i: "i < MAX_KERNEL_OBJECTS"
  show "generation (t ! i) \<noteq> 0"
    using ObjectTable_inv_nth [OF inv i] by (simp add: ObjectSlot_ok_def)
  show "generation (snd (ObjectTable_step a t) ! i) = generation (t ! i)
      \<or> generation (snd (ObjectTable_step a t) ! i) = bump_generation (generation (t ! i))"
    using inv i by (rule ObjectTable_step_generation)
qed

text \<open>Sequences of table operations, and how often they recycle a slot.\<close>

fun ObjectTable_run :: "ObjectOp list \<Rightarrow> ObjectTable \<Rightarrow> ObjectTable" where
  "ObjectTable_run [] t = t"
| "ObjectTable_run (a # as) t = ObjectTable_run as (snd (ObjectTable_step a t))"

fun ObjectTable_recycles :: "usize \<Rightarrow> ObjectOp list \<Rightarrow> ObjectTable \<Rightarrow> nat" where
  "ObjectTable_recycles i [] t = 0"
| "ObjectTable_recycles i (a # as) t =
     (if generation (snd (ObjectTable_step a t) ! i) = generation (t ! i) then 0 else 1)
     + ObjectTable_recycles i as (snd (ObjectTable_step a t))"

lemma ObjectTable_run_eq: "ObjectTable_run as t = objects.run as t"
  by (induction as arbitrary: t) simp_all

lemma ObjectTable_recycles_eq: "ObjectTable_recycles i as t = objects.bumps i as t"
  by (induction as arbitrary: t) simp_all

lemma ObjectTable_run_inv: "ObjectTable_inv t \<Longrightarrow> ObjectTable_inv (ObjectTable_run as t)"
  by (simp add: ObjectTable_run_eq objects.inv_run)

lemma ObjectTable_run_append: "ObjectTable_run (as @ bs) t = ObjectTable_run bs (ObjectTable_run as t)"
  by (induction as arbitrary: t) simp_all

section \<open>Reference counts over many operations\<close>

inductive_cases object_spec_retainE: "object_spec (Retain h) m x m'"
inductive_cases object_spec_releaseE: "object_spec (Release h) m x m'"

lemma ObjectTable_retains:
  assumes "ObjectTable_inv t" and "objects_of t h = Some (ty, n)" and "n + k < 2 ^ 32"
  shows "objects_of (ObjectTable_run (replicate k (Retain h)) t) h = Some (ty, n + k)"
  using assms
proof (induction k arbitrary: t n)
  case 0
  then show ?case by simp
next
  case (Suc k)
  let ?t = "snd (ObjectTable_step (Retain h) t)"
  have spec: "object_spec (Retain h) (objects_of t) (fst (ObjectTable_step (Retain h) t)) (objects_of ?t)"
    and inv: "ObjectTable_inv ?t"
    using ObjectTable_step_refines [OF Suc.prems(1)] by blast+
  from spec have "objects_of ?t h = Some (ty, Suc n)"
    by (rule object_spec_retainE) (use Suc.prems(2,3) in auto)
  from Suc.IH [OF inv this] Suc.prems(3) show ?case by simp
qed

lemma ObjectTable_releases:
  assumes "ObjectTable_inv t" and "objects_of t h = Some (ty, n)" and "k < n"
  shows "objects_of (ObjectTable_run (replicate k (Release h)) t) h = Some (ty, n - k)"
  using assms
proof (induction k arbitrary: t n)
  case 0
  then show ?case by simp
next
  case (Suc k)
  let ?t = "snd (ObjectTable_step (Release h) t)"
  have spec: "object_spec (Release h) (objects_of t) (fst (ObjectTable_step (Release h) t)) (objects_of ?t)"
    and inv: "ObjectTable_inv ?t"
    using ObjectTable_step_refines [OF Suc.prems(1)] by blast+
  from spec have "objects_of ?t h = Some (ty, n - 1)"
    by (rule object_spec_releaseE) (use Suc.prems(2,3) in auto)
  from Suc.IH [OF inv this] Suc.prems(3) show ?case by simp
qed

lemma ObjectTable_last_release:
  assumes "ObjectTable_inv t" and "objects_of t h = Some (ty, 1)"
  shows "objects_of (snd (ObjectTable_step (Release h) t)) h = None"
proof -
  have "object_spec (Release h) (objects_of t) (fst (ObjectTable_step (Release h) t))
      (objects_of (snd (ObjectTable_step (Release h) t)))"
    using ObjectTable_step_refines [OF assms(1)] by blast
  then show ?thesis by (rule object_spec_releaseE) (use assms(2) in auto)
qed

lemma ObjectTable_create_Some:
  assumes inv: "ObjectTable_inv t" and ok: "ObjectTable_create ty t = (Some h, t')"
  shows "ObjectTable_inv t'" and "objects_of t' h = Some (ty, 1)"
proof -
  have "object_spec (Create ty) (objects_of t) (Created (Some h)) (objects_of t')"
    and "ObjectTable_inv t'"
    using create_refines [OF inv, of ty] ok by auto
  then show "objects_of t' h = Some (ty, 1)" and "ObjectTable_inv t'"
    by (auto elim: object_spec.cases)
qed

section \<open>Properties\<close>

abbreviation reachable_table :: "ObjectOp list \<Rightarrow> ObjectTable" where
  "reachable_table as \<equiv> ObjectTable_run as ObjectTable_new"

lemma reachable_table_inv: "ObjectTable_inv (reachable_table as)"
  by (intro ObjectTable_run_inv ObjectTable_inv_new)

text \<open>
  C9.  The object table implements the abstract objects: a fresh table holds no object, and after any
  sequence of operations the answer of the next operation and the objects afterwards are those the
  specification allows.  In particular a handle that \<open>create\<close> returns is nonzero and was not live, no
  operation touches an object other than the one it names, \<open>create\<close> fails only on a full table and
  \<open>retain\<close> only on a dead handle or a saturated count.
\<close>

theorem object_table_refines:
  "objects_of ObjectTable_new = Map.empty
   \<and> object_spec a (objects_of (reachable_table as)) (fst (ObjectTable_step a (reachable_table as)))
       (objects_of (snd (ObjectTable_step a (reachable_table as))))"
proof
  show "objects_of ObjectTable_new = Map.empty"
    by (rule ext) (auto simp: slot_view_None live_handle_def ObjectTable_new_def ObjectSlot_empty_def)
  show "object_spec a (objects_of (reachable_table as)) (fst (ObjectTable_step a (reachable_table as)))
       (objects_of (snd (ObjectTable_step a (reachable_table as))))"
    using ObjectTable_step_refines [OF reachable_table_inv] by blast
qed

text \<open>
  The observers of the table read the abstract objects: \<open>is_valid\<close> holds of exactly the live
  handles, \<open>get_type\<close> returns the type of a live object and \<open>None\<close> otherwise, and \<open>count\<close> is the
  number of live objects.
\<close>

theorem object_table_observers:
  "(ObjectTable_is_valid (reachable_table as) h \<longleftrightarrow> h \<in> dom (objects_of (reachable_table as)))
   \<and> ObjectTable_get_type (reachable_table as) h = map_option fst (objects_of (reachable_table as) h)
   \<and> ObjectTable_count (reachable_table as) = card (dom (objects_of (reachable_table as)))"
proof -
  let ?t = "reachable_table as"
  have inv: "ObjectTable_inv ?t" by (rule reachable_table_inv)
  have "ObjectTable_get_type ?t h = map_option fst (objects_of ?t h)"
  proof (cases "live_slot ?t h")
    case True
    then obtain r where "slot_record (?t ! handle_index h) = Some r" using inv by (elim live_slotD)
    with True inv show ?thesis by (simp add: ObjectTable_get_type_live objects_of_Some)
  qed (use inv in \<open>simp add: ObjectTable_get_type_live slot_view_None\<close>)
  then show ?thesis
    using inv by (simp add: ObjectTable_is_valid_live dom_slot_view card_objects_of)
qed

text \<open>
  C10.  A handle whose object was destroyed stays dead: whatever operations follow, as long as they
  recycle its slot fewer than \<open>2 ^ 32 - 2\<close> times, no operation accepts the handle again.
\<close>

theorem stale_object_handle:
  assumes "ObjectTable_is_valid (reachable_table as) h"
    and "ObjectTable_recycles (ObjectHandle_index h) bs (snd (ObjectTable_destroy h (reachable_table as)))
         < 2 ^ 32 - 2"
  shows "\<not> ObjectTable_is_valid
       (ObjectTable_run bs (snd (ObjectTable_destroy h (reachable_table as)))) h"
proof -
  let ?t = "reachable_table as" and ?i = "handle_index h"
  have live: "live_slot ?t h" using assms(1) by (simp add: ObjectTable_is_valid_live reachable_table_inv)
  have "?i < length ?t" and gen: "handle_generation h \<noteq> 0"
    using live_slotD [OF reachable_table_inv live] by blast+
  with live have "generation (snd (ObjectTable_destroy h ?t) ! ?i) = bump_generation (handle_generation h)"
    by (simp add: ObjectTable_destroy_live reachable_table_inv ObjectSlot_clear_def live_handle_def)
  moreover have "?i < MAX_KERNEL_OBJECTS"
    using live live_slot_iff [OF reachable_table_inv] by blast
  moreover have "objects.bumps ?i bs (snd (ObjectTable_destroy h ?t)) < generation_period - 1"
    using assms(2) by (simp add: ObjectTable_recycles_eq ObjectHandle_index_def generation_period_def)
  moreover have "ObjectTable_inv (snd (ObjectTable_destroy h ?t))"
    using destroy_refines [OF reachable_table_inv] by blast
  ultimately show ?thesis
    using gen by (simp only: ObjectTable_run_eq) (rule objects.stale_run)
qed

text \<open>
  Reference counting decides the lifetime of an object: after \<open>create\<close> and \<open>m\<close> calls of \<open>retain\<close>
  the object survives up to \<open>m\<close> calls of \<open>release\<close> and dies with the next one.
\<close>

theorem object_lifetime:
  assumes "ObjectTable_create ty (reachable_table as) = (Some h, t)" and "m < 2 ^ 32 - 1" and "k \<le> m"
  shows "ObjectTable_is_valid (ObjectTable_run (replicate m (Retain h) @ replicate k (Release h)) t) h
       \<and> \<not> ObjectTable_is_valid
           (ObjectTable_run (replicate m (Retain h) @ replicate (Suc m) (Release h)) t) h"
proof -
  have inv: "ObjectTable_inv t" and obj: "objects_of t h = Some (ty, 1)"
    using ObjectTable_create_Some [OF reachable_table_inv assms(1)] by blast+
  let ?t = "ObjectTable_run (replicate m (Retain h)) t"
  have inv': "ObjectTable_inv ?t" using inv by (rule ObjectTable_run_inv)
  have held: "objects_of ?t h = Some (ty, 1 + m)"
    using inv obj assms(2) by (intro ObjectTable_retains) auto
  let ?u = "\<lambda>j. ObjectTable_run (replicate j (Release h)) ?t"
  have rel: "objects_of (?u j) h = Some (ty, 1 + m - j)" if "j \<le> m" for j
    using inv' held that by (intro ObjectTable_releases) auto
  have inv_u: "ObjectTable_inv (?u j)" for j using inv' by (rule ObjectTable_run_inv)
  have survives: "ObjectTable_is_valid (ObjectTable_run (replicate m (Retain h) @ replicate k (Release h)) t) h"
    using rel [OF assms(3)] dom_slot_view [of h occupied generation object_view "?u k"]
    by (auto simp: ObjectTable_is_valid_live inv_u ObjectTable_run_append)
  have "objects_of (snd (ObjectTable_step (Release h) (?u m))) h = None"
    using inv_u rel [of m] by (intro ObjectTable_last_release) auto
  moreover have "ObjectTable_run (replicate m (Retain h) @ replicate (Suc m) (Release h)) t
      = snd (ObjectTable_step (Release h) (?u m))"
    using replicate_append_same [of m "Release h"] ObjectTable_run_append [of "replicate m (Release h)" "[Release h]"]
    by (simp add: ObjectTable_run_append)
  moreover have "ObjectTable_inv (snd (ObjectTable_step (Release h) (?u m)))"
    using ObjectTable_step_refines [OF inv_u] by blast
  ultimately show ?thesis
    using survives
    by (simp only: ObjectTable_is_valid_live slot_view_None [of _ _ object_view, symmetric] simp_thms)
qed

lemma fresh_create:
  "ObjectTable_create Process ObjectTable_new
     = (Some 0x100000000, ObjectTable_new[0 := ObjectSlot_empty\<lparr>occupied := True,
          slot_record := Some (ObjectRecord_new Process)\<rparr>])"
  by (simp add: ObjectTable_create_def ObjectTable_new_def MAX_KERNEL_OBJECTS_def numeral_eq_Suc
      ObjectSlot_is_free_def ObjectSlot_empty_def ObjectHandle_new_def pack_handle_def Let_def)

text \<open>The hypotheses of the two theorems above hold for the first handle a fresh table hands out.\<close>

theorem stale_object_handle_witness:
  "ObjectTable_is_valid (reachable_table [Create Process]) 0x100000000
   \<and> \<not> ObjectTable_is_valid (ObjectTable_run [Create Thread]
         (snd (ObjectTable_destroy 0x100000000 (reachable_table [Create Process])))) 0x100000000"
proof -
  let ?t = "reachable_table [Create Process]" and ?h = "0x100000000 :: ObjectHandle"
  have t: "?t = ObjectTable_new[0 := ObjectSlot_empty\<lparr>occupied := True,
          slot_record := Some (ObjectRecord_new Process)\<rparr>]"
    by (simp add: fresh_create)
  have valid: "ObjectTable_is_valid ?t ?h"
    unfolding t
    by (simp add: ObjectTable_is_valid_def object_handle_defs handle_index_def Let_def
        handle_generation_def MAX_KERNEL_OBJECTS_def ObjectTable_new_def ObjectSlot_empty_def)
  have "ObjectTable_recycles (ObjectHandle_index ?h) [Create Thread] (snd (ObjectTable_destroy ?h ?t))
        \<le> length [Create Thread]"
    by (simp only: ObjectTable_recycles_eq objects.bumps_le)
  then have "ObjectTable_recycles (ObjectHandle_index ?h) [Create Thread]
        (snd (ObjectTable_destroy ?h ?t)) < 2 ^ 32 - 2"
    by simp
  from stale_object_handle [OF valid this] valid show ?thesis by blast
qed

theorem object_lifetime_witness:
  "ObjectTable_is_valid (ObjectTable_run [Retain 0x100000000, Release 0x100000000]
       (snd (ObjectTable_create Process ObjectTable_new))) 0x100000000
   \<and> \<not> ObjectTable_is_valid (ObjectTable_run [Retain 0x100000000, Release 0x100000000, Release 0x100000000]
       (snd (ObjectTable_create Process ObjectTable_new))) 0x100000000"
  using object_lifetime [of Process "[]" "0x100000000" "snd (ObjectTable_create Process ObjectTable_new)" 1 1]
  by (simp add: fresh_create)

end
