(* ===== verification/Ipc.thy ===== *)
theory Ipc
  imports Objects
begin

text \<open>
  Inter-process messages (\<open>ipc/message.rs\<close>, \<open>ipc/endpoint.rs\<close>): messages of at most 256 bytes, the
  ring buffer of an endpoint, and the table of 16 endpoints behind generation-tagged handles.

  The ring buffer is shown to be a bounded first-in-first-out queue (locale \<open>bounded_fifo\<close>), and the
  manager to implement a finite map from live handles to lists of messages.  The spin locks around
  the table and around each queue make every operation of the manager one atomic step on the state
  modelled here; the lock itself is the subject of theory \<open>Spin_Lock\<close>.
\<close>

section \<open>Messages\<close>

definition IPC_MESSAGE_SIZE :: usize where
  "IPC_MESSAGE_SIZE = 256"

record IpcMessage =
  sender :: ObjectHandle
  msg_len :: u16
  msg_reserved :: u16
  msg_data :: "u8 list"

definition IpcMessage_empty :: IpcMessage where
  "IpcMessage_empty =
     \<lparr>sender = ObjectHandle_INVALID, msg_len = 0, msg_reserved = 0, msg_data = replicate IPC_MESSAGE_SIZE 0\<rparr>"

text \<open>The copy loop \<open>while index < data.len() { message.data[index] = data[index]; index += 1; }\<close>.\<close>

function copy_bytes :: "u8 list \<Rightarrow> usize \<Rightarrow> u8 list \<Rightarrow> u8 list run" where
  "copy_bytes data index dest =
     (if index < length data then do {
        b \<leftarrow> arr_get data index;
        dest' \<leftarrow> arr_set dest index b;
        copy_bytes data (index + 1) dest' }
      else ret dest)"
  by auto
termination by (relation "measure (\<lambda>(data, index, dest). length data - index)") auto

declare copy_bytes.simps [simp del]

definition IpcMessage_new :: "ObjectHandle \<Rightarrow> u8 list \<Rightarrow> IpcMessage option run" where
  "IpcMessage_new snd_h data =
     (if IPC_MESSAGE_SIZE < length data then ret None
      else let message = IpcMessage_empty\<lparr>sender := snd_h, msg_len := of_nat (length data)\<rparr> in do {
        bytes \<leftarrow> copy_bytes data 0 (msg_data message);
        ret (Some (message\<lparr>msg_data := bytes\<rparr>)) })"

text \<open>\<open>&self.data[..self.len as usize]\<close> panics when the slice end is beyond the array.\<close>

definition IpcMessage_payload :: "IpcMessage \<Rightarrow> u8 list run" where
  "IpcMessage_payload m =
     (if unat (msg_len m) \<le> length (msg_data m) then ret (take (unat (msg_len m)) (msg_data m)) else panic)"

definition IpcMessage_ok :: "IpcMessage \<Rightarrow> bool" where
  "IpcMessage_ok m \<longleftrightarrow> length (msg_data m) = IPC_MESSAGE_SIZE \<and> unat (msg_len m) \<le> IPC_MESSAGE_SIZE"

text \<open>What a receiver reads of a message.\<close>

definition message_view :: "IpcMessage \<Rightarrow> ObjectHandle \<times> u8 list" where
  "message_view m = (sender m, take (unat (msg_len m)) (msg_data m))"

lemma copy_bytes_run:
  assumes "length data \<le> length dest" and "index \<le> length data"
  shows "copy_bytes data index dest
       = ret (take index dest @ drop index data @ drop (length data) dest)"
  using assms
proof (induction data index dest rule: copy_bytes.induct)
  case (1 data index dest)
  show ?case
  proof (cases "index < length data")
    case True
    then have "index < length dest" using 1(2) by simp
    moreover have "take (index + 1) (dest[index := data ! index]) = take index dest @ [data ! index]"
      using \<open>index < length dest\<close> by (simp add: take_Suc_conv_app_nth)
    moreover have "[data ! index] @ drop (index + 1) data = drop index data"
      using True by (simp add: Cons_nth_drop_Suc)
    moreover have "copy_bytes data (index + 1) (dest[index := data ! index])
        = ret (take (index + 1) (dest[index := data ! index]) @ drop (index + 1) data
               @ drop (length data) (dest[index := data ! index]))"
      using True 1(2) \<open>index < length dest\<close> by (intro 1(1)) (auto simp: run_simps)
    ultimately show ?thesis
      using True by (subst copy_bytes.simps) (simp add: run_simps)
  next
    case False
    with 1(2,3) show ?thesis by (subst copy_bytes.simps) simp
  qed
qed

lemma IpcMessage_empty_ok: "IpcMessage_ok IpcMessage_empty"
  by (simp add: IpcMessage_ok_def IpcMessage_empty_def)

lemma IpcMessage_new_long: "IPC_MESSAGE_SIZE < length data \<Longrightarrow> IpcMessage_new s data = ret None"
  by (simp add: IpcMessage_new_def)

lemma IpcMessage_new_ok:
  assumes "length data \<le> IPC_MESSAGE_SIZE"
  obtains m where "IpcMessage_new s data = ret (Some m)" and "IpcMessage_ok m"
    and "message_view m = (s, data)"
proof -
  have len: "unat (of_nat (length data) :: u16) = length data"
    using assms by (simp add: unat_of_nat take_bit_eq_mod IPC_MESSAGE_SIZE_def)
  let ?m = "IpcMessage_empty\<lparr>sender := s, msg_len := of_nat (length data),
      msg_data := data @ drop (length data) (replicate IPC_MESSAGE_SIZE 0)\<rparr>"
  have "IpcMessage_new s data = ret (Some ?m)"
    using assms by (simp add: IpcMessage_new_def Let_def IpcMessage_empty_def copy_bytes_run)
  moreover have "IpcMessage_ok ?m" using assms len by (simp add: IpcMessage_ok_def)
  moreover have "message_view ?m = (s, data)" using len by (simp add: message_view_def)
  ultimately show thesis by (rule that)
qed

lemma IpcMessage_payload_ok: "IpcMessage_ok m \<Longrightarrow> IpcMessage_payload m = ret (snd (message_view m))"
  by (simp add: IpcMessage_payload_def IpcMessage_ok_def message_view_def)

section \<open>The ring buffer of an endpoint\<close>

definition IPC_QUEUE_CAPACITY :: usize where
  "IPC_QUEUE_CAPACITY = 16"

record IpcQueue =
  messages :: "IpcMessage list"
  head :: usize
  tail :: usize
  queue_count :: usize

definition IpcQueue_new :: IpcQueue where
  "IpcQueue_new = \<lparr>messages = replicate IPC_QUEUE_CAPACITY IpcMessage_empty, head = 0, tail = 0, queue_count = 0\<rparr>"

definition IpcQueue_is_empty :: "IpcQueue \<Rightarrow> bool" where
  "IpcQueue_is_empty q \<longleftrightarrow> queue_count q = 0"

definition IpcQueue_is_full :: "IpcQueue \<Rightarrow> bool" where
  "IpcQueue_is_full q \<longleftrightarrow> queue_count q = IPC_QUEUE_CAPACITY"

definition IpcQueue_len :: "IpcQueue \<Rightarrow> usize" where
  "IpcQueue_len q = queue_count q"

definition IpcQueue_send :: "IpcMessage \<Rightarrow> IpcQueue \<Rightarrow> (bool \<times> IpcQueue) run" where
  "IpcQueue_send message q =
     (if IpcQueue_is_full q then ret (False, q)
      else do {
        ms \<leftarrow> arr_set (messages q) (tail q) message;
        t \<leftarrow> usize_add (tail q) 1;
        c \<leftarrow> usize_add (queue_count q) 1;
        ret (True, q\<lparr>messages := ms, tail := (if t = IPC_QUEUE_CAPACITY then 0 else t), queue_count := c\<rparr>) })"

definition IpcQueue_receive :: "IpcQueue \<Rightarrow> (IpcMessage option \<times> IpcQueue) run" where
  "IpcQueue_receive q =
     (if IpcQueue_is_empty q then ret (None, q)
      else do {
        message \<leftarrow> arr_get (messages q) (head q);
        ms \<leftarrow> arr_set (messages q) (head q) IpcMessage_empty;
        h \<leftarrow> usize_add (head q) 1;
        c \<leftarrow> usize_sub (queue_count q) 1;
        ret (Some message, q\<lparr>messages := ms, head := (if h = IPC_QUEUE_CAPACITY then 0 else h), queue_count := c\<rparr>) })"

section \<open>Bounded first-in-first-out queues\<close>

text \<open>
  What the manager relies on.  \<open>contents\<close> is the list of the messages in the queue, oldest first.
\<close>

locale bounded_fifo =
  fixes inv :: "'q \<Rightarrow> bool"
    and send :: "'m \<Rightarrow> 'q \<Rightarrow> (bool \<times> 'q) run"
    and receive :: "'q \<Rightarrow> ('m option \<times> 'q) run"
    and contents :: "'q \<Rightarrow> 'm list"
    and capacity :: usize
    and ok :: "'m \<Rightarrow> bool"
  assumes bounded: "inv q \<Longrightarrow> length (contents q) \<le> capacity"
    and contents_ok: "inv q \<Longrightarrow> m \<in> set (contents q) \<Longrightarrow> ok m"
    and send_full: "inv q \<Longrightarrow> length (contents q) = capacity \<Longrightarrow> send m q = ret (False, q)"
    and send_room: "inv q \<Longrightarrow> ok m \<Longrightarrow> length (contents q) < capacity \<Longrightarrow>
      \<exists>q'. send m q = ret (True, q') \<and> inv q' \<and> contents q' = contents q @ [m]"
    and receive_empty: "inv q \<Longrightarrow> contents q = [] \<Longrightarrow> receive q = ret (None, q)"
    and receive_some: "inv q \<Longrightarrow> contents q = m # ms \<Longrightarrow>
      \<exists>q'. receive q = ret (Some m, q') \<and> inv q' \<and> contents q' = ms"
begin

text \<open>
  A sequence of sends (\<open>Some m\<close>) and receives (\<open>None\<close>); the result collects the accepted messages
  and the received ones.
\<close>

fun trace :: "'m option list \<Rightarrow> 'q \<Rightarrow> ('m list \<times> 'm list \<times> 'q) run" where
  "trace [] q = ret ([], [], q)"
| "trace (Some m # as) q = do {
     (b, q') \<leftarrow> send m q;
     (acc, rcv, q'') \<leftarrow> trace as q';
     ret ((if b then [m] else []) @ acc, rcv, q'') }"
| "trace (None # as) q = do {
     (r, q') \<leftarrow> receive q;
     (acc, rcv, q'') \<leftarrow> trace as q';
     ret (acc, (case r of None \<Rightarrow> [] | Some m \<Rightarrow> [m]) @ rcv, q'') }"

lemma trace_fifo:
  assumes "inv q" and "\<And>m. Some m \<in> set as \<Longrightarrow> ok m"
  shows "\<exists>acc rcv q'. trace as q = ret (acc, rcv, q') \<and> inv q' \<and> contents q @ acc = rcv @ contents q'"
  using assms
proof (induction as arbitrary: q)
  case Nil
  then show ?case by simp
next
  case (Cons a as)
  have ok': "\<And>m. Some m \<in> set as \<Longrightarrow> ok m" using Cons.prems(2) by simp
  show ?case
  proof (cases a)
    case None
    show ?thesis
    proof (cases "contents q")
      case Nil
      with Cons.IH [OF Cons.prems(1) ok'] Cons.prems(1) None show ?thesis
        by (auto simp: receive_empty)
    next
      case (Cons m ms)
      then obtain q' where "receive q = ret (Some m, q')" "inv q'" "contents q' = ms"
        using receive_some [OF Cons.prems(1)] by blast
      with Cons.IH [OF _ ok', of q'] Cons None show ?thesis by auto
    qed
  next
    case (Some m)
    then have m: "ok m" using Cons.prems(2) by simp
    consider "length (contents q) = capacity" | "length (contents q) < capacity"
      using bounded [OF Cons.prems(1)] by linarith
    then show ?thesis
    proof cases
      case 1
      with Cons.IH [OF Cons.prems(1) ok'] Cons.prems(1) Some show ?thesis by (auto simp: send_full)
    next
      case 2
      then obtain q' where "send m q = ret (True, q')" "inv q'" "contents q' = contents q @ [m]"
        using send_room [OF Cons.prems(1) m] by blast
      with Cons.IH [OF _ ok', of q'] Some show ?thesis by auto
    qed
  qed
qed

end

section \<open>The ring buffer is such a queue\<close>

lemma ring_index_inj:
  assumes "i < n" and "j < n"
  shows "(h + i) mod n = (h + j) mod (n::nat) \<longleftrightarrow> i = j"
proof -
  have "i = j" if eq: "(h + j) mod n = (h + i) mod n" and le: "i \<le> j" "j < n" for i j
  proof (rule ccontr)
    assume "i \<noteq> j"
    with le have "0 < j - i" "j - i < n" by auto
    moreover have "n dvd (h + j) - (h + i)"
      using eq le(1) by (simp only: mod_eq_dvd_iff_nat [of "h + i" "h + j" n] add_le_cancel_left)
    ultimately show False using nat_dvd_not_less [of "j - i" n] by simp
  qed
  from this [of i j] this [of j i] assms show ?thesis by (cases "i \<le> j") auto
qed

definition ring_contents :: "IpcQueue \<Rightarrow> IpcMessage list" where
  "ring_contents q =
     map (\<lambda>i. messages q ! ((head q + i) mod IPC_QUEUE_CAPACITY)) [0..<queue_count q]"

text \<open>The slots outside the window between head and tail hold the empty message.\<close>

definition IpcQueue_inv :: "IpcQueue \<Rightarrow> bool" where
  "IpcQueue_inv q \<longleftrightarrow>
     length (messages q) = IPC_QUEUE_CAPACITY \<and> head q < IPC_QUEUE_CAPACITY
   \<and> queue_count q \<le> IPC_QUEUE_CAPACITY \<and> tail q = (head q + queue_count q) mod IPC_QUEUE_CAPACITY
   \<and> (\<forall>m \<in> set (messages q). IpcMessage_ok m)
   \<and> (\<forall>i. queue_count q \<le> i \<and> i < IPC_QUEUE_CAPACITY \<longrightarrow>
        messages q ! ((head q + i) mod IPC_QUEUE_CAPACITY) = IpcMessage_empty)"

lemma IpcQueue_new_inv: "IpcQueue_inv IpcQueue_new"
  by (auto simp: IpcQueue_inv_def IpcQueue_new_def IPC_QUEUE_CAPACITY_def IpcMessage_empty_ok)

lemma length_ring_contents: "length (ring_contents q) = queue_count q"
  by (simp add: ring_contents_def)

lemma ring_contents_new: "ring_contents IpcQueue_new = []"
  by (simp add: ring_contents_def IpcQueue_new_def)

lemma wrap_succ: "t < IPC_QUEUE_CAPACITY \<Longrightarrow>
    (if t + 1 = IPC_QUEUE_CAPACITY then 0 else t + 1) = (t + 1) mod IPC_QUEUE_CAPACITY"
  by (auto simp: IPC_QUEUE_CAPACITY_def)

lemma capacity_pos: "0 < IPC_QUEUE_CAPACITY"
  by (simp add: IPC_QUEUE_CAPACITY_def)

lemma IpcQueue_send_full:
  "queue_count q = IPC_QUEUE_CAPACITY \<Longrightarrow> IpcQueue_send m q = ret (False, q)"
  by (simp add: IpcQueue_send_def IpcQueue_is_full_def)

lemma IpcQueue_send_room:
  assumes inv: "IpcQueue_inv q" and m: "IpcMessage_ok m" and room: "queue_count q < IPC_QUEUE_CAPACITY"
  shows "\<exists>q'. IpcQueue_send m q = ret (True, q') \<and> IpcQueue_inv q' \<and> ring_contents q' = ring_contents q @ [m]"
proof -
  let ?n = IPC_QUEUE_CAPACITY
  let ?q = "q\<lparr>messages := (messages q)[tail q := m], tail := (tail q + 1) mod ?n, queue_count := queue_count q + 1\<rparr>"
  have len: "length (messages q) = ?n" and tail: "tail q = (head q + queue_count q) mod ?n"
    and ok: "\<forall>m \<in> set (messages q). IpcMessage_ok m" and head: "head q < ?n"
    using inv by (auto simp: IpcQueue_inv_def)
  have t: "tail q < ?n" using tail capacity_pos by simp
  have "IpcQueue_send m q = ret (True, ?q)"
    using t len room wrap_succ [OF t]
    by (simp add: IpcQueue_send_def IpcQueue_is_full_def run_simps usize_add_def IPC_QUEUE_CAPACITY_def)
  moreover have slot: "messages ?q ! ((head q + i) mod ?n)
      = (if i = queue_count q then m else messages q ! ((head q + i) mod ?n))" if "i < ?n" for i
    using that len t room ring_index_inj [OF that room, of "head q"] unfolding tail
    by (auto simp: nth_list_update)
  have "ring_contents ?q = ring_contents q @ [m]"
  proof -
    have "map (\<lambda>i. messages ?q ! ((head q + i) mod ?n)) [0..<queue_count q]
        = map (\<lambda>i. messages q ! ((head q + i) mod ?n)) [0..<queue_count q]"
      using room by (intro map_cong refl) (subst slot; simp)
    moreover have "messages ?q ! ((head q + queue_count q) mod ?n) = m" using slot [OF room] by simp
    ultimately show ?thesis by (simp add: ring_contents_def)
  qed
  moreover have "IpcQueue_inv ?q"
    unfolding IpcQueue_inv_def
  proof (intro conjI ballI allI impI)
    show "tail ?q = (head ?q + queue_count ?q) mod ?n" by (simp add: tail mod_simps)
    show "IpcMessage_ok x" if "x \<in> set (messages ?q)" for x
      using that m ok set_update_subset_insert [of "messages q" "tail q" m] by auto
    show "messages ?q ! ((head ?q + i) mod ?n) = IpcMessage_empty" if "queue_count ?q \<le> i \<and> i < ?n" for i
      using that inv slot [of i] by (simp add: IpcQueue_inv_def)
  qed (use len head room in auto)
  ultimately show ?thesis by blast
qed

lemma IpcQueue_receive_empty: "queue_count q = 0 \<Longrightarrow> IpcQueue_receive q = ret (None, q)"
  by (simp add: IpcQueue_receive_def IpcQueue_is_empty_def)

lemma IpcQueue_receive_some:
  assumes inv: "IpcQueue_inv q" and some: "ring_contents q = m # ms"
  shows "\<exists>q'. IpcQueue_receive q = ret (Some m, q') \<and> IpcQueue_inv q' \<and> ring_contents q' = ms"
proof -
  let ?n = IPC_QUEUE_CAPACITY
  let ?q = "q\<lparr>messages := (messages q)[head q := IpcMessage_empty], head := (head q + 1) mod ?n,
      queue_count := queue_count q - 1\<rparr>"
  have len: "length (messages q) = ?n" and head: "head q < ?n" and le: "queue_count q \<le> ?n"
    and ok: "\<forall>m \<in> set (messages q). IpcMessage_ok m"
    using inv by (auto simp: IpcQueue_inv_def)
  have pos: "0 < queue_count q" using some length_ring_contents [of q] by simp
  have upt: "[0..<queue_count q] = 0 # map Suc [0..<queue_count q - 1]"
    using pos by (metis Suc_pred' map_Suc_upt upt_conv_Cons)
  have m: "messages q ! head q = m"
    and ms: "map (\<lambda>i. messages q ! ((head q + Suc i) mod ?n)) [0..<queue_count q - 1] = ms"
    using some head unfolding ring_contents_def upt by (simp_all add: comp_def)
  have "IpcQueue_receive q = ret (Some m, ?q)"
    using head len pos m wrap_succ [OF head]
    by (simp add: IpcQueue_receive_def IpcQueue_is_empty_def run_simps usize_add_def IPC_QUEUE_CAPACITY_def)
  moreover have slot: "messages ?q ! ((head ?q + i) mod ?n)
      = (if Suc i = ?n then IpcMessage_empty else messages q ! ((head q + Suc i) mod ?n))"
    if "i < ?n" for i
  proof -
    have "(head ?q + i) mod ?n = (head q + Suc i) mod ?n" by (simp add: mod_simps)
    moreover have "(head q + Suc i) mod ?n = head q \<longleftrightarrow> Suc i = ?n"
      using ring_index_inj [of "Suc i" ?n 0 "head q"] that head by (cases "Suc i = ?n") auto
    ultimately show ?thesis using len head by (auto simp: nth_list_update)
  qed
  have "ring_contents ?q = ms"
  proof -
    have "map (\<lambda>i. messages ?q ! ((head ?q + i) mod ?n)) [0..<queue_count q - 1]
        = map (\<lambda>i. messages q ! ((head q + Suc i) mod ?n)) [0..<queue_count q - 1]"
      using le pos by (intro map_cong refl) (subst slot; auto)
    with ms show ?thesis by (simp add: ring_contents_def)
  qed
  moreover have "IpcQueue_inv ?q"
    unfolding IpcQueue_inv_def
  proof (intro conjI ballI allI impI)
    have "tail q = (head q + queue_count q) mod ?n" using inv by (simp add: IpcQueue_inv_def)
    then show "tail ?q = (head ?q + queue_count ?q) mod ?n"
      using pos by (cases "queue_count q") (simp_all add: mod_simps)
    show "IpcMessage_ok x" if "x \<in> set (messages ?q)" for x
      using that IpcMessage_empty_ok ok
        set_update_subset_insert [of "messages q" "head q" IpcMessage_empty] by auto
    show "messages ?q ! ((head ?q + i) mod ?n) = IpcMessage_empty" if "queue_count ?q \<le> i \<and> i < ?n" for i
    proof (cases "Suc i = ?n")
      case False
      with that pos inv have "messages q ! ((head q + Suc i) mod ?n) = IpcMessage_empty"
        by (auto simp: IpcQueue_inv_def simp del: add_Suc_right)
      with False that slot [of i] show ?thesis by simp
    qed (use that slot [of i] in simp)
  qed (use len head le capacity_pos in auto)
  ultimately show ?thesis by blast
qed

interpretation ring: bounded_fifo IpcQueue_inv IpcQueue_send IpcQueue_receive ring_contents
  IPC_QUEUE_CAPACITY IpcMessage_ok
proof
  fix q m ms
  assume inv: "IpcQueue_inv q"
  show "length (ring_contents q) \<le> IPC_QUEUE_CAPACITY"
    using inv by (simp add: length_ring_contents IpcQueue_inv_def)
  show "m \<in> set (ring_contents q) \<Longrightarrow> IpcMessage_ok m"
    using inv capacity_pos by (auto simp: ring_contents_def IpcQueue_inv_def)
  show "length (ring_contents q) = IPC_QUEUE_CAPACITY \<Longrightarrow> IpcQueue_send m q = ret (False, q)"
    by (simp add: length_ring_contents IpcQueue_send_full)
  show "IpcMessage_ok m \<Longrightarrow> length (ring_contents q) < IPC_QUEUE_CAPACITY \<Longrightarrow>
      \<exists>q'. IpcQueue_send m q = ret (True, q') \<and> IpcQueue_inv q' \<and> ring_contents q' = ring_contents q @ [m]"
    using inv by (simp add: length_ring_contents IpcQueue_send_room)
  show "ring_contents q = [] \<Longrightarrow> IpcQueue_receive q = ret (None, q)"
    using IpcQueue_receive_empty [of q] length_ring_contents [of q] by simp
  show "ring_contents q = m # ms \<Longrightarrow>
      \<exists>q'. IpcQueue_receive q = ret (Some m, q') \<and> IpcQueue_inv q' \<and> ring_contents q' = ms"
    using inv by (rule IpcQueue_receive_some)
qed

section \<open>Endpoints\<close>

type_synonym IpcHandle = u64

definition IpcHandle_INVALID :: IpcHandle where
  "IpcHandle_INVALID = 0"

definition IpcHandle_new :: "usize \<Rightarrow> u32 \<Rightarrow> IpcHandle" where
  "IpcHandle_new index gen = pack_handle index gen"

definition IpcHandle_index :: "IpcHandle \<Rightarrow> usize" where
  "IpcHandle_index h = handle_index h"

definition IpcHandle_generation :: "IpcHandle \<Rightarrow> u32" where
  "IpcHandle_generation h = handle_generation h"

definition IpcHandle_is_valid :: "IpcHandle \<Rightarrow> bool" where
  "IpcHandle_is_valid h \<longleftrightarrow> h \<noteq> 0"

definition MAX_IPC_ENDPOINTS :: usize where
  "MAX_IPC_ENDPOINTS = 16"

text \<open>The field \<open>endpoint.queue\<close>, a locked queue, is the queue itself.\<close>

record IpcEndpointSlot =
  ep_occupied :: bool
  ep_generation :: u32
  ep_queue :: IpcQueue

definition IpcEndpointSlot_empty :: IpcEndpointSlot where
  "IpcEndpointSlot_empty = \<lparr>ep_occupied = False, ep_generation = 1, ep_queue = IpcQueue_new\<rparr>"

definition IpcEndpointSlot_clear :: "IpcEndpointSlot \<Rightarrow> IpcEndpointSlot" where
  "IpcEndpointSlot_clear s = s\<lparr>ep_occupied := False, ep_generation := bump_generation (ep_generation s)\<rparr>"

type_synonym IpcManager = "IpcEndpointSlot list"

definition IpcManager_new :: IpcManager where
  "IpcManager_new = replicate MAX_IPC_ENDPOINTS IpcEndpointSlot_empty"

definition IpcManager_create :: "IpcManager \<Rightarrow> IpcHandle option \<times> IpcManager" where
  "IpcManager_create endpoints =
     (case first_index (\<lambda>s. \<not> ep_occupied s) endpoints of
        Some i \<Rightarrow> (Some (IpcHandle_new i (ep_generation (endpoints ! i))),
                   endpoints[i := (endpoints ! i)\<lparr>ep_occupied := True\<rparr>])
      | None \<Rightarrow> (None, endpoints))"

text \<open>The guards every operation on a handle starts with, and the slot they end at.\<close>

definition endpoint_slot :: "IpcManager \<Rightarrow> IpcHandle \<Rightarrow> IpcEndpointSlot option run" where
  "endpoint_slot endpoints h =
     (if \<not> IpcHandle_is_valid h then ret None
      else if MAX_IPC_ENDPOINTS \<le> IpcHandle_index h then ret None
      else do {
        slot \<leftarrow> arr_get endpoints (IpcHandle_index h);
        ret (if \<not> ep_occupied slot \<or> ep_generation slot \<noteq> IpcHandle_generation h then None else Some slot) })"

definition IpcManager_is_valid :: "IpcManager \<Rightarrow> IpcHandle \<Rightarrow> bool run" where
  "IpcManager_is_valid endpoints h =
     (if \<not> IpcHandle_is_valid h then ret False
      else if MAX_IPC_ENDPOINTS \<le> IpcHandle_index h then ret False
      else do {
        slot \<leftarrow> arr_get endpoints (IpcHandle_index h);
        ret (ep_occupied slot \<and> ep_generation slot = IpcHandle_generation h) })"

definition IpcManager_send :: "IpcHandle \<Rightarrow> ObjectHandle \<Rightarrow> u8 list \<Rightarrow> IpcManager \<Rightarrow> (bool \<times> IpcManager) run" where
  "IpcManager_send h snd_h data endpoints = do {
     m \<leftarrow> IpcMessage_new snd_h data;
     (case m of
        None \<Rightarrow> ret (False, endpoints)
      | Some message \<Rightarrow> do {
          s \<leftarrow> endpoint_slot endpoints h;
          (case s of
             None \<Rightarrow> ret (False, endpoints)
           | Some slot \<Rightarrow> do {
               (b, q) \<leftarrow> IpcQueue_send message (ep_queue slot);
               ret (b, endpoints[IpcHandle_index h := slot\<lparr>ep_queue := q\<rparr>]) }) }) }"

definition IpcManager_receive :: "IpcHandle \<Rightarrow> IpcManager \<Rightarrow> (IpcMessage option \<times> IpcManager) run" where
  "IpcManager_receive h endpoints = do {
     s \<leftarrow> endpoint_slot endpoints h;
     (case s of
        None \<Rightarrow> ret (None, endpoints)
      | Some slot \<Rightarrow> do {
          (r, q) \<leftarrow> IpcQueue_receive (ep_queue slot);
          ret (r, endpoints[IpcHandle_index h := slot\<lparr>ep_queue := q\<rparr>]) }) }"

definition IpcManager_queue_len :: "IpcHandle \<Rightarrow> IpcManager \<Rightarrow> usize option run" where
  "IpcManager_queue_len h endpoints = do {
     s \<leftarrow> endpoint_slot endpoints h;
     ret (map_option (\<lambda>slot. IpcQueue_len (ep_queue slot)) s) }"

definition IpcManager_destroy :: "IpcHandle \<Rightarrow> IpcManager \<Rightarrow> (bool \<times> IpcManager) run" where
  "IpcManager_destroy h endpoints = do {
     s \<leftarrow> endpoint_slot endpoints h;
     (case s of
        None \<Rightarrow> ret (False, endpoints)
      | Some slot \<Rightarrow>
          if \<not> IpcQueue_is_empty (ep_queue slot) then ret (False, endpoints)
          else ret (True, endpoints[IpcHandle_index h := IpcEndpointSlot_clear slot])) }"

definition IpcManager_count :: "IpcManager \<Rightarrow> usize" where
  "IpcManager_count endpoints = length (filter ep_occupied endpoints)"

section \<open>Invariant of the manager\<close>

text \<open>A free slot has an empty queue: \<open>destroy\<close> refuses an endpoint that still holds messages.\<close>

definition IpcEndpointSlot_ok :: "IpcEndpointSlot \<Rightarrow> bool" where
  "IpcEndpointSlot_ok s \<longleftrightarrow> ep_generation s \<noteq> 0 \<and> IpcQueue_inv (ep_queue s)
     \<and> (\<not> ep_occupied s \<longrightarrow> ring_contents (ep_queue s) = [])"

definition IpcManager_inv :: "IpcManager \<Rightarrow> bool" where
  "IpcManager_inv ms \<longleftrightarrow> length ms = MAX_IPC_ENDPOINTS \<and> (\<forall>s \<in> set ms. IpcEndpointSlot_ok s)"

lemma IpcManager_inv_new: "IpcManager_inv IpcManager_new"
  by (auto simp: IpcManager_inv_def IpcManager_new_def IpcEndpointSlot_ok_def IpcEndpointSlot_empty_def
      IpcQueue_new_inv ring_contents_new)

lemma IpcManager_inv_nth: "IpcManager_inv ms \<Longrightarrow> i < length ms \<Longrightarrow> IpcEndpointSlot_ok (ms ! i)"
  by (simp add: IpcManager_inv_def)

lemma IpcManager_inv_update: "IpcManager_inv ms \<Longrightarrow> IpcEndpointSlot_ok s \<Longrightarrow> IpcManager_inv (ms[i := s])"
  using set_update_subset_insert [of ms i s] by (auto simp: IpcManager_inv_def)

abbreviation live_endpoint :: "IpcManager \<Rightarrow> IpcHandle \<Rightarrow> bool" where
  "live_endpoint \<equiv> live_handle ep_occupied ep_generation"

lemmas ipc_handle_defs = IpcHandle_is_valid_def IpcHandle_index_def IpcHandle_generation_def
  IpcHandle_new_def

lemma endpoint_slot_eq:
  assumes "IpcManager_inv ms"
  shows "endpoint_slot ms h = ret (if live_endpoint ms h then Some (ms ! handle_index h) else None)"
  using assms by (simp add: endpoint_slot_def live_handle_def ipc_handle_defs arr_get_def IpcManager_inv_def)

lemma IpcManager_is_valid_live:
  "IpcManager_inv ms \<Longrightarrow> IpcManager_is_valid ms h = ret (live_endpoint ms h)"
  by (simp add: IpcManager_is_valid_def live_handle_def ipc_handle_defs arr_get_def IpcManager_inv_def)

lemma live_endpointD:
  assumes "IpcManager_inv ms" and "live_endpoint ms h"
  shows "IpcEndpointSlot_ok (ms ! handle_index h)" and "IpcQueue_inv (ep_queue (ms ! handle_index h))"
    and "ep_occupied (ms ! handle_index h)" and "handle_index h < length ms"
    and "ep_generation (ms ! handle_index h) = handle_generation h"
  using assms IpcManager_inv_nth [OF assms(1)] by (auto simp: live_handle_def IpcEndpointSlot_ok_def)

lemma IpcEndpointSlot_ok_queue:
  "IpcEndpointSlot_ok s \<Longrightarrow> ep_occupied s \<Longrightarrow> IpcQueue_inv q \<Longrightarrow> IpcEndpointSlot_ok (s\<lparr>ep_queue := q\<rparr>)"
  by (simp add: IpcEndpointSlot_ok_def)

lemma IpcQueue_is_empty_iff: "IpcQueue_is_empty q \<longleftrightarrow> ring_contents q = []"
  by (simp add: IpcQueue_is_empty_def flip: length_ring_contents)

section \<open>Abstract endpoints\<close>

text \<open>
  The promise of the manager: a finite map from the live handles to the messages that were sent and
  not yet received, oldest first, each a sender and its bytes.
\<close>

type_synonym endpoints = "IpcHandle \<rightharpoonup> (ObjectHandle \<times> u8 list) list"

definition endpoint_view :: "IpcEndpointSlot \<Rightarrow> (ObjectHandle \<times> u8 list) list" where
  "endpoint_view s = map message_view (ring_contents (ep_queue s))"

abbreviation endpoints_of :: "IpcManager \<Rightarrow> endpoints" where
  "endpoints_of \<equiv> slot_view ep_occupied ep_generation endpoint_view"

datatype IpcOp = IpcCreate | IpcSend IpcHandle ObjectHandle "u8 list" | IpcReceive IpcHandle | IpcDestroy IpcHandle

datatype IpcAnswer = Opened "IpcHandle option" | Sent bool | Received "(ObjectHandle \<times> u8 list) option"
  | Closed bool

text \<open>One call of the manager; a receiver reads the sender and the payload of the message it gets.\<close>

fun IpcManager_step :: "IpcOp \<Rightarrow> IpcManager \<Rightarrow> (IpcAnswer \<times> IpcManager) run" where
  "IpcManager_step IpcCreate ms = ret (map_prod Opened id (IpcManager_create ms))"
| "IpcManager_step (IpcSend h s data) ms =
     do { (b, ms') \<leftarrow> IpcManager_send h s data ms; ret (Sent b, ms') }"
| "IpcManager_step (IpcReceive h) ms = do {
     (r, ms') \<leftarrow> IpcManager_receive h ms;
     (case r of
        None \<Rightarrow> ret (Received None, ms')
      | Some m \<Rightarrow> do { bytes \<leftarrow> IpcMessage_payload m; ret (Received (Some (sender m, bytes)), ms') }) }"
| "IpcManager_step (IpcDestroy h) ms = do { (b, ms') \<leftarrow> IpcManager_destroy h ms; ret (Closed b, ms') }"

inductive ipc_spec :: "IpcOp \<Rightarrow> endpoints \<Rightarrow> IpcAnswer \<Rightarrow> endpoints \<Rightarrow> bool" where
  create_ok: "h \<notin> dom m \<Longrightarrow> h \<noteq> IpcHandle_INVALID \<Longrightarrow> card (dom m) < MAX_IPC_ENDPOINTS \<Longrightarrow>
     ipc_spec IpcCreate m (Opened (Some h)) (m(h \<mapsto> []))"
| create_full: "card (dom m) = MAX_IPC_ENDPOINTS \<Longrightarrow> ipc_spec IpcCreate m (Opened None) m"
| send_ok: "m h = Some q \<Longrightarrow> length q < IPC_QUEUE_CAPACITY \<Longrightarrow> length data \<le> IPC_MESSAGE_SIZE \<Longrightarrow>
     ipc_spec (IpcSend h s data) m (Sent True) (m(h \<mapsto> q @ [(s, data)]))"
| send_full: "m h = Some q \<Longrightarrow> length q = IPC_QUEUE_CAPACITY \<Longrightarrow>
     ipc_spec (IpcSend h s data) m (Sent False) m"
| send_long: "IPC_MESSAGE_SIZE < length data \<Longrightarrow> ipc_spec (IpcSend h s data) m (Sent False) m"
| send_dead: "m h = None \<Longrightarrow> ipc_spec (IpcSend h s data) m (Sent False) m"
| receive_ok: "m h = Some (x # q) \<Longrightarrow> ipc_spec (IpcReceive h) m (Received (Some x)) (m(h \<mapsto> q))"
| receive_empty: "m h = Some [] \<Longrightarrow> ipc_spec (IpcReceive h) m (Received None) m"
| receive_dead: "m h = None \<Longrightarrow> ipc_spec (IpcReceive h) m (Received None) m"
| destroy_ok: "m h = Some [] \<Longrightarrow> ipc_spec (IpcDestroy h) m (Closed True) (m(h := None))"
| destroy_busy: "m h = Some (x # q) \<Longrightarrow> ipc_spec (IpcDestroy h) m (Closed False) m"
| destroy_dead: "m h = None \<Longrightarrow> ipc_spec (IpcDestroy h) m (Closed False) m"

text \<open>The simulation: a call returns, keeps the invariant and does what the specification says.\<close>

definition ipc_simulates :: "IpcOp \<Rightarrow> IpcManager \<Rightarrow> bool" where
  "ipc_simulates a ms \<longleftrightarrow> (\<exists>x ms'. IpcManager_step a ms = ret (x, ms') \<and> IpcManager_inv ms'
     \<and> ipc_spec a (endpoints_of ms) x (endpoints_of ms'))"

lemma ipc_simulatesI:
  "IpcManager_step a ms = ret (x, ms') \<Longrightarrow> IpcManager_inv ms' \<Longrightarrow>
     ipc_spec a (endpoints_of ms) x (endpoints_of ms') \<Longrightarrow> ipc_simulates a ms"
  by (auto simp: ipc_simulates_def)

lemma card_endpoints_of:
  assumes "IpcManager_inv ms"
  shows "card (dom (endpoints_of ms)) = IpcManager_count ms"
  using assms unfolding IpcManager_count_def
  by (intro card_slot_view) (auto simp: IpcManager_inv_def MAX_IPC_ENDPOINTS_def IpcEndpointSlot_ok_def)

lemma ipc_create_simulates:
  assumes inv: "IpcManager_inv ms"
  shows "ipc_simulates IpcCreate ms"
proof (cases "first_index (\<lambda>s. \<not> ep_occupied s) ms")
  case None
  then have "filter ep_occupied ms = ms" by (simp add: first_index_None filter_id_conv)
  then have "card (dom (endpoints_of ms)) = MAX_IPC_ENDPOINTS"
    using inv by (simp add: card_endpoints_of IpcManager_count_def IpcManager_inv_def)
  then show ?thesis using None inv
    by (intro ipc_simulatesI [of _ _ "Opened None" ms]) (simp_all add: IpcManager_create_def ipc_spec.create_full)
next
  case (Some i)
  let ?s = "(ms ! i)\<lparr>ep_occupied := True\<rparr>"
  let ?h = "pack_handle i (ep_generation ?s)"
  have i: "i < length ms" "\<not> ep_occupied (ms ! i)" using first_index_SomeD [OF Some] by auto
  then have i32: "i < 2 ^ 32" using inv by (simp add: IpcManager_inv_def MAX_IPC_ENDPOINTS_def)
  have ok: "IpcEndpointSlot_ok (ms ! i)" using inv i(1) by (rule IpcManager_inv_nth)
  have view: "endpoints_of (ms[i := ?s]) = (endpoints_of ms)(?h \<mapsto> endpoint_view ?s)"
    and fresh: "?h \<notin> dom (endpoints_of ms)"
    using i i32 ok by (intro slot_view_fill; simp add: IpcEndpointSlot_ok_def)+
  have "endpoint_view ?s = []" using ok i(2) by (simp add: endpoint_view_def IpcEndpointSlot_ok_def)
  moreover have "card (dom (endpoints_of ms)) < MAX_IPC_ENDPOINTS"
    using inv i length_filter_less [of "ms ! i" ms ep_occupied]
    by (simp add: card_endpoints_of IpcManager_count_def IpcManager_inv_def)
  moreover have "?h \<noteq> IpcHandle_INVALID"
    using i32 ok by (simp add: pack_handle_nonzero IpcEndpointSlot_ok_def IpcHandle_INVALID_def)
  moreover have "IpcManager_inv (ms[i := ?s])"
    using inv ok by (intro IpcManager_inv_update) (auto simp: IpcEndpointSlot_ok_def)
  ultimately show ?thesis
    using Some view ipc_spec.create_ok [OF fresh]
    by (intro ipc_simulatesI [of _ _ "Opened (Some ?h)" "ms[i := ?s]"])
      (simp_all add: IpcManager_create_def IpcHandle_new_def)
qed

lemma ipc_send_simulates:
  assumes inv: "IpcManager_inv ms"
  shows "ipc_simulates (IpcSend h s data) ms"
proof (cases "length data \<le> IPC_MESSAGE_SIZE")
  case False
  then show ?thesis using inv
    by (intro ipc_simulatesI [of _ _ "Sent False" ms])
      (simp_all add: IpcManager_send_def IpcMessage_new_long ipc_spec.send_long)
next
  case short: True
  then obtain m where m: "IpcMessage_new s data = ret (Some m)" "IpcMessage_ok m" "message_view m = (s, data)"
    by (rule IpcMessage_new_ok)
  show ?thesis
  proof (cases "live_endpoint ms h")
    case False
    then show ?thesis using inv m(1)
      by (intro ipc_simulatesI [of _ _ "Sent False" ms])
        (simp_all add: IpcManager_send_def endpoint_slot_eq ipc_spec.send_dead slot_view_None)
  next
    case live: True
    let ?s = "ms ! handle_index h" let ?q = "ep_queue ?s"
    note slot = live_endpointD [OF inv live]
    have view: "endpoints_of ms h = Some (map message_view (ring_contents ?q))"
      using live by (simp add: slot_view_Some endpoint_view_def)
    show ?thesis
    proof (cases "length (ring_contents ?q) = IPC_QUEUE_CAPACITY")
      case True
      then have "IpcQueue_send m ?q = ret (False, ?q)" using ring.send_full slot(2) by blast
      then show ?thesis using inv m(1) live view True
        by (intro ipc_simulatesI [of _ _ "Sent False" ms])
          (simp_all add: IpcManager_send_def endpoint_slot_eq IpcHandle_index_def ipc_spec.send_full)
    next
      case False
      then have room: "length (ring_contents ?q) < IPC_QUEUE_CAPACITY"
        using ring.bounded [OF slot(2)] by simp
      then obtain q where q: "IpcQueue_send m ?q = ret (True, q)" "IpcQueue_inv q"
          "ring_contents q = ring_contents ?q @ [m]"
        using ring.send_room [OF slot(2) m(2)] by blast
      have "endpoints_of (ms[handle_index h := ?s\<lparr>ep_queue := q\<rparr>])
          = (endpoints_of ms)(h \<mapsto> map message_view (ring_contents ?q) @ [(s, data)])"
        using live slot(3,5) q(3) m(3) by (simp add: slot_view_rewrite endpoint_view_def)
      moreover have "IpcManager_inv (ms[handle_index h := ?s\<lparr>ep_queue := q\<rparr>])"
        using inv slot q(2) by (intro IpcManager_inv_update IpcEndpointSlot_ok_queue)
      ultimately show ?thesis using inv m(1) live view room short q(1)
        by (intro ipc_simulatesI [of _ _ "Sent True" "ms[handle_index h := ?s\<lparr>ep_queue := q\<rparr>]"])
          (simp_all add: IpcManager_send_def endpoint_slot_eq IpcHandle_index_def ipc_spec.send_ok)
    qed
  qed
qed

lemma ipc_receive_simulates:
  assumes inv: "IpcManager_inv ms"
  shows "ipc_simulates (IpcReceive h) ms"
proof (cases "live_endpoint ms h")
  case False
  then show ?thesis using inv
    by (intro ipc_simulatesI [of _ _ "Received None" ms])
      (simp_all add: IpcManager_receive_def endpoint_slot_eq ipc_spec.receive_dead slot_view_None)
next
  case live: True
  let ?s = "ms ! handle_index h" let ?q = "ep_queue ?s"
  note slot = live_endpointD [OF inv live]
  have view: "endpoints_of ms h = Some (map message_view (ring_contents ?q))"
    using live by (simp add: slot_view_Some endpoint_view_def)
  show ?thesis
  proof (cases "ring_contents ?q")
    case Nil
    then have "IpcQueue_receive ?q = ret (None, ?q)" using ring.receive_empty slot(2) by blast
    then show ?thesis using inv live view Nil
      by (intro ipc_simulatesI [of _ _ "Received None" ms])
        (simp_all add: IpcManager_receive_def endpoint_slot_eq IpcHandle_index_def ipc_spec.receive_empty)
  next
    case (Cons m rest)
    then obtain q where q: "IpcQueue_receive ?q = ret (Some m, q)" "IpcQueue_inv q" "ring_contents q = rest"
      using ring.receive_some [OF slot(2)] by blast
    have "IpcMessage_ok m" using ring.contents_ok [OF slot(2)] Cons by simp
    then have pay: "IpcMessage_payload m = ret (snd (message_view m))" by (rule IpcMessage_payload_ok)
    have mv: "(sender m, snd (message_view m)) = message_view m" by (simp add: message_view_def)
    have "endpoints_of (ms[handle_index h := ?s\<lparr>ep_queue := q\<rparr>])
        = (endpoints_of ms)(h \<mapsto> map message_view rest)"
      using live slot(3,5) q(3) by (simp add: slot_view_rewrite endpoint_view_def)
    moreover have "IpcManager_inv (ms[handle_index h := ?s\<lparr>ep_queue := q\<rparr>])"
      using inv slot q(2) by (intro IpcManager_inv_update IpcEndpointSlot_ok_queue)
    ultimately show ?thesis using inv live view Cons q(1) pay mv
      by (intro ipc_simulatesI [of _ _ "Received (Some (message_view m))"
            "ms[handle_index h := ?s\<lparr>ep_queue := q\<rparr>]"])
        (simp_all add: IpcManager_receive_def endpoint_slot_eq IpcHandle_index_def ipc_spec.receive_ok)
  qed
qed

lemma ipc_destroy_simulates:
  assumes inv: "IpcManager_inv ms"
  shows "ipc_simulates (IpcDestroy h) ms"
proof (cases "live_endpoint ms h")
  case False
  then show ?thesis using inv
    by (intro ipc_simulatesI [of _ _ "Closed False" ms])
      (simp_all add: IpcManager_destroy_def endpoint_slot_eq ipc_spec.destroy_dead slot_view_None)
next
  case live: True
  let ?s = "ms ! handle_index h" let ?q = "ep_queue ?s"
  note slot = live_endpointD [OF inv live]
  have view: "endpoints_of ms h = Some (map message_view (ring_contents ?q))"
    using live by (simp add: slot_view_Some endpoint_view_def)
  show ?thesis
  proof (cases "ring_contents ?q")
    case Nil
    then have empty: "IpcQueue_is_empty ?q" by (simp add: IpcQueue_is_empty_iff)
    have "IpcEndpointSlot_ok (IpcEndpointSlot_clear ?s)"
      using slot(1) Nil by (simp add: IpcEndpointSlot_ok_def IpcEndpointSlot_clear_def)
    moreover have "\<not> ep_occupied (IpcEndpointSlot_clear ?s)" by (simp add: IpcEndpointSlot_clear_def)
    ultimately show ?thesis using inv live view Nil empty
      by (intro ipc_simulatesI [of _ _ "Closed True" "ms[handle_index h := IpcEndpointSlot_clear ?s]"])
        (simp_all add: IpcManager_destroy_def endpoint_slot_eq IpcHandle_index_def ipc_spec.destroy_ok
          IpcManager_inv_update slot_view_clear)
  next
    case (Cons m rest)
    then have "\<not> IpcQueue_is_empty ?q" by (simp add: IpcQueue_is_empty_iff)
    then show ?thesis using inv live view Cons
      by (intro ipc_simulatesI [of _ _ "Closed False" ms])
        (simp_all add: IpcManager_destroy_def endpoint_slot_eq ipc_spec.destroy_busy)
  qed
qed

lemma IpcManager_step_simulates: "IpcManager_inv ms \<Longrightarrow> ipc_simulates a ms"
  by (cases a) (simp_all add: ipc_create_simulates ipc_send_simulates ipc_receive_simulates
      ipc_destroy_simulates)

section \<open>Stale handles\<close>

text \<open>Only \<open>clear\<close> touches the generation of a slot.\<close>

lemma ep_generation_update:
  "ep_generation s = ep_generation (ms ! j) \<Longrightarrow> ep_generation (ms[j := s] ! i) = ep_generation (ms ! i)"
  by (metis nth_list_update_eq nth_list_update_neq list_update_beyond linorder_not_less)

lemma ep_generation_clear:
  "ep_generation (ms[j := IpcEndpointSlot_clear (ms ! j)] ! i) = ep_generation (ms ! i)
   \<or> ep_generation (ms[j := IpcEndpointSlot_clear (ms ! j)] ! i) = bump_generation (ep_generation (ms ! i))"
  by (cases "i = j"; cases "j < length ms") (simp_all add: IpcEndpointSlot_clear_def list_update_beyond)

lemma IpcManager_step_generation:
  assumes inv: "IpcManager_inv ms" and step: "IpcManager_step a ms = ret (x, ms')"
  shows "ep_generation (ms' ! i) = ep_generation (ms ! i)
       \<or> ep_generation (ms' ! i) = bump_generation (ep_generation (ms ! i))"
proof (cases a)
  case IpcCreate
  with step show ?thesis by (auto simp: IpcManager_create_def ep_generation_update split: option.splits)
next
  case (IpcSend h snd_h data)
  with step inv show ?thesis
    by (auto simp: IpcManager_send_def endpoint_slot_eq IpcHandle_index_def ep_generation_update
        split: option.splits if_splits Option.bind_splits)
next
  case (IpcReceive h)
  with step inv show ?thesis
    by (auto simp: IpcManager_receive_def endpoint_slot_eq IpcHandle_index_def ep_generation_update
        split: option.splits if_splits Option.bind_splits)
next
  case (IpcDestroy h)
  with step inv show ?thesis
    using ep_generation_clear
    by (auto simp: IpcManager_destroy_def endpoint_slot_eq IpcHandle_index_def split: if_splits)
qed

lemma IpcManager_step_run:
  assumes "IpcManager_inv ms"
  obtains x ms' where "IpcManager_step a ms = ret (x, ms')" and "IpcManager_inv ms'"
    and "ipc_spec a (endpoints_of ms) x (endpoints_of ms')"
  using IpcManager_step_simulates [OF assms, of a] unfolding ipc_simulates_def by blast

interpretation endpoints: recycled_slots IpcManager_inv "\<lambda>a ms. snd (the (IpcManager_step a ms))"
  "\<lambda>ms h. the (IpcManager_is_valid ms h)" "\<lambda>ms i. ep_generation (ms ! i)" MAX_IPC_ENDPOINTS
proof
  fix ms :: IpcManager and a :: IpcOp and i h
  assume inv: "IpcManager_inv ms"
  obtain x ms' where step: "IpcManager_step a ms = ret (x, ms')" "IpcManager_inv ms'"
    using inv by (rule IpcManager_step_run)
  show "IpcManager_inv (snd (the (IpcManager_step a ms)))" using step by simp
  show "the (IpcManager_is_valid ms h) \<Longrightarrow> handle_index h < MAX_IPC_ENDPOINTS"
    and "the (IpcManager_is_valid ms h) \<Longrightarrow> ep_generation (ms ! handle_index h) = handle_generation h"
    using inv by (simp_all add: IpcManager_is_valid_live live_handle_def IpcManager_inv_def)
  show "ep_generation (snd (the (IpcManager_step a ms)) ! i) = ep_generation (ms ! i)
      \<or> ep_generation (snd (the (IpcManager_step a ms)) ! i) = bump_generation (ep_generation (ms ! i))"
    using IpcManager_step_generation [OF inv step(1), of i] step(1) by simp
  assume "i < MAX_IPC_ENDPOINTS"
  then show "ep_generation (ms ! i) \<noteq> 0"
    using IpcManager_inv_nth [OF inv, of i] inv by (simp add: IpcEndpointSlot_ok_def IpcManager_inv_def)
qed

section \<open>Sequences of calls\<close>

fun IpcManager_run :: "IpcOp list \<Rightarrow> IpcManager \<Rightarrow> (IpcAnswer list \<times> IpcManager) run" where
  "IpcManager_run [] ms = ret ([], ms)"
| "IpcManager_run (a # as) ms = do {
     (x, ms') \<leftarrow> IpcManager_step a ms;
     (xs, ms'') \<leftarrow> IpcManager_run as ms';
     ret (x # xs, ms'') }"

text \<open>How often a sequence of calls recycles slot \<open>i\<close>.\<close>

fun IpcManager_recycles :: "usize \<Rightarrow> IpcOp list \<Rightarrow> IpcManager \<Rightarrow> nat" where
  "IpcManager_recycles i [] ms = 0"
| "IpcManager_recycles i (a # as) ms =
     (case IpcManager_step a ms of
        None \<Rightarrow> 0
      | Some (x, ms') \<Rightarrow> (if ep_generation (ms' ! i) = ep_generation (ms ! i) then 0 else 1)
                         + IpcManager_recycles i as ms')"

lemma IpcManager_run_total:
  "IpcManager_inv ms \<Longrightarrow> \<exists>xs ms'. IpcManager_run as ms = ret (xs, ms') \<and> IpcManager_inv ms'
     \<and> ms' = endpoints.run as ms \<and> IpcManager_recycles i as ms = endpoints.bumps i as ms"
proof (induction as arbitrary: ms)
  case Nil
  then show ?case by simp
next
  case (Cons a as)
  obtain x ms' where step: "IpcManager_step a ms = ret (x, ms')" "IpcManager_inv ms'"
    using Cons.prems by (rule IpcManager_step_run)
  with Cons.IH [OF step(2)] show ?case by auto
qed

text \<open>The messages that a sequence of calls and its answers puts into endpoint \<open>h\<close> and takes out.\<close>

fun accepted :: "IpcHandle \<Rightarrow> IpcOp list \<Rightarrow> IpcAnswer list \<Rightarrow> (ObjectHandle \<times> u8 list) list" where
  "accepted h (IpcSend k s data # as) (Sent True # xs) = (if k = h then [(s, data)] else []) @ accepted h as xs"
| "accepted h (a # as) (x # xs) = accepted h as xs"
| "accepted h _ _ = []"

fun delivered :: "IpcHandle \<Rightarrow> IpcOp list \<Rightarrow> IpcAnswer list \<Rightarrow> (ObjectHandle \<times> u8 list) list" where
  "delivered h (IpcReceive k # as) (Received (Some m) # xs) = (if k = h then [m] else []) @ delivered h as xs"
| "delivered h (a # as) (x # xs) = delivered h as xs"
| "delivered h _ _ = []"

text \<open>The calls that close \<open>h\<close>.\<close>

fun closed :: "IpcHandle \<Rightarrow> IpcOp list \<Rightarrow> IpcAnswer list \<Rightarrow> bool" where
  "closed h (IpcDestroy k # as) (Closed True # xs) = (k = h \<or> closed h as xs)"
| "closed h (a # as) (x # xs) = closed h as xs"
| "closed h _ _ = False"

lemma ipc_spec_conserves:
  assumes "ipc_spec a m x m'" and "m h = Some q" and "\<not> closed h [a] [x]"
  shows "\<exists>q'. m' h = Some q' \<and> q @ accepted h [a] [x] = delivered h [a] [x] @ q'"
  using assms by (cases rule: ipc_spec.cases) auto

lemma calls_Cons:
  "accepted h (a # as) (x # xs) = accepted h [a] [x] @ accepted h as xs"
  "delivered h (a # as) (x # xs) = delivered h [a] [x] @ delivered h as xs"
  "closed h (a # as) (x # xs) \<longleftrightarrow> closed h [a] [x] \<or> closed h as xs"
proof -
  show "accepted h (a # as) (x # xs) = accepted h [a] [x] @ accepted h as xs"
    by (cases "(h, [a], [x])" rule: accepted.cases) auto
  show "delivered h (a # as) (x # xs) = delivered h [a] [x] @ delivered h as xs"
    by (cases "(h, [a], [x])" rule: delivered.cases) auto
  show "closed h (a # as) (x # xs) \<longleftrightarrow> closed h [a] [x] \<or> closed h as xs"
    by (cases "(h, [a], [x])" rule: closed.cases) auto
qed

lemma IpcManager_run_conserves:
  assumes "IpcManager_inv ms" and "IpcManager_run as ms = ret (xs, ms')"
    and "endpoints_of ms h = Some q" and "\<not> closed h as xs"
  shows "\<exists>q'. endpoints_of ms' h = Some q' \<and> q @ accepted h as xs = delivered h as xs @ q'"
  using assms
proof (induction as arbitrary: ms xs q)
  case Nil
  then show ?case by simp
next
  case (Cons a as)
  obtain x ms1 where step: "IpcManager_step a ms = ret (x, ms1)" "IpcManager_inv ms1"
    "ipc_spec a (endpoints_of ms) x (endpoints_of ms1)"
    using Cons.prems(1) by (rule IpcManager_step_run)
  then obtain ys where ys: "IpcManager_run as ms1 = ret (ys, ms')" "xs = x # ys"
    using Cons.prems(2) by (auto split: Option.bind_splits)
  have open_x: "\<not> closed h [a] [x]" and open_ys: "\<not> closed h as ys"
    using Cons.prems(4) ys(2) calls_Cons(3) [of h a as x ys] by auto
  obtain q1 where q1: "endpoints_of ms1 h = Some q1" "q @ accepted h [a] [x] = delivered h [a] [x] @ q1"
    using ipc_spec_conserves [OF step(3) Cons.prems(3) open_x] by blast
  then show ?case
    using Cons.IH [OF step(2) ys(1) q1(1) open_ys] ys(2) calls_Cons(1,2) [of h a as x ys]
    by (metis append_assoc)
qed

section \<open>Properties\<close>

lemma reachable_manager_inv: "IpcManager_run as IpcManager_new = ret (xs, ms) \<Longrightarrow> IpcManager_inv ms"
  using IpcManager_run_total [OF IpcManager_inv_new, of as] by auto

lemma endpoints_of_new: "endpoints_of IpcManager_new = Map.empty"
  by (rule ext) (auto simp: slot_view_None live_handle_def IpcManager_new_def IpcEndpointSlot_empty_def)

text \<open>
  C11.  The IPC manager never panics and implements the abstract endpoints: a fresh manager has none,
  any sequence of calls returns, and the next call answers and changes the endpoints as the
  specification says.  A message is delivered once, with its sender and all of its bytes; a full
  queue, an oversized message and a dead handle are refused without effect, and an endpoint that
  still holds messages cannot be closed.
\<close>

theorem ipc_manager_refines:
  "endpoints_of IpcManager_new = Map.empty
   \<and> (\<exists>xs ms x ms'. IpcManager_run as IpcManager_new = ret (xs, ms)
        \<and> IpcManager_step a ms = ret (x, ms')
        \<and> ipc_spec a (endpoints_of ms) x (endpoints_of ms'))"
proof -
  obtain xs ms where "IpcManager_run as IpcManager_new = ret (xs, ms)" "IpcManager_inv ms"
    using IpcManager_run_total [OF IpcManager_inv_new, of as] by blast
  then show ?thesis using IpcManager_step_run [of ms a] endpoints_of_new by metis
qed

text \<open>
  C12.  No message is lost, duplicated or reordered: as long as an endpoint is not closed, the messages
  it held before a sequence of calls followed by those it accepted are exactly the messages it
  delivered followed by those it still holds, whatever the calls do to other endpoints.
\<close>

theorem ipc_messages_conserved:
  assumes "IpcManager_run as IpcManager_new = ret (xs, ms)" and "endpoints_of ms h = Some q"
    and "IpcManager_run bs ms = ret (ys, ms')" and "\<not> closed h bs ys"
  shows "\<exists>q'. endpoints_of ms' h = Some q' \<and> q @ accepted h bs ys = delivered h bs ys @ q'"
  using reachable_manager_inv [OF assms(1)] assms(3,2,4) by (rule IpcManager_run_conserves)

text \<open>
  The observers of the manager read the abstract endpoints and return on every handle:
  \<open>is_valid\<close> tells the live handles, \<open>queue_len\<close> the number of waiting messages, \<open>count\<close> the number
  of endpoints, of which there are at most 16.
\<close>

theorem ipc_manager_observers:
  assumes "IpcManager_run as IpcManager_new = ret (xs, ms)"
  shows "IpcManager_is_valid ms h = ret (h \<in> dom (endpoints_of ms))
       \<and> IpcManager_queue_len h ms = ret (map_option length (endpoints_of ms h))
       \<and> IpcManager_count ms = card (dom (endpoints_of ms)) \<and> IpcManager_count ms \<le> MAX_IPC_ENDPOINTS"
proof -
  have inv: "IpcManager_inv ms" using assms by (rule reachable_manager_inv)
  have "IpcManager_queue_len h ms = ret (map_option length (endpoints_of ms h))"
    using inv by (cases "live_endpoint ms h")
      (simp_all add: IpcManager_queue_len_def endpoint_slot_eq slot_view_Some slot_view_None [THEN iffD2]
        endpoint_view_def length_ring_contents IpcQueue_len_def)
  moreover have "IpcManager_count ms \<le> MAX_IPC_ENDPOINTS"
    using inv length_filter_le [of ep_occupied ms] by (simp add: IpcManager_count_def IpcManager_inv_def)
  ultimately show ?thesis
    using inv by (simp add: IpcManager_is_valid_live dom_slot_view card_endpoints_of)
qed

text \<open>
  The handle of a closed endpoint stays dead while later calls recycle its slot fewer than
  \<open>2 ^ 32 - 2\<close> times: no message sent to a reused slot can be read through it.
\<close>

theorem stale_ipc_handle:
  assumes "IpcManager_run as IpcManager_new = ret (xs, ms)" and "IpcManager_destroy h ms = ret (True, ms1)"
    and "IpcManager_recycles (IpcHandle_index h) bs ms1 < 2 ^ 32 - 2"
    and "IpcManager_run bs ms1 = ret (ys, ms2)"
  shows "IpcManager_is_valid ms2 h = ret False"
proof -
  let ?i = "handle_index h"
  have inv: "IpcManager_inv ms" using assms(1) by (rule reachable_manager_inv)
  have live: "live_endpoint ms h" and ms1: "ms1 = ms[?i := IpcEndpointSlot_clear (ms ! ?i)]"
    using assms(2) inv
    by (auto simp: IpcManager_destroy_def endpoint_slot_eq IpcHandle_index_def split: if_splits)
  note slot = live_endpointD [OF inv live]
  have inv1: "IpcManager_inv ms1"
    using inv IpcManager_step_run [of ms "IpcDestroy h"] assms(2) by auto
  have gen: "ep_generation (ms1 ! ?i) = bump_generation (handle_generation h)"
    using ms1 slot by (simp add: IpcEndpointSlot_clear_def)
  have run: "ms2 = endpoints.run bs ms1" "IpcManager_inv ms2"
    and bumps: "endpoints.bumps ?i bs ms1 < generation_period - 1"
    using IpcManager_run_total [OF inv1, of bs ?i] assms(3,4)
    by (auto simp: IpcHandle_index_def generation_period_def)
  have "handle_generation h \<noteq> 0" "?i < MAX_IPC_ENDPOINTS"
    using slot inv by (auto simp: IpcEndpointSlot_ok_def IpcManager_inv_def)
  then have "\<not> the (IpcManager_is_valid ms2 h)"
    using endpoints.stale_run [OF inv1 _ _ gen bumps] by (simp add: run(1))
  then show ?thesis using run(2) by (simp add: IpcManager_is_valid_live)
qed

text \<open>
  No message bytes survive their delivery: in a reachable manager every queue slot outside the
  waiting messages, and so all sixteen slots of a free endpoint, holds the empty message.
\<close>

theorem ipc_free_endpoint_scrubbed:
  assumes "IpcManager_run as IpcManager_new = ret (xs, ms)" and "s \<in> set ms" and "\<not> ep_occupied s"
  shows "messages (ep_queue s) = replicate IPC_QUEUE_CAPACITY IpcMessage_empty"
proof -
  let ?q = "ep_queue s" and ?n = IPC_QUEUE_CAPACITY
  have inv: "IpcQueue_inv ?q" and "ring_contents ?q = []"
    using reachable_manager_inv [OF assms(1)] assms(2,3)
    by (auto simp: IpcManager_inv_def IpcEndpointSlot_ok_def)
  then have "queue_count ?q = 0" using length_ring_contents [of ?q] by simp
  then have scrubbed: "messages ?q ! ((head ?q + i) mod ?n) = IpcMessage_empty" if "i < ?n" for i
    using that inv by (simp add: IpcQueue_inv_def)
  have "messages ?q ! j = IpcMessage_empty" if "j < ?n" for j
  proof -
    have "head ?q < ?n" using inv by (simp add: IpcQueue_inv_def)
    then have "(head ?q + (?n - head ?q + j) mod ?n) mod ?n = j"
      using that by (simp add: mod_simps)
    then show ?thesis using scrubbed [of "(?n - head ?q + j) mod ?n"] capacity_pos by simp
  qed
  then show ?thesis
    using inv by (intro nth_equalityI) (auto simp: IpcQueue_inv_def)
qed

text \<open>The hypotheses of the last four theorems hold for the first endpoint of a fresh manager.\<close>

lemma ipc_fresh_create:
  "IpcManager_run [IpcCreate] IpcManager_new
     = ret ([Opened (Some 0x100000000)], IpcManager_new[0 := IpcEndpointSlot_empty\<lparr>ep_occupied := True\<rparr>])"
proof -
  have "first_index (\<lambda>s. \<not> ep_occupied s) IpcManager_new = Some 0"
    by (simp add: first_index_Some IpcManager_new_def MAX_IPC_ENDPOINTS_def IpcEndpointSlot_empty_def)
  moreover have "pack_handle 0 1 = 0x100000000" by (simp add: pack_handle_def)
  ultimately show ?thesis
    by (simp add: IpcManager_create_def IpcHandle_new_def IpcManager_new_def MAX_IPC_ENDPOINTS_def
        IpcEndpointSlot_empty_def)
qed

abbreviation one_endpoint :: IpcManager where
  "one_endpoint \<equiv> IpcManager_new[0 := IpcEndpointSlot_empty\<lparr>ep_occupied := True\<rparr>]"

lemma one_endpoint_live: "live_endpoint one_endpoint 0x100000000"
  by (simp add: live_handle_def IpcManager_new_def MAX_IPC_ENDPOINTS_def IpcEndpointSlot_empty_def
      handle_index_def handle_generation_def)

lemma one_endpoint_inv: "IpcManager_inv one_endpoint"
  using ipc_fresh_create by (rule reachable_manager_inv)

lemma one_endpoint_slot:
  "one_endpoint ! handle_index 0x100000000 = IpcEndpointSlot_empty\<lparr>ep_occupied := True\<rparr>"
  by (simp add: IpcManager_new_def MAX_IPC_ENDPOINTS_def handle_index_def)

theorem ipc_messages_conserved_witness:
  "\<exists>ys ms q. IpcManager_run [IpcSend 0x100000000 5 [1, 2], IpcReceive 0x100000000] one_endpoint = ret (ys, ms)
     \<and> endpoints_of ms 0x100000000 = Some q
     \<and> accepted 0x100000000 [IpcSend 0x100000000 5 [1, 2], IpcReceive 0x100000000] ys
       = delivered 0x100000000 [IpcSend 0x100000000 5 [1, 2], IpcReceive 0x100000000] ys @ q"
proof -
  let ?bs = "[IpcSend 0x100000000 5 [1, 2], IpcReceive 0x100000000]"
  obtain ys ms where run: "IpcManager_run ?bs one_endpoint = ret (ys, ms)"
    using IpcManager_run_total [OF one_endpoint_inv, of ?bs] by blast
  have "endpoints_of one_endpoint 0x100000000 = Some []"
    using one_endpoint_live one_endpoint_slot
    by (simp add: slot_view_Some endpoint_view_def IpcEndpointSlot_empty_def ring_contents_new)
  moreover have "\<not> closed 0x100000000 ?bs ys"
    by (cases ys rule: list.exhaust) (auto simp: neq_Nil_conv elim: closed.elims)
  ultimately show ?thesis
    using run ipc_messages_conserved [OF ipc_fresh_create _ run, of "0x100000000" "[]"] by auto
qed

theorem ipc_manager_observers_witness:
  "IpcManager_is_valid one_endpoint 0x100000000 = ret (0x100000000 \<in> dom (endpoints_of one_endpoint))
   \<and> IpcManager_queue_len 0x100000000 one_endpoint
     = ret (map_option length (endpoints_of one_endpoint 0x100000000))
   \<and> IpcManager_count one_endpoint = card (dom (endpoints_of one_endpoint))
   \<and> IpcManager_count one_endpoint \<le> MAX_IPC_ENDPOINTS"
  using ipc_manager_observers [OF ipc_fresh_create] by blast

theorem stale_ipc_handle_witness:
  "\<exists>ms1 ys ms2. IpcManager_destroy 0x100000000 one_endpoint = ret (True, ms1)
     \<and> IpcManager_run [IpcCreate] ms1 = ret (ys, ms2) \<and> IpcManager_is_valid ms2 0x100000000 = ret False"
proof -
  let ?ms1 = "one_endpoint[0 := IpcEndpointSlot_clear (IpcEndpointSlot_empty\<lparr>ep_occupied := True\<rparr>)]"
  have "IpcQueue_is_empty IpcQueue_new" by (simp add: IpcQueue_is_empty_iff ring_contents_new)
  then have destroy: "IpcManager_destroy 0x100000000 one_endpoint = ret (True, ?ms1)"
    using endpoint_slot_eq [OF one_endpoint_inv, of "0x100000000"] one_endpoint_live
    by (simp only: one_endpoint_slot if_True)
      (simp add: IpcManager_destroy_def IpcHandle_index_def IpcEndpointSlot_empty_def handle_index_def)
  then have inv: "IpcManager_inv ?ms1"
    using IpcManager_step_run [OF one_endpoint_inv, of "IpcDestroy 0x100000000"] by auto
  obtain ys ms2 where run: "IpcManager_run [IpcCreate] ?ms1 = ret (ys, ms2)"
    and rec: "IpcManager_recycles (IpcHandle_index 0x100000000) [IpcCreate] ?ms1
      = endpoints.bumps (IpcHandle_index 0x100000000) [IpcCreate] ?ms1"
    using IpcManager_run_total [OF inv] by blast
  have "IpcManager_recycles (IpcHandle_index 0x100000000) [IpcCreate] ?ms1 < 2 ^ 32 - 2"
    using endpoints.bumps_le [of "IpcHandle_index 0x100000000" "[IpcCreate]" ?ms1] unfolding rec by simp
  with stale_ipc_handle [OF ipc_fresh_create destroy _ run] destroy run show ?thesis by blast
qed

theorem ipc_free_endpoint_scrubbed_witness:
  "messages (ep_queue (one_endpoint ! 1)) = replicate IPC_QUEUE_CAPACITY IpcMessage_empty"
proof (rule ipc_free_endpoint_scrubbed [OF ipc_fresh_create])
  have "1 < length one_endpoint" by (simp add: IpcManager_new_def MAX_IPC_ENDPOINTS_def)
  then show "one_endpoint ! 1 \<in> set one_endpoint" by (rule nth_mem)
  show "\<not> ep_occupied (one_endpoint ! 1)"
    by (simp add: IpcManager_new_def MAX_IPC_ENDPOINTS_def IpcEndpointSlot_empty_def)
qed

end
