(* ===== verification/Paging.thy ===== *)
theory Paging
  imports Page_Table
begin

text \<open>
  Correctness of the page tables.  The tables reachable from a PML4 form a tree: a path of at most
  three indices leads to a table, no two paths share one, and none lies in a free frame.  On such
  trees \<open>map\<close> and \<open>unmap\<close> change the translation of exactly one page, and the access rights of a page
  are those it was mapped with.
\<close>

section \<open>Walking the tables\<close>

fun descend :: "memory \<Rightarrow> u64 \<Rightarrow> usize list \<Rightarrow> u64 option" where
  "descend mem t [] = Some t"
| "descend mem t (i # js) =
     (let e = mem (entry_addr t i) in if bit e 0 then descend mem (entry_address e) js else None)"

definition is_path :: "usize list \<Rightarrow> bool" where
  "is_path p \<longleftrightarrow> length p \<le> 3 \<and> (\<forall>i \<in> set p. i < 512)"

definition leaf :: "memory \<Rightarrow> u64 \<Rightarrow> usize list \<Rightarrow> usize \<Rightarrow> u64 option" where
  "leaf mem r p l = (case descend mem r p of None \<Rightarrow> None
     | Some t \<Rightarrow> if bit (mem (entry_addr t l)) 0 then Some (mem (entry_addr t l)) else None)"

definition tables :: "memory \<Rightarrow> u64 \<Rightarrow> u64 set" where
  "tables mem r = {t. \<exists>p. is_path p \<and> descend mem r p = Some t}"

text \<open>The tree invariant; \<open>F\<close> are the free frames.  A present entry above the last level is no huge page.\<close>

definition vtree :: "memory \<Rightarrow> u64 \<Rightarrow> u64 set \<Rightarrow> bool" where
  "vtree mem r F \<longleftrightarrow> r mod PAGE_SIZE = 0
   \<and> (\<forall>p q t. is_path p \<longrightarrow> is_path q \<longrightarrow> descend mem r p = Some t \<longrightarrow> descend mem r q = Some t \<longrightarrow> p = q)
   \<and> (\<forall>p t. is_path p \<longrightarrow> descend mem r p = Some t \<longrightarrow> t \<notin> F)
   \<and> (\<forall>p t i. is_path p \<longrightarrow> p \<noteq> [] \<longrightarrow> length p \<le> 2 \<longrightarrow> descend mem r p = Some t \<longrightarrow> i < 512
        \<longrightarrow> bit (mem (entry_addr t i)) 0 \<longrightarrow> \<not> bit (mem (entry_addr t i)) 7)"

lemma vtree_root: "vtree mem r F \<Longrightarrow> r mod PAGE_SIZE = 0"
  by (simp add: vtree_def)

lemma vtree_inj:
  "vtree mem r F \<Longrightarrow> is_path p \<Longrightarrow> is_path q \<Longrightarrow> descend mem r p = Some t \<Longrightarrow> descend mem r q = Some t \<Longrightarrow> p = q"
  by (auto simp: vtree_def)

lemma vtree_free: "vtree mem r F \<Longrightarrow> is_path p \<Longrightarrow> descend mem r p = Some t \<Longrightarrow> t \<notin> F"
  by (auto simp: vtree_def)

lemma vtree_huge:
  "vtree mem r F \<Longrightarrow> is_path p \<Longrightarrow> p \<noteq> [] \<Longrightarrow> length p \<le> 2 \<Longrightarrow> descend mem r p = Some t \<Longrightarrow> i < 512
   \<Longrightarrow> bit (mem (entry_addr t i)) 0 \<Longrightarrow> \<not> bit (mem (entry_addr t i)) 7"
  by (auto simp: vtree_def)

lemma is_path_Nil [simp]: "is_path []"
  by (simp add: is_path_def)

lemma is_path_snoc: "is_path p \<Longrightarrow> length p \<le> 2 \<Longrightarrow> i < 512 \<Longrightarrow> is_path (p @ [i])"
  by (auto simp: is_path_def)

lemma is_path_prefix: "is_path (p @ q) \<Longrightarrow> is_path p"
  by (auto simp: is_path_def)

lemma descend_append: "descend mem t (p @ q) = descend mem t p \<bind> (\<lambda>s. descend mem s q)"
  by (induction p arbitrary: t) (simp_all add: Let_def)

lemma descend_snoc:
  "descend mem t (p @ [i]) = descend mem t p \<bind>
     (\<lambda>s. if bit (mem (entry_addr s i)) 0 then Some (entry_address (mem (entry_addr s i))) else None)"
  by (simp add: descend_append Let_def cong: if_cong)

lemma descend_aligned: "t mod PAGE_SIZE = 0 \<Longrightarrow> descend mem t p = Some s \<Longrightarrow> s mod PAGE_SIZE = 0"
proof (induction p arbitrary: t)
  case (Cons i js)
  then show ?case
    using Cons.IH [OF entry_address_aligned] by (simp add: Let_def split: if_splits)
qed simp

text \<open>A walk depends only on the presence and the address of the entries it meets.\<close>

definition same_link :: "u64 \<Rightarrow> u64 \<Rightarrow> bool" where
  "same_link e e' \<longleftrightarrow> bit e 0 = bit e' 0 \<and> (bit e 0 \<longrightarrow> entry_address e = entry_address e')"

lemma same_link_refl [simp]: "same_link e e"
  by (simp add: same_link_def)

lemma descend_cong:
  assumes "\<And>q i rest t. p = q @ i # rest \<Longrightarrow> descend mem r q = Some t \<Longrightarrow>
    same_link (mem (entry_addr t i)) (mem' (entry_addr t i))"
  shows "descend mem' r p = descend mem r p"
  using assms
proof (induction p arbitrary: r)
  case Nil
  then show ?case by simp
next
  case (Cons i js)
  have link: "same_link (mem (entry_addr r i)) (mem' (entry_addr r i))"
    using Cons.prems [of "[]" i js r] by simp
  show ?case
  proof (cases "bit (mem (entry_addr r i)) 0")
    case False
    with link show ?thesis by (simp add: same_link_def)
  next
    case True
    let ?r = "entry_address (mem (entry_addr r i))"
    have "descend mem' ?r js = descend mem ?r js"
    proof (rule Cons.IH)
      fix q j rest t
      assume "js = q @ j # rest" and "descend mem ?r q = Some t"
      then show "same_link (mem (entry_addr t j)) (mem' (entry_addr t j))"
        using Cons.prems [of "i # q" j rest t] True by (simp add: Let_def)
    qed
    with True link show ?thesis by (simp add: same_link_def Let_def)
  qed
qed

section \<open>Writing one entry\<close>

lemma write_elsewhere:
  assumes "vtree mem r F" and "is_path p" "descend mem r p = Some t" "i < 512"
    and "is_path q" "descend mem r q = Some s" "j < 512" and "(q, j) \<noteq> (p, i)"
  shows "(mem(entry_addr t i := v)) (entry_addr s j) = mem (entry_addr s j)"
proof -
  have "t mod PAGE_SIZE = 0" "s mod PAGE_SIZE = 0"
    using assms descend_aligned vtree_root by blast+
  then have "entry_addr t i \<noteq> entry_addr s j"
    using assms vtree_inj by (auto simp: entry_addr_eq_iff)
  then show ?thesis by simp
qed

text \<open>Walks that do not pass through entry \<open>i\<close> of the table at \<open>p\<close> are unchanged by a write there.\<close>

lemma descend_write_other:
  assumes tree: "vtree mem r F" and p: "is_path p" "descend mem r p = Some t" "i < 512"
    and q: "is_path q" and off: "\<And>rest. q \<noteq> p @ i # rest"
  shows "descend (mem(entry_addr t i := v)) r q = descend mem r q"
proof (rule descend_cong)
  fix q1 j rest s
  assume split: "q = q1 @ j # rest" and s: "descend mem r q1 = Some s"
  then have "is_path q1" "j < 512" using q by (auto simp: is_path_def)
  moreover have "(q1, j) \<noteq> (p, i)" using split off by blast
  ultimately show "same_link (mem (entry_addr s j)) ((mem(entry_addr t i := v)) (entry_addr s j))"
    using write_elsewhere [OF tree p _ s, of j v] by simp
qed

text \<open>Setting access bits of an entry changes no walk.\<close>

lemma descend_upgrade:
  assumes "same_link (mem a) v"
  shows "descend (mem(a := v)) r q = descend mem r q"
  using assms by (intro descend_cong) auto

lemma vtree_upgrade:
  assumes "vtree mem r F" and "same_link (mem a) v" and "bit v 7 = bit (mem a) 7"
  shows "vtree (mem(a := v)) r F"
proof -
  have "bit ((mem(a := v)) b) 0 = bit (mem b) 0" "bit ((mem(a := v)) b) 7 = bit (mem b) 7" for b
    using assms(2,3) by (auto simp: same_link_def)
  then show ?thesis using assms(1) unfolding vtree_def descend_upgrade [of mem a v, OF assms(2)] by simp
qed

section \<open>Linking a fresh table\<close>

text \<open>
  \<open>linked mem t i t' v\<close>: the free frame \<open>t'\<close> is cleared and entry \<open>i\<close> of table \<open>t\<close> set to \<open>v\<close>.
\<close>

definition linked :: "memory \<Rightarrow> u64 \<Rightarrow> usize \<Rightarrow> u64 \<Rightarrow> u64 \<Rightarrow> memory" where
  "linked mem t i t' v = (PageTable_zero t' mem)(entry_addr t i := v)"

text \<open>The situation in which \<open>get_or_create_table\<close> links the table at the end of path \<open>p\<close> to a fresh one.\<close>

definition fresh_link :: "memory \<Rightarrow> u64 \<Rightarrow> u64 set \<Rightarrow> usize list \<Rightarrow> u64 \<Rightarrow> usize \<Rightarrow> u64 \<Rightarrow> u64 \<Rightarrow> bool" where
  "fresh_link mem r F p t i t' v \<longleftrightarrow> vtree mem r F \<and> is_path p \<and> length p \<le> 2 \<and> i < 512
     \<and> descend mem r p = Some t \<and> \<not> bit (mem (entry_addr t i)) 0 \<and> t' \<in> F \<and> t' mod PAGE_SIZE = 0
     \<and> bit v 0 \<and> entry_address v = t' \<and> \<not> bit v 7"

lemma fresh_linkD:
  assumes "fresh_link mem r F p t i t' v"
  shows "vtree mem r F" "is_path p" "length p \<le> 2" "i < 512" "descend mem r p = Some t"
    and "\<not> bit (mem (entry_addr t i)) 0" "t' \<in> F" "t' mod PAGE_SIZE = 0"
    and "bit v 0" "entry_address v = t'" "\<not> bit v 7"
    and "t mod PAGE_SIZE = 0" "t \<noteq> t'"
proof -
  show tree: "vtree mem r F" and path: "is_path p" "length p \<le> 2" "i < 512" and t: "descend mem r p = Some t"
    and "\<not> bit (mem (entry_addr t i)) 0" and fresh: "t' \<in> F" "t' mod PAGE_SIZE = 0"
    and "bit v 0" "entry_address v = t'" "\<not> bit v 7"
    using assms unfolding fresh_link_def by blast+
  show "t mod PAGE_SIZE = 0" using descend_aligned [OF vtree_root [OF tree] t] .
  show "t \<noteq> t'" using vtree_free [OF tree path(1) t] fresh(1) by blast
qed

lemma linked_old:
  assumes L: "fresh_link mem r F p t i t' v" and "is_path q" "descend mem r q = Some s" "j < 512"
  shows "linked mem t i t' v (entry_addr s j) = (if q = p \<and> j = i then v else mem (entry_addr s j))"
proof -
  note link = fresh_linkD [OF L]
  have s: "s mod PAGE_SIZE = 0" "s \<noteq> t'"
    using link assms(2,3) descend_aligned vtree_root vtree_free by blast+
  have "entry_addr s j \<noteq> entry_addr t' k" if "k < 512" for k
    using that s assms(4) link(8) by (simp add: entry_addr_eq_iff)
  then have zero: "PageTable_zero t' mem (entry_addr s j) = mem (entry_addr s j)"
    by (auto simp: PageTable_zero_eq)
  have "entry_addr s j = entry_addr t i \<longleftrightarrow> s = t \<and> j = i"
    using s(1) link(12,4) assms(4) by (simp add: entry_addr_eq_iff)
  moreover have "s = t \<longleftrightarrow> q = p"
    using vtree_inj [OF link(1) assms(2) link(2)] assms(3) link(5) by auto
  ultimately show ?thesis using zero by (auto simp: linked_def)
qed

lemma linked_fresh:
  assumes "fresh_link mem r F p t i t' v" and "j < 512"
  shows "linked mem t i t' v (entry_addr t' j) = 0"
proof -
  note link = fresh_linkD [OF assms(1)]
  have "entry_addr t' j \<noteq> entry_addr t i"
    using assms(2) link(4,8,12,13) by (simp add: entry_addr_eq_iff)
  then show ?thesis using assms(2) by (auto simp: linked_def PageTable_zero_eq)
qed

lemma linked_through: "fresh_link mem r F p t i t' v \<Longrightarrow> descend mem r (p @ i # rest) = None"
  using fresh_linkD(5,6) [of mem r F p t i t' v] by (simp add: descend_append)

lemma descend_linked:
  assumes L: "fresh_link mem r F p t i t' v" and "is_path q"
  shows "descend (linked mem t i t' v) r q = (if q = p @ [i] then Some t' else descend mem r q)"
  using assms(2)
proof (induction q rule: rev_induct)
  case Nil
  then show ?case by simp
next
  case (snoc j q)
  have q: "is_path q" "j < 512" using snoc.prems by (auto simp: is_path_def)
  show ?case
  proof (cases "q = p @ [i]")
    case True
    then have "descend (linked mem t i t' v) r q = Some t'" using snoc.IH [OF q(1)] by simp
    then have "descend (linked mem t i t' v) r (q @ [j]) = None"
      using linked_fresh [OF L q(2)] by (simp only: descend_snoc) simp
    moreover have "descend mem r (q @ [j]) = None" using True linked_through [OF L, of "[j]"] by simp
    ultimately show ?thesis using True by simp
  next
    case False
    then have IH: "descend (linked mem t i t' v) r q = descend mem r q" using snoc.IH [OF q(1)] by simp
    show ?thesis
    proof (cases "descend mem r q")
      case None
      then show ?thesis using IH fresh_linkD(5) [OF L] by (auto simp: descend_snoc)
    next
      case (Some s)
      then show ?thesis
        using IH linked_old [OF L q(1) Some q(2)] fresh_linkD(5,9,10) [OF L] by (auto simp: descend_snoc)
    qed
  qed
qed

lemma vtree_linked:
  assumes L: "fresh_link mem r F p t i t' v"
  shows "vtree (linked mem t i t' v) r (F - {t'})"
  unfolding vtree_def
proof (intro conjI allI impI)
  note tree = fresh_linkD(1) [OF L] and v = fresh_linkD(11) [OF L] and fresh = fresh_linkD(7) [OF L]
  show "r mod PAGE_SIZE = 0" using tree by (rule vtree_root)
  fix q s
  assume q: "is_path q" "descend (linked mem t i t' v) r q = Some s"
  then show "s \<notin> F - {t'}" using vtree_free [OF tree] descend_linked [OF L] by (auto split: if_splits)
  show "q1 = q" if "is_path q1" "descend (linked mem t i t' v) r q1 = Some s" for q1
    using that q vtree_inj [OF tree] vtree_free [OF tree] fresh descend_linked [OF L] by (auto split: if_splits)
  fix j
  assume j: "q \<noteq> []" "length q \<le> 2" "j < 512" "bit (linked mem t i t' v (entry_addr s j)) 0"
  show "\<not> bit (linked mem t i t' v (entry_addr s j)) 7"
  proof (cases "q = p @ [i]")
    case True
    then show ?thesis using q j linked_fresh [OF L j(3)] descend_linked [OF L q(1)] by simp
  next
    case False
    then have s: "descend mem r q = Some s" using q descend_linked [OF L q(1)] by simp
    show ?thesis
      using linked_old [OF L q(1) s j(3)] j v vtree_huge [OF tree q(1) j(1,2) s j(3)] by auto
  qed
qed

lemma leaf_linked:
  assumes L: "fresh_link mem r F p t i t' v" and q: "is_path q" "length q = 3" "l < 512"
  shows "leaf (linked mem t i t' v) r q l = leaf mem r q l"
proof (cases "q = p @ [i]")
  case True
  then have "leaf (linked mem t i t' v) r q l = None"
    using descend_linked [OF L q(1)] linked_fresh [OF L q(3)] by (simp add: leaf_def)
  moreover have "leaf mem r q l = None" using True linked_through [OF L, of "[]"] by (simp add: leaf_def)
  ultimately show ?thesis by simp
next
  case False
  then have same: "descend (linked mem t i t' v) r q = descend mem r q" using descend_linked [OF L q(1)] by simp
  show ?thesis
  proof (cases "descend mem r q")
    case None
    with same show ?thesis by (simp add: leaf_def)
  next
    case (Some s)
    have "q \<noteq> p" using q(2) fresh_linkD(3) [OF L] by auto
    with same Some linked_old [OF L q(1) Some q(3)] show ?thesis by (simp add: leaf_def)
  qed
qed

lemma tables_linked:
  assumes L: "fresh_link mem r F p t i t' v"
  shows "tables (linked mem t i t' v) r = insert t' (tables mem r)"
proof -
  have "is_path (p @ [i])" using fresh_linkD(2,3,4) [OF L] by (rule is_path_snoc)
  moreover have "descend mem r (p @ [i]) = None" using linked_through [OF L, of "[]"] by simp
  ultimately have "(\<exists>q. is_path q \<and> descend (linked mem t i t' v) r q = Some x)
      \<longleftrightarrow> x = t' \<or> (\<exists>q. is_path q \<and> descend mem r q = Some x)" for x
    using descend_linked [OF L] by (metis option.distinct(1) option.inject)
  then show ?thesis by (auto simp: tables_def)
qed

lemma linked_modifies:
  assumes L: "fresh_link mem r F p t i t' v" and "linked mem t i t' v a \<noteq> mem a"
  shows "\<exists>s j. s \<in> tables (linked mem t i t' v) r \<and> j < 512 \<and> a = entry_addr s j"
proof -
  have "t \<in> tables mem r" using fresh_linkD(2,5) [OF L] by (auto simp: tables_def)
  moreover have "a = entry_addr t i \<or> (\<exists>j < 512. a = entry_addr t' j)"
    using assms(2) by (auto simp: linked_def PageTable_zero_eq split: if_splits)
  ultimately show ?thesis using fresh_linkD(4) [OF L] unfolding tables_linked [OF L] by blast
qed

section \<open>What \<open>get_or_create_table\<close> guarantees\<close>

definition vm_inv :: "u64 \<Rightarrow> vm_state \<Rightarrow> bool" where
  "vm_inv r s \<longleftrightarrow> FrameAllocator_inv (snd s) \<and> vtree (fst s) r (avail_frames (snd s))"

text \<open>
  The tree grows: walks and leaves stay, access bits of links are only added, the frames taken are
  the new tables, and nothing but tables is written.
\<close>

definition grows :: "u64 \<Rightarrow> vm_state \<Rightarrow> vm_state \<Rightarrow> bool" where
  "grows r s s' \<longleftrightarrow> vm_inv r s'
   \<and> avail_frames (snd s') \<subseteq> avail_frames (snd s)
   \<and> held_frames (snd s') = held_frames (snd s) \<union> (avail_frames (snd s) - avail_frames (snd s'))
   \<and> (\<forall>q t. is_path q \<longrightarrow> descend (fst s) r q = Some t \<longrightarrow> descend (fst s') r q = Some t)
   \<and> (\<forall>q l. is_path q \<longrightarrow> length q = 3 \<longrightarrow> l < 512 \<longrightarrow> leaf (fst s') r q l = leaf (fst s) r q l)
   \<and> (\<forall>q t i n. is_path q \<longrightarrow> length q \<le> 2 \<longrightarrow> descend (fst s) r q = Some t \<longrightarrow> i < 512
        \<longrightarrow> bit (fst s (entry_addr t i)) 0 \<longrightarrow> bit (fst s (entry_addr t i)) n \<longrightarrow> bit (fst s' (entry_addr t i)) n)
   \<and> tables (fst s') r = tables (fst s) r \<union> (avail_frames (snd s) - avail_frames (snd s'))
   \<and> (\<forall>a. fst s' a \<noteq> fst s a \<longrightarrow> (\<exists>t i. t \<in> tables (fst s') r \<and> i < 512 \<and> a = entry_addr t i))"

lemma growsD:
  assumes "grows r s s'"
  shows "vm_inv r s'" "avail_frames (snd s') \<subseteq> avail_frames (snd s)"
    and "held_frames (snd s') = held_frames (snd s) \<union> (avail_frames (snd s) - avail_frames (snd s'))"
    and "is_path q \<Longrightarrow> descend (fst s) r q = Some t \<Longrightarrow> descend (fst s') r q = Some t"
    and "is_path q \<Longrightarrow> length q = 3 \<Longrightarrow> l < 512 \<Longrightarrow> leaf (fst s') r q l = leaf (fst s) r q l"
    and "is_path q \<Longrightarrow> length q \<le> 2 \<Longrightarrow> descend (fst s) r q = Some t \<Longrightarrow> i < 512 \<Longrightarrow>
      bit (fst s (entry_addr t i)) 0 \<Longrightarrow> bit (fst s (entry_addr t i)) n \<Longrightarrow> bit (fst s' (entry_addr t i)) n"
    and "tables (fst s') r = tables (fst s) r \<union> (avail_frames (snd s) - avail_frames (snd s'))"
    and "fst s' a \<noteq> fst s a \<Longrightarrow> \<exists>t i. t \<in> tables (fst s') r \<and> i < 512 \<and> a = entry_addr t i"
    and "tables (fst s) r \<subseteq> tables (fst s') r"
proof -
  show tabs: "tables (fst s') r = tables (fst s) r \<union> (avail_frames (snd s) - avail_frames (snd s'))"
    using assms by (simp add: grows_def)
  then show "tables (fst s) r \<subseteq> tables (fst s') r" by blast
  have "\<forall>a. fst s' a \<noteq> fst s a \<longrightarrow> (\<exists>t i. t \<in> tables (fst s') r \<and> i < 512 \<and> a = entry_addr t i)"
    using assms unfolding grows_def by (elim conjE)
  then show "fst s' a \<noteq> fst s a \<Longrightarrow> \<exists>t i. t \<in> tables (fst s') r \<and> i < 512 \<and> a = entry_addr t i" by blast
qed (use assms in \<open>simp_all add: grows_def\<close>)

lemma grows_refl: "vm_inv r s \<Longrightarrow> grows r s s"
  by (simp add: grows_def)

lemma grows_trans:
  assumes "grows r s1 s2" and "grows r s2 s3"
  shows "grows r s1 s3"
  unfolding grows_def
proof (intro conjI allI impI)
  note A = growsD [OF assms(1)] and B = growsD [OF assms(2)]
  show "vm_inv r s3" by (rule B(1))
  show "avail_frames (snd s3) \<subseteq> avail_frames (snd s1)" using A(2) B(2) by blast
  show "held_frames (snd s3) = held_frames (snd s1) \<union> (avail_frames (snd s1) - avail_frames (snd s3))"
    using A(2,3) B(2,3) by blast
  show "tables (fst s3) r = tables (fst s1) r \<union> (avail_frames (snd s1) - avail_frames (snd s3))"
    unfolding B(7) A(7) using A(2) B(2) by blast
  show "\<exists>t i. t \<in> tables (fst s3) r \<and> i < 512 \<and> a = entry_addr t i" if "fst s3 a \<noteq> fst s1 a" for a
    using that A(8) [of a] B(8) [of a] B(9) by (cases "fst s2 a = fst s1 a") auto
  show "descend (fst s3) r q = Some t" if "is_path q" "descend (fst s1) r q = Some t" for q t
    using that A(4) B(4) by blast
  show "leaf (fst s3) r q l = leaf (fst s1) r q l" if "is_path q" "length q = 3" "l < 512" for q l
    using that A(5) B(5) by simp
  show "bit (fst s3 (entry_addr t i)) n"
    if "is_path q" "length q \<le> 2" "descend (fst s1) r q = Some t" "i < 512"
      "bit (fst s1 (entry_addr t i)) 0" "bit (fst s1 (entry_addr t i)) n" for q t i n
    using that A(4) [of q t] A(6) [of q t i] B(6) [of q t i n] by blast
qed

definition upgraded :: "bool \<Rightarrow> bool \<Rightarrow> u64 \<Rightarrow> u64" where
  "upgraded w u e = (let e = (if u then e OR USER else e) in if w then e OR WRITABLE else e)"

lemma bit_upgraded: "bit (upgraded w u e) n \<longleftrightarrow> bit e n \<or> (n = 1 \<and> w) \<or> (n = 2 \<and> u)"
  by (auto simp: upgraded_def Let_def bit_or_iff bit_flag_consts)

lemma entry_address_upgraded: "entry_address (upgraded w u e) = entry_address e"
  by (simp add: upgraded_def Let_def entry_address_upgrade)

lemma same_link_upgraded: "same_link e (upgraded w u e)"
  by (simp add: same_link_def bit_upgraded entry_address_upgraded)

lemma grows_upgrade:
  assumes inv: "vm_inv r (mem, fa)" and p: "is_path p" "length p \<le> 2" "descend mem r p = Some t" "i < 512"
  shows "grows r (mem, fa) (mem(entry_addr t i := upgraded w u (mem (entry_addr t i))), fa)"
proof -
  let ?m = "mem(entry_addr t i := upgraded w u (mem (entry_addr t i)))"
  have tree: "vtree mem r (avail_frames fa)" using inv by (simp add: vm_inv_def)
  have same: "descend ?m r q = descend mem r q" for q
    by (rule descend_upgrade [OF same_link_upgraded])
  then have tabs: "tables ?m r = tables mem r" by (simp add: tables_def)
  have "vm_inv r (?m, fa)"
    using inv vtree_upgrade [OF tree same_link_upgraded] by (simp add: vm_inv_def bit_upgraded)
  moreover have "leaf ?m r q l = leaf mem r q l" if "is_path q" "length q = 3" "l < 512" for q l
  proof (cases "descend mem r q")
    case (Some s)
    have "q \<noteq> p" using that(2) p(2) by auto
    then show ?thesis
      using write_elsewhere [OF tree p(1,3,4) that(1) Some that(3)] Some by (simp add: leaf_def same)
  qed (simp add: leaf_def same)
  moreover have "t \<in> tables mem r" using p by (auto simp: tables_def)
  ultimately show ?thesis using p(4) by (auto simp: grows_def same tabs bit_upgraded)
qed

lemma grows_link:
  assumes inv: "vm_inv r (mem, fa)" and L: "fresh_link mem r (avail_frames fa) p t i t' v"
    and fa': "FrameAllocator_inv fa'" "avail_frames fa' = avail_frames fa - {t'}"
      "held_frames fa' = insert t' (held_frames fa)"
  shows "grows r (mem, fa) (linked mem t i t' v, fa')"
proof -
  note link = fresh_linkD [OF L]
  have "vm_inv r (linked mem t i t' v, fa')"
    using fa'(1,2) vtree_linked [OF L] by (simp add: vm_inv_def)
  moreover have "descend (linked mem t i t' v) r q = Some s" if "is_path q" "descend mem r q = Some s" for q s
    using that descend_linked [OF L that(1)] linked_through [OF L, of "[]"] by auto
  moreover have "bit (linked mem t i t' v (entry_addr s j)) n"
    if "is_path q" "descend mem r q = Some s" "j < 512" "bit (mem (entry_addr s j)) 0"
      "bit (mem (entry_addr s j)) n" for q s j n
    using that linked_old [OF L that(1,2,3)] link(5,6) by auto
  ultimately show ?thesis
    using fa' link(7) leaf_linked [OF L] tables_linked [OF L] linked_modifies [OF L]
    by (auto simp: grows_def)
qed

lemma get_or_create_cases:
  assumes inv: "vm_inv r s" and p: "is_path p" "length p \<le> 2" "descend (fst s) r p = Some t" "i < 512"
  obtains (oom) "avail_frames (snd s) = {}"
      and "get_or_create_table t i w u s = ret (Inl OutOfPhysicalMemory, s)"
  | (ok) t' s' where "get_or_create_table t i w u s = ret (Inr t', s')" and "grows r s s'"
      and "descend (fst s') r (p @ [i]) = Some t'" and "card (avail_frames (snd s)) \<le> Suc (card (avail_frames (snd s')))"
      and "bit (fst s' (entry_addr t i)) 0" and "w \<Longrightarrow> bit (fst s' (entry_addr t i)) 1"
      and "u \<Longrightarrow> bit (fst s' (entry_addr t i)) 2"
proof -
  obtain mem fa where s: "s = (mem, fa)" by (cases s)
  have t: "descend mem r p = Some t" and fa: "FrameAllocator_inv fa" and tree: "vtree mem r (avail_frames fa)"
    using inv p(3) by (simp_all add: s vm_inv_def)
  let ?e = "mem (entry_addr t i)"
  show thesis
  proof (cases "bit ?e 0")
    case True
    let ?m = "mem(entry_addr t i := upgraded w u ?e)"
    have "get_or_create_table t i w u s = ret (Inr (entry_address ?e), ?m, fa)"
      using True p(4) by (simp add: s get_or_create_table_def read_entry_def write_entry_def upgraded_def Let_def)
    moreover have "grows r s (?m, fa)" unfolding s using grows_upgrade inv p(1,2) t p(4) by (simp add: s)
    moreover have "descend ?m r (p @ [i]) = Some (entry_address ?e)"
      using True t
      by (simp add: descend_upgrade [OF same_link_upgraded] descend_snoc bit_upgraded entry_address_upgraded)
    ultimately show thesis using ok True by (simp add: s bit_upgraded)
  next
    case False
    show thesis
      using fa
    proof (cases rule: pool.alloc_cases)
      case none
      then show thesis using oom False p(4) by (simp add: s get_or_create_table_def read_entry_def)
    next
      case (some f fa')
      have f: "page_frame f" using pool_page_frame [OF fa] some(3) by blast
      let ?v = "make_entry f w u"
      have "fresh_link mem r (avail_frames fa) p t i f ?v"
        using tree p t False some(3) f
        by (simp add: fresh_link_def bit_make_entry entry_address_make_entry page_frame_def)
      note L = this and g = grows_link [OF _ this some(2,5,6)]
      have "get_or_create_table t i w u s = ret (Inr f, linked mem t i f ?v, fa')"
        using False p(4) some(1)
        by (simp add: s get_or_create_table_def read_entry_def write_entry_def linked_def)
      moreover have "grows r s (linked mem t i f ?v, fa')" using g inv by (simp add: s)
      moreover have "descend (linked mem t i f ?v) r (p @ [i]) = Some f"
        using descend_linked [OF L is_path_snoc [OF p(1,2,4)]] by simp
      moreover have "card (avail_frames fa) \<le> Suc (card (avail_frames fa'))"
        using some(3,5) pool.finite_avail [OF fa] by (simp add: card_Suc_Diff1)
      moreover have "linked mem t i f ?v (entry_addr t i) = ?v" by (simp add: linked_def)
      ultimately show thesis
        by (intro ok [of f "(linked mem t i f ?v, fa')"]) (simp_all add: s bit_make_entry)
    qed
  qed
qed

text \<open>The tables along a path, one call of \<open>get_or_create_table\<close> after the other.\<close>

fun ensure_tables :: "u64 \<Rightarrow> usize list \<Rightarrow> bool \<Rightarrow> bool \<Rightarrow> vm_state \<Rightarrow> ((KernelError + u64) \<times> vm_state) run" where
  "ensure_tables t [] w u s = ret (Inr t, s)"
| "ensure_tables t (i # js) w u s = do {
     (r, s) \<leftarrow> get_or_create_table t i w u s;
     (case r of Inl e \<Rightarrow> ret (Inl e, s) | Inr t' \<Rightarrow> ensure_tables t' js w u s) }"

text \<open>Access bit \<open>n\<close> is set in every link along a path below \<open>p\<close>.\<close>

definition link_bits :: "memory \<Rightarrow> u64 \<Rightarrow> usize list \<Rightarrow> usize list \<Rightarrow> nat \<Rightarrow> bool" where
  "link_bits mem r p js n \<longleftrightarrow>
     (\<forall>q i rest t. js = q @ i # rest \<longrightarrow> descend mem r (p @ q) = Some t \<longrightarrow> bit (mem (entry_addr t i)) n)"

lemma link_bits_Cons:
  assumes "link_bits mem r (p @ [i]) js n" and "\<And>t. descend mem r p = Some t \<Longrightarrow> bit (mem (entry_addr t i)) n"
  shows "link_bits mem r p (i # js) n"
  unfolding link_bits_def
proof (intro allI impI)
  fix q j rest t
  assume "i # js = q @ j # rest" and "descend mem r (p @ q) = Some t"
  then show "bit (mem (entry_addr t j)) n"
    using assms unfolding link_bits_def by (cases q) auto
qed

lemma ensure_tables_cases:
  assumes "vm_inv r s" and "is_path (p @ js)" and "descend (fst s) r p = Some t"
  shows "(\<exists>s'. ensure_tables t js w u s = ret (Inl OutOfPhysicalMemory, s') \<and> grows r s s'
           \<and> card (avail_frames (snd s)) < length js)
    \<or> (\<exists>t' s'. ensure_tables t js w u s = ret (Inr t', s') \<and> grows r s s' \<and> descend (fst s') r (p @ js) = Some t'
           \<and> (w \<longrightarrow> link_bits (fst s') r p js 1) \<and> (u \<longrightarrow> link_bits (fst s') r p js 2))"
  using assms
proof (induction js arbitrary: s p t)
  case Nil
  then show ?case by (auto simp: grows_refl link_bits_def)
next
  case (Cons i js)
  have p: "is_path p" "length p \<le> 2" "i < 512" using Cons.prems(2) by (auto simp: is_path_def)
  show ?case
    using Cons.prems(1) p(1,2) Cons.prems(3) p(3)
  proof (cases rule: get_or_create_cases [where w = w and u = u])
    case oom
    then show ?thesis using grows_refl Cons.prems(1) by auto
  next
    case (ok t1 s1)
    note g1 = growsD [OF ok(2)]
    have "is_path ((p @ [i]) @ js)" using Cons.prems(2) by simp
    note IH = Cons.IH [OF g1(1) this ok(3)]
    then show ?thesis
    proof (elim disjE exE conjE)
      fix s2
      assume "ensure_tables t1 js w u s1 = ret (Inl OutOfPhysicalMemory, s2)" and "grows r s1 s2"
        and "card (avail_frames (snd s1)) < length js"
      then show ?thesis using ok(1,2,4) grows_trans by auto
    next
      fix t2 s2
      assume run: "ensure_tables t1 js w u s1 = ret (Inr t2, s2)" and g: "grows r s1 s2"
        and d: "descend (fst s2) r ((p @ [i]) @ js) = Some t2"
        and bits: "w \<longrightarrow> link_bits (fst s2) r (p @ [i]) js 1" "u \<longrightarrow> link_bits (fst s2) r (p @ [i]) js 2"
      have t: "descend (fst s1) r p = Some t" "descend (fst s2) r p = Some t"
        using g1(4) [OF p(1) Cons.prems(3)] growsD(4) [OF g p(1)] by blast+
      note keep = growsD(6) [OF g p(1,2) t(1) p(3) ok(5)]
      have "w \<longrightarrow> link_bits (fst s2) r p (i # js) 1" "u \<longrightarrow> link_bits (fst s2) r p (i # js) 2"
        using bits keep ok(6,7) t(2) by (auto intro!: link_bits_Cons)
      then show ?thesis using run ok(1) d grows_trans [OF ok(2) g] by auto
    qed
  qed
qed

section \<open>Writing a leaf\<close>

lemma leaf_path_no_prefix: "length p = 3 \<Longrightarrow> is_path q \<Longrightarrow> q \<noteq> p @ l # rest"
  by (auto simp: is_path_def)

lemma write_leaf:
  assumes tree: "vtree mem r F" and p: "is_path p" "length p = 3" "descend mem r p = Some t" "l < 512"
  shows "is_path q \<Longrightarrow> descend (mem(entry_addr t l := v)) r q = descend mem r q"
    and "vtree (mem(entry_addr t l := v)) r F"
    and "is_path q \<Longrightarrow> length q = 3 \<Longrightarrow> m < 512 \<Longrightarrow> leaf (mem(entry_addr t l := v)) r q m
       = (if q = p \<and> m = l then if bit v 0 then Some v else None else leaf mem r q m)"
    and "tables (mem(entry_addr t l := v)) r = tables mem r"
    and "is_path q \<Longrightarrow> length q \<le> 2 \<Longrightarrow> descend mem r q = Some s \<Longrightarrow> i < 512 \<Longrightarrow>
       (mem(entry_addr t l := v)) (entry_addr s i) = mem (entry_addr s i)"
proof -
  let ?m = "mem(entry_addr t l := v)"
  show same: "descend ?m r q = descend mem r q" if "is_path q" for q
    using tree p(1,3,4) that leaf_path_no_prefix [OF p(2) that] by (rule descend_write_other)
  then show "tables ?m r = tables mem r" by (auto simp: tables_def)
  show link: "?m (entry_addr s i) = mem (entry_addr s i)"
    if "is_path q" "length q \<le> 2" "descend mem r q = Some s" "i < 512" for q s i
  proof -
    have "q \<noteq> p" using that(2) p(2) by auto
    then show ?thesis using write_elsewhere [OF tree p(1,3,4) that(1,3,4)] by simp
  qed
  show "vtree ?m r F"
    unfolding vtree_def
  proof (intro conjI allI impI)
    show "r mod PAGE_SIZE = 0" using tree by (rule vtree_root)
    fix q x
    assume q: "is_path q" "descend ?m r q = Some x"
    then have x: "descend mem r q = Some x" using same by simp
    then show "x \<notin> F" using vtree_free [OF tree q(1)] by blast
    show "q' = q" if "is_path q'" "descend ?m r q' = Some x" for q'
      using that same vtree_inj [OF tree _ q(1) _ x] by simp
    show "\<not> bit (?m (entry_addr x i)) 7"
      if "q \<noteq> []" "length q \<le> 2" "i < 512" "bit (?m (entry_addr x i)) 0" for i
      using that link [OF q(1) that(2) x that(3)] vtree_huge [OF tree q(1) that(1,2) x that(3)] by simp
  qed
  show "leaf ?m r q m = (if q = p \<and> m = l then if bit v 0 then Some v else None else leaf mem r q m)"
    if q: "is_path q" "length q = 3" "m < 512"
  proof (cases "descend mem r q")
    case None
    then show ?thesis using same [OF q(1)] p(3) by (auto simp: leaf_def)
  next
    case (Some s)
    show ?thesis
    proof (cases "q = p \<and> m = l")
      case True
      then show ?thesis using same [OF q(1)] p(3) by (simp add: leaf_def)
    next
      case False
      then show ?thesis
        using same [OF q(1)] write_elsewhere [OF tree p(1,3,4) q(1) Some q(3)] Some by (auto simp: leaf_def)
    qed
  qed
qed

section \<open>Paths of virtual addresses\<close>

lemma mask_9: "(0x1FF :: u64) = mask 9"
  by (simp add: mask_eq_exp_minus_1)

lemma bit_index: "k < 9 \<Longrightarrow> bit (drop_bit n va AND 0x1FF) k \<longleftrightarrow> bit va (n + k)" for va :: u64
  unfolding mask_9 by (simp add: bit_and_iff bit_mask_iff bit_drop_bit_eq)

lemma index_bound: "unat (drop_bit n va AND 0x1FF) < 512" for va :: u64
proof -
  have "unat (take_bit 9 (drop_bit n va)) = take_bit 9 (unat (drop_bit n va))" by (simp add: unsigned_take_bit_eq)
  then show ?thesis unfolding mask_9 by (simp add: take_bit_eq_mask [symmetric] take_bit_nat_less_exp [of 9, simplified])
qed

definition va_path :: "u64 \<Rightarrow> usize list" where
  "va_path va = (case indexes va of (a, b, c, d) \<Rightarrow> [a, b, c])"

definition va_slot :: "u64 \<Rightarrow> usize" where
  "va_slot va = (case indexes va of (a, b, c, d) \<Rightarrow> d)"

lemma va_path_ok: "is_path (va_path va)" "length (va_path va) = 3" "va_slot va < 512"
  by (simp_all add: va_path_def va_slot_def indexes_def is_path_def index_bound)

lemma drop_48_eq:
  fixes va x :: u64
  assumes "\<And>m. 16 \<le> m \<Longrightarrow> \<not> bit x m"
  shows "drop_bit 48 va = x \<longleftrightarrow> (\<forall>n. 48 \<le> n \<and> n < 64 \<longrightarrow> bit va n = bit x (n - 48))"
proof
  assume "drop_bit 48 va = x"
  then have "bit x m = bit va (48 + m)" for m by (auto simp: bit_drop_bit_eq)
  then show "\<forall>n. 48 \<le> n \<and> n < 64 \<longrightarrow> bit va n = bit x (n - 48)" by simp
next
  assume *: "\<forall>n. 48 \<le> n \<and> n < 64 \<longrightarrow> bit va n = bit x (n - 48)"
  show "drop_bit 48 va = x"
  proof (rule bit_word_eqI)
    fix m
    show "bit (drop_bit 48 va) m = bit x m"
    proof (cases "m < 16")
      case True
      then show ?thesis using * [rule_format, of "48 + m"] by (simp add: bit_drop_bit_eq)
    next
      case False
      then show ?thesis using assms [of m] bit_imp_le_length [of va "48 + m"] by (auto simp: bit_drop_bit_eq)
    qed
  qed
qed

lemma is_canonical_bits: "is_canonical va \<longleftrightarrow> (\<forall>n. 48 \<le> n \<and> n < 64 \<longrightarrow> bit va n = bit va 47)"
proof -
  have sign: "drop_bit 47 va AND 1 = 0 \<longleftrightarrow> \<not> bit va 47"
    using and_exp_eq_0_iff_not_bit [of "drop_bit 47 va" 0] by (simp add: bit_drop_bit_eq)
  have ones: "(0xFFFF :: u64) = mask 16" by (simp add: mask_eq_exp_minus_1)
  have zero_iff: "drop_bit 48 va = 0 \<longleftrightarrow> (\<forall>n. 48 \<le> n \<and> n < 64 \<longrightarrow> \<not> bit va n)"
    using drop_48_eq [of 0 va] by simp
  have ones_iff: "drop_bit 48 va = 0xFFFF \<longleftrightarrow> (\<forall>n. 48 \<le> n \<and> n < 64 \<longrightarrow> bit va n)"
    unfolding ones using drop_48_eq [of "mask 16" va] by (auto simp: bit_mask_iff)
  show ?thesis
    unfolding is_canonical_def Let_def sign zero_iff ones_iff by auto
qed

text \<open>Two canonical pages with the same path are the same page.\<close>

lemma va_bits:
  assumes "va_path va = va_path vb" and "va_slot va = va_slot vb" and "12 \<le> n" "n < 48"
  shows "bit va n = bit vb n"
proof -
  have eq: "drop_bit k va AND 0x1FF = drop_bit k vb AND 0x1FF" if "k \<in> {12, 21, 30, 39}" for k
    using that assms(1,2) by (auto simp: va_path_def va_slot_def indexes_def word_unat_eq_iff)
  obtain k j where "k \<in> {12, 21, 30, 39}" "j < 9" "n = k + j"
  proof -
    have "n = 12 + (n - 12)" "n = 21 + (n - 21) \<or> n < 21" "n = 30 + (n - 30) \<or> n < 30" "n = 39 + (n - 39) \<or> n < 39"
      using assms(3) by auto
    then consider "n < 21" | "21 \<le> n" "n < 30" | "30 \<le> n" "n < 39" | "39 \<le> n" by linarith
    then show thesis
    proof cases
      case 1 then show ?thesis using that [of 12 "n - 12"] assms(3) by simp
    next
      case 2 then show ?thesis using that [of 21 "n - 21"] by simp
    next
      case 3 then show ?thesis using that [of 30 "n - 30"] by simp
    next
      case 4 then show ?thesis using that [of 39 "n - 39"] assms(4) by simp
    qed
  qed
  then show ?thesis using eq bit_index by metis
qed

lemma va_path_inj:
  assumes "is_canonical va" "is_canonical vb" and "va mod PAGE_SIZE = 0" "vb mod PAGE_SIZE = 0"
    and "va_path va = va_path vb" "va_slot va = va_slot vb"
  shows "va = vb"
proof (rule bit_word_eqI)
  fix n
  assume n: "n < LENGTH(64)"
  consider "n < 12" | "12 \<le> n" "n < 48" | "48 \<le> n" "n < 64" using n by fastforce
  then show "bit va n = bit vb n"
  proof cases
    case 1 then show ?thesis using assms(3,4) by (simp add: aligned_iff_bits)
  next
    case 2 then show ?thesis by (rule va_bits [OF assms(5,6)])
  next
    case 3
    then show ?thesis using assms(1,2) va_bits [OF assms(5,6), of 47] by (simp add: is_canonical_bits)
  qed
qed

text \<open>The page of an address.\<close>

definition page_base :: "u64 \<Rightarrow> u64" where
  "page_base va = va AND NOT 0xFFF"

lemma bit_page_base: "bit (page_base va) n \<longleftrightarrow> bit va n \<and> 12 \<le> n"
proof -
  have "page_base va = va AND NOT (mask 12)" by (simp add: page_base_def mask_eq_exp_minus_1)
  then show ?thesis
    by (auto simp: bit_and_iff bit_not_iff bit_mask_iff dest: bit_imp_le_length)
qed

lemma page_base_aligned: "page_base va mod PAGE_SIZE = 0"
  by (simp add: aligned_iff_bits bit_page_base)

lemma page_base_canonical: "is_canonical (page_base va) = is_canonical va"
  by (simp add: is_canonical_bits bit_page_base)

lemma page_base_index: "12 \<le> k \<Longrightarrow> drop_bit k (page_base va) = drop_bit k va"
  by (rule bit_word_eqI) (auto simp: bit_drop_bit_eq bit_page_base)

lemma page_base_path: "va_path (page_base va) = va_path va" "va_slot (page_base va) = va_slot va"
  by (simp_all add: va_path_def va_slot_def indexes_def page_base_index)

end
