(* ===== verification/Virtual_Memory.thy ===== *)
theory Virtual_Memory
  imports Paging
begin

text \<open>
  The page tables as a map from virtual pages to physical pages and access rights, and the proof
  that \<open>map\<close>, \<open>unmap\<close> and \<open>translate\<close> of \<open>memory/page_table.rs\<close> implement it.
\<close>

section \<open>The abstract address space\<close>

type_synonym pages = "u64 \<rightharpoonup> u64 \<times> bool \<times> bool"

definition page_ok :: "u64 \<Rightarrow> bool" where
  "page_ok va \<longleftrightarrow> is_canonical va \<and> va mod PAGE_SIZE = 0"

definition pages_of :: "memory \<Rightarrow> u64 \<Rightarrow> pages" where
  "pages_of mem r va = (if page_ok va
     then map_option (\<lambda>e. (entry_address e, bit e 1, bit e 2)) (leaf mem r (va_path va) (va_slot va)) else None)"

lemma grows_pages: "grows r s s' \<Longrightarrow> pages_of (fst s') r = pages_of (fst s) r"
  by (rule ext) (simp add: pages_of_def growsD(5) va_path_ok)

lemma pages_of_write:
  assumes tree: "vtree mem r F" and va: "page_ok va" and t: "descend mem r (va_path va) = Some t"
  shows "pages_of (mem(entry_addr t (va_slot va) := v)) r
       = (pages_of mem r)(va := if bit v 0 then Some (entry_address v, bit v 1, bit v 2) else None)"
proof
  fix vb
  let ?m = "mem(entry_addr t (va_slot va) := v)"
  have leaf: "leaf ?m r (va_path vb) (va_slot vb)
      = (if va_path vb = va_path va \<and> va_slot vb = va_slot va then if bit v 0 then Some v else None
         else leaf mem r (va_path vb) (va_slot vb))"
    using write_leaf(3) [OF tree va_path_ok(1,2) t va_path_ok(3)] va_path_ok by blast
  show "pages_of ?m r vb = ((pages_of mem r)(va := if bit v 0 then Some (entry_address v, bit v 1, bit v 2) else None)) vb"
  proof (cases "vb = va")
    case True
    then show ?thesis using leaf va by (simp add: pages_of_def)
  next
    case False
    then have "page_ok vb \<Longrightarrow> \<not> (va_path vb = va_path va \<and> va_slot vb = va_slot va)"
      using va va_path_inj [of vb va] unfolding page_ok_def by metis
    with False leaf show ?thesis by (auto simp: pages_of_def)
  qed
qed

section \<open>Access rights\<close>

text \<open>A leaf that grants a right has it granted by every link above it.\<close>

definition rights :: "memory \<Rightarrow> u64 \<Rightarrow> bool" where
  "rights mem r \<longleftrightarrow> (\<forall>p l e n. is_path p \<longrightarrow> length p = 3 \<longrightarrow> l < 512 \<longrightarrow> leaf mem r p l = Some e
     \<longrightarrow> n = 1 \<or> n = 2 \<longrightarrow> bit e n \<longrightarrow> link_bits mem r [] p n)"

lemma link_bits_grows:
  assumes g: "grows r s s'" and p: "is_path p" and d: "descend (fst s) r p = Some t"
    and bits: "link_bits (fst s) r [] p n"
  shows "link_bits (fst s') r [] p n"
  unfolding link_bits_def
proof (intro allI impI)
  fix q i rest x
  assume split: "p = q @ i # rest" and x: "descend (fst s') r ([] @ q) = Some x"
  have q: "is_path q" "length q \<le> 2" "i < 512" using p split by (auto simp: is_path_def)
  obtain y where y: "descend (fst s) r q = Some y" "bit (fst s (entry_addr y i)) 0"
    using d split by (auto simp: descend_append Let_def split: Option.bind_splits if_splits)
  then have "x = y" using growsD(4) [OF g q(1) y(1)] x by simp
  then show "bit (fst s' (entry_addr x i)) n"
    using growsD(6) [OF g q(1,2) y(1) q(3) y(2)] bits split y(1) by (auto simp: link_bits_def)
qed

lemma rights_grows:
  assumes g: "grows r s s'" and "rights (fst s) r"
  shows "rights (fst s') r"
  unfolding rights_def
proof (intro allI impI)
  fix p l e n
  assume p: "is_path p" "length p = 3" "l < 512" and e: "leaf (fst s') r p l = Some e" "n = 1 \<or> n = 2" "bit e n"
  have e': "leaf (fst s) r p l = Some e" using growsD(5) [OF g p] e(1) by simp
  then obtain t where "descend (fst s) r p = Some t" by (auto simp: leaf_def split: option.splits)
  then show "link_bits (fst s') r [] p n"
    using link_bits_grows [OF g p(1)] assms(2) p e' e(2,3) unfolding rights_def by blast
qed

lemma link_bits_write_leaf:
  assumes tree: "vtree mem r F" and p: "is_path p" "length p = 3" "descend mem r p = Some t" "l < 512"
    and q: "is_path q"
  shows "link_bits (mem(entry_addr t l := v)) r [] q n \<longleftrightarrow> link_bits mem r [] q n"
proof -
  let ?m = "mem(entry_addr t l := v)"
  have "descend ?m r q1 = descend mem r q1 \<and>
      (descend mem r q1 = Some x \<longrightarrow> ?m (entry_addr x i) = mem (entry_addr x i))"
    if "q = q1 @ i # rest" for q1 i rest x
  proof -
    have "is_path q1" "length q1 \<le> 2" "i < 512" using q that by (auto simp: is_path_def)
    then show ?thesis using write_leaf(1,5) [OF tree p] by blast
  qed
  then show ?thesis unfolding link_bits_def append_Nil by metis
qed

lemma rights_write_leaf:
  assumes tree: "vtree mem r F" and p: "is_path p" "length p = 3" "descend mem r p = Some t" "l < 512"
    and old: "rights mem r" and new: "\<And>n. n = 1 \<or> n = 2 \<Longrightarrow> bit v 0 \<Longrightarrow> bit v n \<Longrightarrow> link_bits mem r [] p n"
  shows "rights (mem(entry_addr t l := v)) r"
  unfolding rights_def
proof (intro allI impI)
  fix q m e n
  assume q: "is_path q" "length q = 3" "m < 512" and e: "leaf (mem(entry_addr t l := v)) r q m = Some e"
    "n = 1 \<or> n = 2" "bit e n"
  have "link_bits mem r [] q n"
  proof (cases "q = p \<and> m = l")
    case True
    then show ?thesis using e new write_leaf(3) [OF tree p q, of v] by (auto split: if_splits)
  next
    case False
    then have "leaf mem r q m = Some e" using e(1) write_leaf(3) [OF tree p q, of v] by auto
    then show ?thesis using old q e(2,3) unfolding rights_def by blast
  qed
  then show "link_bits (mem(entry_addr t l := v)) r [] q n"
    using link_bits_write_leaf [OF tree p q(1)] by blast
qed

section \<open>Steps of the virtual memory\<close>

definition vm_ok :: "u64 \<Rightarrow> vm_state \<Rightarrow> bool" where
  "vm_ok r s \<longleftrightarrow> vm_inv r s \<and> rights (fst s) r"

text \<open>
  What every operation keeps: the invariants; frames only move from the free to the handed-out ones,
  those that do are the new tables, and nothing but tables is written.
\<close>

definition vm_step :: "u64 \<Rightarrow> vm_state \<Rightarrow> vm_state \<Rightarrow> bool" where
  "vm_step r s s' \<longleftrightarrow> vm_ok r s'
   \<and> avail_frames (snd s') \<subseteq> avail_frames (snd s)
   \<and> held_frames (snd s') = held_frames (snd s) \<union> (avail_frames (snd s) - avail_frames (snd s'))
   \<and> tables (fst s) r \<subseteq> tables (fst s') r
   \<and> tables (fst s') r = tables (fst s) r \<union> (avail_frames (snd s) - avail_frames (snd s'))
   \<and> (\<forall>a. fst s' a \<noteq> fst s a \<longrightarrow> (\<exists>t i. t \<in> tables (fst s') r \<and> i < 512 \<and> a = entry_addr t i))"

lemma vm_step_refl: "vm_ok r s \<Longrightarrow> vm_step r s s"
  by (simp add: vm_step_def)

lemma vm_step_trans:
  assumes "vm_step r s1 s2" and "vm_step r s2 s3"
  shows "vm_step r s1 s3"
proof -
  have A: "avail_frames (snd s2) \<subseteq> avail_frames (snd s1)"
      "held_frames (snd s2) = held_frames (snd s1) \<union> (avail_frames (snd s1) - avail_frames (snd s2))"
      "tables (fst s1) r \<subseteq> tables (fst s2) r"
      "tables (fst s2) r = tables (fst s1) r \<union> (avail_frames (snd s1) - avail_frames (snd s2))"
      "\<And>a. fst s2 a \<noteq> fst s1 a \<Longrightarrow> \<exists>t i. t \<in> tables (fst s2) r \<and> i < 512 \<and> a = entry_addr t i"
    and B: "vm_ok r s3" "avail_frames (snd s3) \<subseteq> avail_frames (snd s2)"
      "held_frames (snd s3) = held_frames (snd s2) \<union> (avail_frames (snd s2) - avail_frames (snd s3))"
      "tables (fst s2) r \<subseteq> tables (fst s3) r"
      "tables (fst s3) r = tables (fst s2) r \<union> (avail_frames (snd s2) - avail_frames (snd s3))"
      "\<And>a. fst s3 a \<noteq> fst s2 a \<Longrightarrow> \<exists>t i. t \<in> tables (fst s3) r \<and> i < 512 \<and> a = entry_addr t i"
    using assms unfolding vm_step_def by blast+
  have "\<exists>t i. t \<in> tables (fst s3) r \<and> i < 512 \<and> a = entry_addr t i" if "fst s3 a \<noteq> fst s1 a" for a
    using that A(5) [of a] B(6) [of a] B(4) by (cases "fst s2 a = fst s1 a") auto
  moreover have "held_frames (snd s3) = held_frames (snd s1) \<union> (avail_frames (snd s1) - avail_frames (snd s3))"
    using A(1,2) B(2,3) by blast
  moreover have "tables (fst s3) r = tables (fst s1) r \<union> (avail_frames (snd s1) - avail_frames (snd s3))"
    unfolding B(5) A(4) using A(1) B(2) by blast
  ultimately show ?thesis using A(1,3) B(1,2,4) unfolding vm_step_def by blast
qed

lemma grows_step: "grows r s s' \<Longrightarrow> vm_ok r s \<Longrightarrow> vm_step r s s'"
  using growsD [of r s s'] rights_grows [of r s s'] unfolding vm_step_def vm_ok_def by blast

lemma write_leaf_step:
  assumes ok: "vm_ok r s" and t: "descend (fst s) r (va_path va) = Some t"
    and new: "\<And>n. n = 1 \<or> n = 2 \<Longrightarrow> bit v 0 \<Longrightarrow> bit v n \<Longrightarrow> link_bits (fst s) r [] (va_path va) n"
  shows "vm_step r s ((fst s)(entry_addr t (va_slot va) := v), snd s)"
proof -
  let ?m = "(fst s)(entry_addr t (va_slot va) := v)"
  have tree: "vtree (fst s) r (avail_frames (snd s))" using ok by (simp add: vm_ok_def vm_inv_def)
  note W = write_leaf [OF tree va_path_ok(1,2) t va_path_ok(3), where v = v]
  have "rights ?m r"
    using ok new by (intro rights_write_leaf [OF tree va_path_ok(1,2) t va_path_ok(3)]) (auto simp: vm_ok_def)
  then have "vm_ok r (?m, snd s)" using ok W(2) by (simp add: vm_ok_def vm_inv_def)
  moreover have "t \<in> tables (fst s) r" using t va_path_ok by (auto simp: tables_def)
  ultimately show ?thesis using W(4) va_path_ok(3) [of va] by (auto simp: vm_step_def intro!: exI [of _ t])
qed

section \<open>Mapping a page\<close>

definition map_args_ok :: "u64 \<Rightarrow> u64 \<Rightarrow> bool" where
  "map_args_ok va pa \<longleftrightarrow> page_ok va \<and> page_frame pa"

lemma PageTable_map_eq:
  assumes "map_args_ok va pa"
  shows "PageTable_map r va pa w u s = do {
     (x, s) \<leftarrow> ensure_tables r (va_path va) w u s;
     (case x of Inl e \<Rightarrow> ret (Inl e, s) | Inr pt \<Rightarrow> do {
        pte \<leftarrow> read_entry (fst s) pt (va_slot va);
        if pte AND PRESENT \<noteq> 0 then ret (Inl AlreadyMapped, s)
        else do {
          mem \<leftarrow> write_entry (fst s) pt (va_slot va) (make_entry pa w u);
          ret (Inr (), mem, snd s) } }) }"
proof -
  obtain a b c d where i: "indexes va = (a, b, c, d)" by (metis prod_cases4)
  show ?thesis
    using assms i
    by (auto simp: PageTable_map_def map_args_ok_def page_ok_def page_frame_def va_path_def va_slot_def not_less
        split: Option.bind_splits sum.splits)
qed

lemma PageTable_map_cases:
  assumes vm: "vm_ok r s" and args: "map_args_ok va pa"
  obtains (oom) s' where "PageTable_map r va pa w u s = ret (Inl OutOfPhysicalMemory, s')" and "vm_step r s s'"
      and "pages_of (fst s') r = pages_of (fst s) r" and "card (avail_frames (snd s)) < 3"
  | (mapped) s' where "PageTable_map r va pa w u s = ret (Inl AlreadyMapped, s')" and "vm_step r s s'"
      and "pages_of (fst s') r = pages_of (fst s) r" and "pages_of (fst s) r va \<noteq> None"
  | (ok) s' where "PageTable_map r va pa w u s = ret (Inr (), s')" and "vm_step r s s'"
      and "pages_of (fst s) r va = None" and "pages_of (fst s') r = (pages_of (fst s) r)(va \<mapsto> (pa, w, u))"
proof -
  have va: "page_ok va" and pa: "page_frame pa" using args by (simp_all add: map_args_ok_def)
  have inv: "vm_inv r s" using vm by (simp add: vm_ok_def)
  note eq = PageTable_map_eq [OF args, of r w u s]
  have "is_path ([] @ va_path va)" "descend (fst s) r [] = Some r" using va_path_ok(1) by simp_all
  from ensure_tables_cases [OF inv this, of w u] consider
    (1) s' where "ensure_tables r (va_path va) w u s = ret (Inl OutOfPhysicalMemory, s')" "grows r s s'"
        "card (avail_frames (snd s)) < 3"
  | (2) t s' where "ensure_tables r (va_path va) w u s = ret (Inr t, s')" "grows r s s'"
        "descend (fst s') r (va_path va) = Some t"
        "w \<longrightarrow> link_bits (fst s') r [] (va_path va) 1" "u \<longrightarrow> link_bits (fst s') r [] (va_path va) 2"
    using va_path_ok(2) by fastforce
  then show thesis
  proof cases
    case 1
    then show thesis using oom [of s'] eq grows_step [OF 1(2) vm] grows_pages [OF 1(2)] by simp
  next
    case 2
    let ?e = "fst s' (entry_addr t (va_slot va))"
    have step: "vm_step r s s'" and pages: "pages_of (fst s') r = pages_of (fst s) r"
      using grows_step [OF 2(2) vm] grows_pages [OF 2(2)] by blast+
    have leaf: "pages_of (fst s') r va = None \<longleftrightarrow> \<not> bit ?e 0"
      using 2(3) va by (simp add: pages_of_def leaf_def)
    show thesis
    proof (cases "bit ?e 0")
      case True
      then show thesis
        using mapped [of s'] eq 2(1) step pages leaf va_path_ok(3) by (simp add: read_entry_def)
    next
      case False
      let ?s = "((fst s')(entry_addr t (va_slot va) := make_entry pa w u), snd s')"
      have run: "PageTable_map r va pa w u s = ret (Inr (), ?s)"
        using False eq 2(1) va_path_ok(3) by (simp add: read_entry_def write_entry_def)
      have ok': "vm_ok r s'" using step by (simp add: vm_step_def)
      have "vm_step r s' ?s"
        using 2(4,5) by (intro write_leaf_step [OF ok' 2(3)]) (auto simp: bit_make_entry)
      moreover have "pages_of (fst ?s) r = (pages_of (fst s) r)(va \<mapsto> (pa, w, u))"
        using pages_of_write [OF _ va 2(3), of "avail_frames (snd s')" "make_entry pa w u"] ok' pages pa
        by (simp add: vm_ok_def vm_inv_def bit_make_entry entry_address_make_entry)
      ultimately show thesis
        using ok [of ?s] run vm_step_trans [OF step] pages leaf False by simp
    qed
  qed
qed

section \<open>Unmapping and translating\<close>

text \<open>The entries that a walk of a canonical page reads.\<close>

lemma va_walk:
  fixes mem r va
  obtains a b c where "va_path va = [a, b, c]" and "indexes va = (a, b, c, va_slot va)"
    and "a < 512" "b < 512" "c < 512" "va_slot va < 512"
proof -
  obtain a b c d where i: "indexes va = (a, b, c, d)" by (metis prod_cases4)
  then have "va_path va = [a, b, c]" "va_slot va = d" by (simp_all add: va_path_def va_slot_def)
  with i that va_path_ok(1,3) [of va] show thesis by (simp add: is_path_def)
qed

text \<open>On a tree without huge pages the walk of \<open>translate\<close> and \<open>unmap\<close> is that of \<open>descend\<close>.\<close>

lemma walk_not_huge:
  assumes tree: "vtree mem r F" and abc: "a < 512" "b < 512" "c < 512"
    and e1: "bit (mem (entry_addr r a)) 0"
  defines "t1 \<equiv> entry_address (mem (entry_addr r a))"
  shows "bit (mem (entry_addr t1 b)) 0 \<Longrightarrow> \<not> bit (mem (entry_addr t1 b)) 7"
    and "bit (mem (entry_addr t1 b)) 0 \<Longrightarrow> bit (mem (entry_addr (entry_address (mem (entry_addr t1 b))) c)) 0
      \<Longrightarrow> \<not> bit (mem (entry_addr (entry_address (mem (entry_addr t1 b))) c)) 7"
proof -
  have 1: "descend mem r [a] = Some t1" using e1 by (simp add: t1_def)
  show "\<not> bit (mem (entry_addr t1 b)) 7" if "bit (mem (entry_addr t1 b)) 0"
    using vtree_huge [OF tree _ _ _ 1 abc(2) that] abc(1) by (simp add: is_path_def)
  show "\<not> bit (mem (entry_addr (entry_address (mem (entry_addr t1 b))) c)) 7"
    if "bit (mem (entry_addr t1 b)) 0" "bit (mem (entry_addr (entry_address (mem (entry_addr t1 b))) c)) 0"
  proof -
    have 2: "descend mem r [a, b] = Some (entry_address (mem (entry_addr t1 b)))"
      using e1 that(1) by (simp add: t1_def Let_def)
    show ?thesis using vtree_huge [OF tree _ _ _ 2 abc(3) that(2)] abc by (simp add: is_path_def)
  qed
qed

lemma PageTable_unmap_eq:
  assumes tree: "vtree mem r F" and va: "page_ok va"
  shows "(\<exists>t. descend mem r (va_path va) = Some t \<and> bit (mem (entry_addr t (va_slot va))) 0
      \<and> PageTable_unmap r va mem = ret (Inr (entry_address (mem (entry_addr t (va_slot va)))),
          mem(entry_addr t (va_slot va) := 0)))
    \<or> (\<exists>e. e \<in> {Pml4NotPresent, PdptNotPresent, PdNotPresent, NotMapped}
      \<and> PageTable_unmap r va mem = ret (Inl e, mem) \<and> leaf mem r (va_path va) (va_slot va) = None)"
proof -
  obtain a b c where p: "va_path va = [a, b, c]" and i: "indexes va = (a, b, c, va_slot va)"
    and lt: "a < 512" "b < 512" "c < 512" "va_slot va < 512" by (rule va_walk)
  show ?thesis
    using va lt i walk_not_huge [OF tree lt(1-3)]
    by (auto simp: PageTable_unmap_def page_ok_def p read_entry_def write_entry_def leaf_def Let_def
        split: if_splits)
qed

lemma PageTable_unmap_cases:
  assumes vm: "vm_ok r s" and va: "page_ok va"
  obtains (ok) pa w u mem' where "PageTable_unmap r va (fst s) = ret (Inr pa, mem')"
      and "pages_of (fst s) r va = Some (pa, w, u)" and "vm_step r s (mem', snd s)"
      and "pages_of mem' r = (pages_of (fst s) r)(va := None)"
  | (absent) e where "PageTable_unmap r va (fst s) = ret (Inl e, fst s)"
      and "e \<in> {Pml4NotPresent, PdptNotPresent, PdNotPresent, NotMapped}" and "pages_of (fst s) r va = None"
proof -
  have tree: "vtree (fst s) r (avail_frames (snd s))" using vm by (simp add: vm_ok_def vm_inv_def)
  from PageTable_unmap_eq [OF tree va] show thesis
  proof (elim disjE exE conjE)
    fix t
    let ?e = "fst s (entry_addr t (va_slot va))" and ?m = "(fst s)(entry_addr t (va_slot va) := 0)"
    assume t: "descend (fst s) r (va_path va) = Some t" and e: "bit ?e 0"
      and run: "PageTable_unmap r va (fst s) = ret (Inr (entry_address ?e), ?m)"
    have "pages_of (fst s) r va = Some (entry_address ?e, bit ?e 1, bit ?e 2)"
      using t e va by (simp add: pages_of_def leaf_def)
    moreover have "vm_step r s (?m, snd s)" by (rule write_leaf_step [OF vm t]) simp
    moreover have "pages_of ?m r = (pages_of (fst s) r)(va := None)"
      using pages_of_write [OF tree va t, of 0] by simp
    ultimately show thesis using ok run by blast
  next
    fix e
    assume "e \<in> {Pml4NotPresent, PdptNotPresent, PdNotPresent, NotMapped}"
      and "PageTable_unmap r va (fst s) = ret (Inl e, fst s)" and "leaf (fst s) r (va_path va) (va_slot va) = None"
    then show thesis using absent by (simp add: pages_of_def)
  qed
qed

lemma padd_page_offset:
  "checked_add (entry_address e) (va AND 0xFFF) = ret (entry_address e + (va AND 0xFFF))"
proof -
  have "entry_address e \<le> ADDRESS_MASK" "va AND 0xFFF \<le> 0xFFF"
    by (simp_all only: entry_address_def word_and_le1)
  then have "unat (entry_address e) \<le> unat ADDRESS_MASK" "unat (va AND 0xFFF) \<le> unat (0xFFF :: u64)"
    by (simp_all only: word_le_nat_alt)
  then show ?thesis by (simp add: checked_add_def ADDRESS_MASK_def)
qed

lemma PageTable_translate_eq:
  assumes tree: "vtree mem r F"
  shows "PageTable_translate mem r va = ret (if is_canonical va
     then map_option (\<lambda>(pa, _). pa + (va AND 0xFFF)) (pages_of mem r (page_base va)) else None)"
proof (cases "is_canonical va")
  case True
  obtain a b c where p: "va_path va = [a, b, c]" and i: "indexes va = (a, b, c, va_slot va)"
    and lt: "a < 512" "b < 512" "c < 512" "va_slot va < 512" by (rule va_walk)
  have "page_ok (page_base va)" using True by (simp add: page_ok_def page_base_canonical page_base_aligned)
  then have "pages_of mem r (page_base va)
      = map_option (\<lambda>e. (entry_address e, bit e 1, bit e 2)) (leaf mem r [a, b, c] (va_slot va))"
    using p by (simp add: pages_of_def page_base_path)
  then show ?thesis
    using True lt i walk_not_huge [OF tree lt(1-3)]
    by (auto simp: PageTable_translate_def read_entry_def leaf_def Let_def padd_page_offset split: if_splits)
qed (simp add: PageTable_translate_def)

section \<open>The rights the processor grants\<close>

text \<open>
  The four entries a walk of the processor reads; an access needs its right in each of them (bit 1
  for writes, bit 2 for user mode).
\<close>

definition walk_entries :: "memory \<Rightarrow> u64 \<Rightarrow> u64 \<Rightarrow> u64 list" where
  "walk_entries mem cr3 va = (case indexes va of (a, b, c, d) \<Rightarrow>
     let e4 = mem (entry_addr cr3 a); e3 = mem (entry_addr (entry_address e4) b);
         e2 = mem (entry_addr (entry_address e3) c); e1 = mem (entry_addr (entry_address e2) d)
     in [e4, e3, e2, e1])"

definition walk_grants :: "memory \<Rightarrow> u64 \<Rightarrow> u64 \<Rightarrow> nat \<Rightarrow> bool" where
  "walk_grants mem cr3 va n \<longleftrightarrow> list_all (\<lambda>e. bit e 0 \<and> bit e n) (walk_entries mem cr3 va)"

lemma walk_grants_page:
  assumes vm: "vm_ok r s" and page: "pages_of (fst s) r va = Some (pa, w, u)"
  shows "walk_grants (fst s) r va 1 = w" and "walk_grants (fst s) r va 2 = u"
proof -
  obtain a b c where p: "va_path va = [a, b, c]" and i: "indexes va = (a, b, c, va_slot va)"
    by (rule va_walk)
  let ?e4 = "fst s (entry_addr r a)" let ?e3 = "fst s (entry_addr (entry_address ?e4) b)"
  let ?e2 = "fst s (entry_addr (entry_address ?e3) c)"
  obtain e where e: "leaf (fst s) r [a, b, c] (va_slot va) = Some e" "w = bit e 1" "u = bit e 2"
    using page p by (auto simp: pages_of_def split: if_splits)
  then have walk: "bit ?e4 0" "bit ?e3 0" "bit ?e2 0" "fst s (entry_addr (entry_address ?e2) (va_slot va)) = e" "bit e 0"
    by (auto simp: leaf_def Let_def split: if_splits option.splits)
  have "bit ?e4 n \<and> bit ?e3 n \<and> bit ?e2 n" if "n = 1 \<or> n = 2" "bit e n" for n
  proof -
    have "link_bits (fst s) r [] [a, b, c] n"
      using vm that e(1) va_path_ok [of va] unfolding vm_ok_def rights_def p by blast
    then have L: "\<And>q i rest t. [a, b, c] = q @ i # rest \<Longrightarrow> descend (fst s) r q = Some t \<Longrightarrow> bit (fst s (entry_addr t i)) n"
      unfolding link_bits_def append_Nil by blast
    show ?thesis
      using L [of "[]" a "[b, c]" r] L [of "[a]" b "[c]"] L [of "[a, b]" c "[]"] walk by (simp add: Let_def)
  qed
  then show "walk_grants (fst s) r va 1 = w" and "walk_grants (fst s) r va 2 = u"
    using walk e(2,3) i by (auto simp: walk_grants_def walk_entries_def Let_def)
qed

lemma walk_grants_mapped:
  assumes "page_ok va" and "walk_grants mem r va n"
  shows "pages_of mem r va \<noteq> None"
proof -
  obtain a b c where p: "va_path va = [a, b, c]" and i: "indexes va = (a, b, c, va_slot va)" by (rule va_walk)
  show ?thesis using assms i by (simp add: pages_of_def p leaf_def walk_grants_def walk_entries_def Let_def)
qed

lemma walk_grants_exact:
  assumes "vm_ok r s" and "page_ok va"
  shows "walk_grants (fst s) r va 0 \<longleftrightarrow> pages_of (fst s) r va \<noteq> None"
    and "walk_grants (fst s) r va 1 \<longleftrightarrow> (\<exists>pa u. pages_of (fst s) r va = Some (pa, True, u))"
    and "walk_grants (fst s) r va 2 \<longleftrightarrow> (\<exists>pa w. pages_of (fst s) r va = Some (pa, w, True))"
proof -
  have present: "walk_grants (fst s) r va 0" if "pages_of (fst s) r va \<noteq> None"
  proof -
    obtain a b c where "va_path va = [a, b, c]" "indexes va = (a, b, c, va_slot va)" by (rule va_walk)
    with that show ?thesis
      by (auto simp: pages_of_def leaf_def walk_grants_def walk_entries_def Let_def split: if_splits option.splits)
  qed
  show "walk_grants (fst s) r va 0 \<longleftrightarrow> pages_of (fst s) r va \<noteq> None"
    using present walk_grants_mapped [OF assms(2)] by blast
  show "walk_grants (fst s) r va 1 \<longleftrightarrow> (\<exists>pa u. pages_of (fst s) r va = Some (pa, True, u))"
    and "walk_grants (fst s) r va 2 \<longleftrightarrow> (\<exists>pa w. pages_of (fst s) r va = Some (pa, w, True))"
    using walk_grants_mapped [OF assms(2)] walk_grants_page [OF assms(1)] by fastforce+
qed

section \<open>Specification\<close>

datatype VmOp = MapPage u64 u64 bool bool | UnmapPage u64

datatype VmAnswer = Mapped "KernelError + unit" | Unmapped "KernelError + u64"

fun vm_exec :: "u64 \<Rightarrow> VmOp \<Rightarrow> vm_state \<Rightarrow> (VmAnswer \<times> vm_state) run" where
  "vm_exec r (MapPage va pa w u) s = do { (x, s') \<leftarrow> PageTable_map r va pa w u s; ret (Mapped x, s') }"
| "vm_exec r (UnmapPage va) s =
     do { (x, mem) \<leftarrow> PageTable_unmap r va (fst s); ret (Unmapped x, mem, snd s) }"

inductive vm_spec :: "VmOp \<Rightarrow> pages \<Rightarrow> VmAnswer \<Rightarrow> pages \<Rightarrow> bool" where
  map_ok: "map_args_ok va pa \<Longrightarrow> m va = None \<Longrightarrow>
     vm_spec (MapPage va pa w u) m (Mapped (Inr ())) (m(va \<mapsto> (pa, w, u)))"
| map_again: "map_args_ok va pa \<Longrightarrow> m va \<noteq> None \<Longrightarrow>
     vm_spec (MapPage va pa w u) m (Mapped (Inl AlreadyMapped)) m"
| map_oom: "map_args_ok va pa \<Longrightarrow> vm_spec (MapPage va pa w u) m (Mapped (Inl OutOfPhysicalMemory)) m"
| map_refused: "\<not> map_args_ok va pa \<Longrightarrow>
     e \<in> {VirtualNotCanonical, VirtualNotAligned, PhysicalNotAligned, PhysicalOutOfRange} \<Longrightarrow>
     vm_spec (MapPage va pa w u) m (Mapped (Inl e)) m"
| unmap_ok: "m va = Some (pa, w, u) \<Longrightarrow> vm_spec (UnmapPage va) m (Unmapped (Inr pa)) (m(va := None))"
| unmap_absent: "page_ok va \<Longrightarrow> m va = None \<Longrightarrow>
     e \<in> {Pml4NotPresent, PdptNotPresent, PdNotPresent, NotMapped} \<Longrightarrow>
     vm_spec (UnmapPage va) m (Unmapped (Inl e)) m"
| unmap_refused: "\<not> page_ok va \<Longrightarrow> e \<in> {VirtualNotCanonical, VirtualNotAligned} \<Longrightarrow>
     vm_spec (UnmapPage va) m (Unmapped (Inl e)) m"

lemma PageTable_map_refused:
  assumes "\<not> map_args_ok va pa"
  shows "\<exists>e. e \<in> {VirtualNotCanonical, VirtualNotAligned, PhysicalNotAligned, PhysicalOutOfRange}
    \<and> PageTable_map r va pa w u s = ret (Inl e, s)"
  using assms by (auto simp: PageTable_map_def map_args_ok_def page_ok_def page_frame_def not_le)

lemma PageTable_unmap_refused:
  assumes "\<not> page_ok va"
  shows "\<exists>e. e \<in> {VirtualNotCanonical, VirtualNotAligned} \<and> PageTable_unmap r va mem = ret (Inl e, mem)"
  using assms by (auto simp: PageTable_unmap_def page_ok_def)

lemma vm_exec_refines:
  assumes vm: "vm_ok r s"
  shows "\<exists>x s'. vm_exec r a s = ret (x, s') \<and> vm_step r s s'
    \<and> vm_spec a (pages_of (fst s) r) x (pages_of (fst s') r)"
proof (cases a)
  case (MapPage va pa w u)
  show ?thesis
  proof (cases "map_args_ok va pa")
    case False
    then show ?thesis
      using PageTable_map_refused [OF False, of r w u s] vm_step_refl [OF vm] vm_spec.map_refused MapPage by fastforce
  next
    case True
    show ?thesis
      using vm True
    proof (cases rule: PageTable_map_cases [where w = w and u = u])
      case (oom s')
      then show ?thesis using MapPage vm_spec.map_oom [OF True] by auto
    next
      case (mapped s')
      then show ?thesis using MapPage vm_spec.map_again [OF True] by auto
    next
      case (ok s')
      then show ?thesis using MapPage vm_spec.map_ok [OF True] by auto
    qed
  qed
next
  case (UnmapPage va)
  show ?thesis
  proof (cases "page_ok va")
    case False
    then show ?thesis
      using PageTable_unmap_refused [OF False, of r "fst s"] vm_step_refl [OF vm] vm_spec.unmap_refused UnmapPage
      by fastforce
  next
    case True
    show ?thesis
      using vm True
    proof (cases rule: PageTable_unmap_cases)
      case (ok pa w u mem')
      then show ?thesis using UnmapPage vm_spec.unmap_ok by fastforce
    next
      case (absent e)
      then show ?thesis using UnmapPage vm_spec.unmap_absent [OF True] vm_step_refl [OF vm] by fastforce
    qed
  qed
qed

section \<open>Huge pages\<close>

text \<open>
  Outside the trees that \<open>map\<close> builds the routines are not faithful.  \<open>translate\<close> masks the base of a
  1 GiB page with \<open>0x000F_FFC0_0000_0000\<close>, which drops bits 30 to 37: the page at 1 GiB translates to 0.
\<close>

lemma translate_1GiB_base_lost:
  "PageTable_translate ((\<lambda>_. 0)(0x1000 := 0x2003, 0x2000 := 0x40000083)) 0x1000 0 = ret (Some 0)
   \<and> entry_address 0x40000083 = 0x40000000"
  by (simp add: PageTable_translate_def is_canonical_def indexes_def read_entry_def entry_addr_def
      entry_address_def ADDRESS_MASK_def PRESENT_def HUGE_PAGE_def checked_add_def)

text \<open>
  \<open>get_or_create_table\<close> does not test the huge-page bit: mapping a page below a 2 MiB page writes its
  entry into the data of that page and reports success, and the translation does not change.
\<close>

lemma map_below_huge_page:
  fixes fa :: FrameAllocator
  defines "mem \<equiv> (\<lambda>_. 0)(0x1000 := 0x2003, 0x2000 := 0x3003, 0x3000 := 0x200083) :: memory"
  shows "PageTable_map 0x1000 0 0x5000 True False (mem, fa) = ret (Inr (), mem(0x200000 := 0x5003), fa)
   \<and> PageTable_translate (mem(0x200000 := 0x5003)) 0x1000 0 = ret (Some 0x200000)"
proof
  have mem: "mem 0x1000 = 0x2003" "mem 0x2000 = 0x3003" "mem 0x3000 = 0x200083" "mem 0x200000 = 0"
    by (simp_all add: mem_def)
  have idx: "indexes 0 = (0, 0, 0, 0)" "is_canonical 0" by (simp_all add: indexes_def is_canonical_def)
  have bits: "bit (0x2003 :: u64) 0" "bit (0x3003 :: u64) 0" "bit (0x200083 :: u64) 0" by simp_all
  have addr: "entry_address 0x2003 = 0x2000" "entry_address 0x3003 = 0x3000" "entry_address 0x200083 = 0x200000"
    by (simp_all add: entry_address_def ADDRESS_MASK_def)
  have or: "(0x2003 :: u64) OR WRITABLE = 0x2003" "(0x3003 :: u64) OR WRITABLE = 0x3003"
      "(0x200083 :: u64) OR WRITABLE = 0x200083" "make_entry 0x5000 True False = 0x5003"
    by (simp_all add: WRITABLE_def make_entry_def ADDRESS_MASK_def PRESENT_def)
  have same: "mem(a := mem a) = mem" for a by simp
  show "PageTable_map 0x1000 0 0x5000 True False (mem, fa) = ret (Inr (), mem(0x200000 := 0x5003), fa)"
    by (simp add: PageTable_map_def idx get_or_create_table_def read_entry_def write_entry_def entry_addr_def
        mem bits addr or Let_def PAGE_SIZE_def ADDRESS_MASK_def fun_upd_idem)
  show "PageTable_translate (mem(0x200000 := 0x5003)) 0x1000 0 = ret (Some 0x200000)"
    by (simp add: PageTable_translate_def idx read_entry_def entry_addr_def mem bits addr checked_add_def)
qed

end
