(* ===== verification/Address_Space.thy ===== *)
theory Address_Space
  imports Virtual_Memory
begin

text \<open>
  Address spaces (\<open>memory/address_space.rs\<close>): a fresh PML4 from the physical memory manager, identity
  mappings of ranges, and activation by loading CR3; and the properties of the virtual memory over
  arbitrary sequences of \<open>map\<close> and \<open>unmap\<close> on a fresh address space.
\<close>

section \<open>Operations\<close>

record AddressSpace =
  pml4_phys :: u64

definition AddressSpace_new :: "vm_state \<Rightarrow> ((KernelError + AddressSpace) \<times> vm_state) run" where
  "AddressSpace_new s = do {
     (frame, fa) \<leftarrow> FrameAllocator_allocate_frame (snd s);
     (case frame of
        None \<Rightarrow> ret (Inl OutOfPhysicalMemory, fst s, fa)
      | Some frame \<Rightarrow> do {
          pml4 \<leftarrow> phys_to_virt frame;
          ret (Inr \<lparr>pml4_phys = frame\<rparr>, PageTable_zero pml4 (fst s), fa) }) }"

text \<open>\<open>while address < end { map(pml4, allocator, address, address, writable, false)?; address += PAGE_SIZE; }\<close>\<close>

function identity_loop :: "u64 \<Rightarrow> u64 \<Rightarrow> u64 \<Rightarrow> bool \<Rightarrow> vm_state \<Rightarrow> ((KernelError + unit) \<times> vm_state) run" where
  "identity_loop pml4 address end_addr writable s =
     (if address < end_addr then do {
        (r, s) \<leftarrow> PageTable_map pml4 address address writable False s;
        (case r of
           Inl e \<Rightarrow> ret (Inl e, s)
         | Inr _ \<Rightarrow> do {
             address \<leftarrow> padd address PAGE_SIZE;
             identity_loop pml4 address end_addr writable s }) }
      else ret (Inr (), s))"
  by auto
termination
  by (relation "measure (\<lambda>(pml4, address, end_addr, writable, s). unat end_addr - unat address)")
    (auto dest!: checked_add_SomeD(2) simp: word_less_nat_alt PAGE_SIZE_def)

declare identity_loop.simps [simp del]

definition AddressSpace_identity_map ::
  "AddressSpace \<Rightarrow> u64 \<Rightarrow> u64 \<Rightarrow> bool \<Rightarrow> vm_state \<Rightarrow> ((KernelError + unit) \<times> vm_state) run" where
  "AddressSpace_identity_map sp start end_addr writable s =
     (if start mod PAGE_SIZE \<noteq> 0 then ret (Inl IdentityStartNotAligned, s)
      else if end_addr mod PAGE_SIZE \<noteq> 0 then ret (Inl IdentityEndNotAligned, s)
      else if end_addr \<le> start then ret (Inl IdentityRangeEmpty, s)
      else do {
        pml4 \<leftarrow> phys_to_virt (pml4_phys sp);
        identity_loop pml4 start end_addr writable s })"

text \<open>Activation gives the new value of CR3.\<close>

definition AddressSpace_activate :: "AddressSpace \<Rightarrow> u64" where
  "AddressSpace_activate sp = pml4_phys sp"

section \<open>A fresh address space\<close>

lemma descend_zero: "descend (PageTable_zero r mem) r p = (if p = [] then Some r else if hd p < 512 then None
    else descend (PageTable_zero r mem) r p)"
  by (cases p) (auto simp: PageTable_zero_eq Let_def)

lemma zero_paths: "is_path p \<Longrightarrow> descend (PageTable_zero r mem) r p = (if p = [] then Some r else None)"
  using descend_zero [of r mem p] by (cases p) (auto simp: is_path_def)

lemma vm_ok_fresh:
  assumes fa: "FrameAllocator_inv fa" and r: "page_frame r" "r \<notin> avail_frames fa"
  shows "vm_ok r (PageTable_zero r mem, fa)" and "pages_of (PageTable_zero r mem) r = Map.empty"
    and "tables (PageTable_zero r mem) r = {r}"
proof -
  have empty: "leaf (PageTable_zero r mem) r p l = None" if "is_path p" "length p = 3" for p l
    using that zero_paths [OF that(1)] by (auto simp: leaf_def)
  have "vtree (PageTable_zero r mem) r (avail_frames fa)"
    unfolding vtree_def using r by (auto simp: zero_paths page_frame_def split: if_splits)
  moreover have "rights (PageTable_zero r mem) r" using empty by (simp add: rights_def)
  ultimately show "vm_ok r (PageTable_zero r mem, fa)" using fa by (simp add: vm_ok_def vm_inv_def)
  show "pages_of (PageTable_zero r mem) r = Map.empty"
    by (rule ext) (simp add: pages_of_def empty va_path_ok)
  show "tables (PageTable_zero r mem) r = {r}"
    by (auto simp: tables_def zero_paths split: if_splits intro: exI [of _ "[]"])
qed

lemma AddressSpace_new_cases:
  assumes fa: "FrameAllocator_inv fa"
  obtains (oom) "avail_frames fa = {}" and "AddressSpace_new (mem, fa) = ret (Inl OutOfPhysicalMemory, mem, fa)"
  | (ok) r fa' where "AddressSpace_new (mem, fa) = ret (Inr \<lparr>pml4_phys = r\<rparr>, PageTable_zero r mem, fa')"
      and "r \<in> avail_frames fa" and "avail_frames fa' = avail_frames fa - {r}"
      and "held_frames fa' = insert r (held_frames fa)"
      and "vm_ok r (PageTable_zero r mem, fa')" and "pages_of (PageTable_zero r mem) r = Map.empty"
  using fa
proof (cases rule: pool.alloc_cases)
  case none
  then show thesis using oom by (simp add: AddressSpace_new_def)
next
  case (some r fa')
  have "page_frame r" using pool_page_frame [OF fa] some(3) by blast
  then have "vm_ok r (PageTable_zero r mem, fa')" and "pages_of (PageTable_zero r mem) r = Map.empty"
    using vm_ok_fresh [OF some(2), of r mem] some(5) by auto
  with some show thesis using ok [of r fa'] by (simp add: AddressSpace_new_def)
qed

section \<open>Sequences of operations\<close>

fun vm_run :: "u64 \<Rightarrow> VmOp list \<Rightarrow> vm_state \<Rightarrow> (VmAnswer list \<times> vm_state) run" where
  "vm_run r [] s = ret ([], s)"
| "vm_run r (a # as) s = do {
     (x, s) \<leftarrow> vm_exec r a s;
     (xs, s) \<leftarrow> vm_run r as s;
     ret (x # xs, s) }"

lemma vm_run_total:
  "vm_ok r s \<Longrightarrow> \<exists>xs s'. vm_run r as s = ret (xs, s') \<and> vm_step r s s'"
proof (induction as arbitrary: s)
  case Nil
  then show ?case by (simp add: vm_step_refl)
next
  case (Cons a as)
  obtain x s1 where 1: "vm_exec r a s = ret (x, s1)" "vm_step r s s1"
    using vm_exec_refines [OF Cons.prems] by blast
  have "vm_ok r s1" using 1(2) by (simp add: vm_step_def)
  from Cons.IH [OF this] 1 show ?case using vm_step_trans by fastforce
qed

text \<open>What a booted kernel has after creating an address space and running operations on it.\<close>

lemma vm_created:
  assumes init: "FrameAllocator_initialize es ks ke = ret fa0" "FrameAllocator_calls calls fa0 = ret (rs, fa)"
    and new: "AddressSpace_new (mem, fa) = ret (Inr \<lparr>pml4_phys = r\<rparr>, s0)" and run: "vm_run r as s0 = ret (xs, s)"
  shows "vm_ok r s0" and "vm_ok r s" and "pages_of (fst s0) r = Map.empty"
    and "avail_frames fa \<union> held_frames fa = frame_address ` usable_memory es ks ke"
    and "tables (fst s) r = avail_frames fa - avail_frames (snd s)"
    and "held_frames (snd s) = held_frames fa \<union> tables (fst s) r" and "held_frames fa \<inter> tables (fst s) r = {}"
    and "fst s a \<noteq> mem a \<Longrightarrow> \<exists>t i. t \<in> tables (fst s) r \<and> i < 512 \<and> a = entry_addr t i"
proof -
  have fa: "FrameAllocator_inv fa" using calls_pool(1) [OF init] .
  from fa new obtain fa' where s0: "s0 = (PageTable_zero r mem, fa')" "r \<in> avail_frames fa"
      "avail_frames fa' = avail_frames fa - {r}" "held_frames fa' = insert r (held_frames fa)" "vm_ok r s0"
      "pages_of (fst s0) r = Map.empty"
    by (cases rule: AddressSpace_new_cases [where mem = mem]) auto
  then show "vm_ok r s0" and "pages_of (fst s0) r = Map.empty" by blast+
  have step: "vm_step r s0 s" using vm_run_total [OF s0(5), of as] run by simp
  then show "vm_ok r s" by (simp add: vm_step_def)
  have t0: "tables (PageTable_zero r mem) r = {r}"
    using vm_ok_fresh(3) [of fa' r mem] s0 pool_page_frame [OF fa, of r] by (auto simp: vm_ok_def vm_inv_def)
  show "avail_frames fa \<union> held_frames fa = frame_address ` usable_memory es ks ke" using calls_pool(2) [OF init] .
  show t: "tables (fst s) r = avail_frames fa - avail_frames (snd s)"
    using step s0 t0 unfolding vm_step_def by auto
  then show "held_frames (snd s) = held_frames fa \<union> tables (fst s) r"
    using step s0 unfolding vm_step_def by auto
  show "held_frames fa \<inter> tables (fst s) r = {}" unfolding t using pool.disjoint [OF fa] by blast
  show "\<exists>t i. t \<in> tables (fst s) r \<and> i < 512 \<and> a = entry_addr t i" if "fst s a \<noteq> mem a"
  proof (cases "fst s a = fst s0 a")
    case True
    then have "\<exists>i < 512. a = entry_addr r i" using that s0(1) by (auto simp: PageTable_zero_eq split: if_splits)
    moreover have "r \<in> tables (fst s) r" using step s0(1) t0 unfolding vm_step_def by auto
    ultimately show ?thesis by blast
  next
    case False
    then show ?thesis using step unfolding vm_step_def by blast
  qed
qed

text \<open>The states of the virtual memory that the kernel can reach from a booted memory manager.\<close>

definition vm_reachable :: "MemoryMapEntry list \<Rightarrow> u64 \<Rightarrow> u64 \<Rightarrow> memory \<Rightarrow> VmOp list \<Rightarrow> u64 \<Rightarrow> vm_state \<Rightarrow> bool" where
  "vm_reachable es ks ke mem as r s \<longleftrightarrow>
     (\<exists>fa0 calls rs fa s0 xs. FrameAllocator_initialize es ks ke = ret fa0
        \<and> FrameAllocator_calls calls fa0 = ret (rs, fa)
        \<and> AddressSpace_new (mem, fa) = ret (Inr \<lparr>pml4_phys = r\<rparr>, s0) \<and> vm_run r as s0 = ret (xs, s))"

lemma vm_reachableI:
  "FrameAllocator_initialize es ks ke = ret fa0 \<Longrightarrow> FrameAllocator_calls calls fa0 = ret (rs, fa) \<Longrightarrow>
   AddressSpace_new (mem, fa) = ret (Inr \<lparr>pml4_phys = r\<rparr>, s0) \<Longrightarrow> vm_run r as s0 = ret (xs, s) \<Longrightarrow>
   vm_reachable es ks ke mem as r s"
  unfolding vm_reachable_def by blast

lemma vm_reachable_ok: "vm_reachable es ks ke mem as r s \<Longrightarrow> vm_ok r s"
  unfolding vm_reachable_def using vm_created(2) by blast

text \<open>
  The rights the calls asked for: the \<open>writable\<close> and \<open>user\<close> arguments of the last successful \<open>map\<close> of
  each page that no later \<open>unmap\<close> removed, read off the calls and their answers alone.
\<close>

fun asked_rights :: "(u64 \<rightharpoonup> bool \<times> bool) \<Rightarrow> VmOp list \<Rightarrow> VmAnswer list \<Rightarrow> (u64 \<rightharpoonup> bool \<times> bool)" where
  "asked_rights m (MapPage va pa w u # as) (Mapped (Inr ()) # xs) = asked_rights (m(va \<mapsto> (w, u))) as xs"
| "asked_rights m (UnmapPage va # as) (Unmapped (Inr pa) # xs) = asked_rights (m(va := None)) as xs"
| "asked_rights m (a # as) (x # xs) = asked_rights m as xs"
| "asked_rights m _ _ = m"

lemma asked_rights_pages:
  assumes "vm_ok r s" and "vm_run r as s = ret (xs, s')"
  shows "map_option snd \<circ> pages_of (fst s') r = asked_rights (map_option snd \<circ> pages_of (fst s) r) as xs"
  using assms
proof (induction as arbitrary: s xs)
  case (Cons a as)
  obtain x s1 where 1: "vm_exec r a s = ret (x, s1)" "vm_step r s s1"
      "vm_spec a (pages_of (fst s) r) x (pages_of (fst s1) r)"
    using vm_exec_refines [OF Cons.prems(1)] by blast
  obtain xs' where xs: "vm_run r as s1 = ret (xs', s')" "xs = x # xs'"
    using Cons.prems(2) 1(1) by (auto split: Option.bind_splits)
  have "vm_ok r s1" using 1(2) by (simp add: vm_step_def)
  note IH = Cons.IH [OF this xs(1)]
  show ?case using 1(3) unfolding IH xs(2) by cases (simp_all add: comp_def fun_upd_def if_distrib cong: if_cong)
qed simp

section \<open>Identity mappings\<close>

definition identity_pages :: "u64 \<Rightarrow> u64 \<Rightarrow> bool \<Rightarrow> pages \<Rightarrow> pages" where
  "identity_pages start stop w m va =
     (if va mod PAGE_SIZE = 0 \<and> start \<le> va \<and> va < stop then Some (va, w, False) else m va)"

lemma identity_pages_empty: "identity_pages a a w m = m"
  by (rule ext) (auto simp: identity_pages_def)

lemma unat_aligned: "a mod PAGE_SIZE = 0 \<longleftrightarrow> unat a mod 4096 = 0"
proof -
  have "unat (a mod PAGE_SIZE) = unat a mod 4096" by (simp add: unat_mod PAGE_SIZE_def)
  then show ?thesis by (metis unat_eq_0)
qed

lemma page_between:
  assumes "a mod PAGE_SIZE = 0" "va mod PAGE_SIZE = 0" and "unat (a + PAGE_SIZE) = unat a + 4096"
  shows "a \<le> va \<and> va \<noteq> a \<longleftrightarrow> a + PAGE_SIZE \<le> va"
proof -
  obtain k l where "unat a = 4096 * k" "unat va = 4096 * l"
    using assms(1,2) unfolding unat_aligned by (auto simp: mod_eq_0_iff_dvd elim!: dvdE)
  then show ?thesis
    using assms(3) unfolding word_le_nat_alt word_unat_eq_iff by auto
qed

lemma identity_pages_step:
  assumes "a mod PAGE_SIZE = 0" and "unat (a + PAGE_SIZE) = unat a + 4096" and "a + PAGE_SIZE \<le> stop"
  shows "identity_pages (a + PAGE_SIZE) stop w (m(a \<mapsto> (a, w, False))) = identity_pages a stop w m"
proof
  fix va
  have "a < a + PAGE_SIZE" using assms(2) by (simp add: word_less_nat_alt)
  then have "a < stop" using assms(3) by simp
  show "identity_pages (a + PAGE_SIZE) stop w (m(a \<mapsto> (a, w, False))) va = identity_pages a stop w m va"
  proof (cases "va = a")
    case True
    then show ?thesis
      using assms(1) \<open>a < stop\<close> \<open>a < a + PAGE_SIZE\<close> by (simp add: identity_pages_def)
  next
    case False
    then show ?thesis
      using page_between [OF assms(1) _ assms(2), of va] by (simp add: identity_pages_def cong: conj_cong)
  qed
qed

lemma identity_loop_exact:
  assumes "vm_ok r s" and "a mod PAGE_SIZE = 0" and "unat e = unat a + 4096 * n"
  shows "\<exists>res stop s'. identity_loop r a e w s = ret (res, s') \<and> vm_step r s s' \<and> a \<le> stop
    \<and> (case res of Inr _ \<Rightarrow> stop = e | Inl _ \<Rightarrow> stop < e)
    \<and> pages_of (fst s') r = identity_pages a stop w (pages_of (fst s) r)"
  using assms
proof (induction n arbitrary: a s)
  case 0
  then have e: "e = a" by (simp add: word_unat_eq_iff)
  then have "identity_loop r a e w s = ret (Inr (), s)" by (subst identity_loop.simps) simp
  then show ?case using e vm_step_refl [OF 0(1)] identity_pages_empty by (intro exI [of _ "Inr ()"]) auto
next
  case (Suc n)
  have lt: "a < e" using Suc.prems(3) by (simp add: word_less_nat_alt)
  have room: "unat a + unat PAGE_SIZE < 2 ^ 64"
    using Suc.prems(3) unat_bound [of e] by (cases n) (auto simp: PAGE_SIZE_def)
  then have next_a: "unat (a + PAGE_SIZE) = unat a + 4096" by (simp add: unat_word_ariths PAGE_SIZE_def)
  have al: "(a + PAGE_SIZE) mod PAGE_SIZE = 0" using Suc.prems(2) next_a unfolding unat_aligned by simp
  obtain x s1 where x: "vm_exec r (MapPage a a w False) s = ret (Mapped x, s1)" "vm_step r s s1"
      "vm_spec (MapPage a a w False) (pages_of (fst s) r) (Mapped x) (pages_of (fst s1) r)"
    using vm_exec_refines [OF Suc.prems(1), of "MapPage a a w False"] by (auto split: Option.bind_splits)
  then have run: "PageTable_map r a a w False s = ret (x, s1)" by (auto split: Option.bind_splits)
  show ?case
  proof (cases x)
    case (Inl err)
    then have "pages_of (fst s1) r = pages_of (fst s) r" using x(3) by (auto elim: vm_spec.cases)
    moreover have "identity_loop r a e w s = ret (Inl err, s1)"
      using lt run Inl by (subst identity_loop.simps) simp
    ultimately show ?thesis
      using x(2) lt identity_pages_empty by (intro exI [of _ "Inl err"] exI [of _ a] exI [of _ s1]) simp
  next
    case (Inr un)
    then have pages: "pages_of (fst s1) r = (pages_of (fst s) r)(a \<mapsto> (a, w, False))"
      using x(3) by (auto elim: vm_spec.cases)
    have "vm_ok r s1" using x(2) by (simp add: vm_step_def)
    moreover have "unat e = unat (a + PAGE_SIZE) + 4096 * n" using next_a Suc.prems(3) by simp
    ultimately obtain res stop s' where rest: "identity_loop r (a + PAGE_SIZE) e w s1 = ret (res, s')"
        "vm_step r s1 s'" "a + PAGE_SIZE \<le> stop" "case res of Inr _ \<Rightarrow> stop = e | Inl _ \<Rightarrow> stop < e"
        "pages_of (fst s') r = identity_pages (a + PAGE_SIZE) stop w (pages_of (fst s1) r)"
      using Suc.IH [OF _ al] by blast
    have "identity_loop r a e w s = ret (res, s')"
      using lt run Inr rest(1) room by (subst identity_loop.simps) (simp add: run_simps)
    moreover have "pages_of (fst s') r = identity_pages a stop w (pages_of (fst s) r)"
      using rest(5) pages identity_pages_step [OF Suc.prems(2) next_a rest(3)] by simp
    moreover have "a \<le> stop"
      using rest(3) next_a by (simp add: word_le_nat_alt)
    ultimately show ?thesis using rest(4) vm_step_trans [OF x(2) rest(2)] by blast
  qed
qed

section \<open>Properties\<close>

text \<open>
  C1.  The page tables implement the abstract address space.  On a booted memory manager a fresh address
  space has no page; any sequence of \<open>map\<close> and \<open>unmap\<close> returns without a panic, and the next operation
  answers and changes the pages as specified: \<open>map\<close> adds exactly the given page or refuses, and
  \<open>unmap\<close> removes exactly the given page and returns its physical address.
\<close>

theorem address_space_refines:
  assumes "FrameAllocator_initialize es ks ke = ret fa0" and "FrameAllocator_calls calls fa0 = ret (rs, fa)"
    and "AddressSpace_new (mem, fa) = ret (Inr sp, s0)"
  shows "pages_of (fst s0) (pml4_phys sp) = Map.empty
    \<and> (\<exists>xs s x s'. vm_run (pml4_phys sp) as s0 = ret (xs, s) \<and> vm_exec (pml4_phys sp) a s = ret (x, s')
         \<and> vm_spec a (pages_of (fst s) (pml4_phys sp)) x (pages_of (fst s') (pml4_phys sp)))"
proof -
  have fa: "FrameAllocator_inv fa" using calls_pool(1) [OF assms(1,2)] .
  from fa assms(3) have ok: "vm_ok (pml4_phys sp) s0" and empty: "pages_of (fst s0) (pml4_phys sp) = Map.empty"
    by (cases rule: AddressSpace_new_cases [where mem = mem]; auto)+
  obtain xs s where run: "vm_run (pml4_phys sp) as s0 = ret (xs, s)" "vm_step (pml4_phys sp) s0 s"
    using vm_run_total [OF ok] by blast
  then have "vm_ok (pml4_phys sp) s" by (simp add: vm_step_def)
  from vm_exec_refines [OF this, of a] run(1) empty show ?thesis by blast
qed

text \<open>
  C7.  \<open>translate\<close> agrees with the mapped pages: in every reachable state a canonical address translates
  to the physical page its page was mapped to plus its offset, an unmapped or non-canonical one to
  \<open>None\<close>, and the walk never panics.
\<close>

theorem translate_exact:
  assumes "vm_reachable es ks ke mem as r s"
  shows "PageTable_translate (fst s) r va = ret (if is_canonical va
     then map_option (\<lambda>(pa, _). pa + (va AND 0xFFF)) (pages_of (fst s) r (page_base va)) else None)"
  using vm_reachable_ok [OF assms] PageTable_translate_eq unfolding vm_ok_def vm_inv_def by blast

text \<open>
  C2.  Every page has exactly the access rights that were asked for it.  After any sequence of \<open>map\<close> and
  \<open>unmap\<close> calls the processor's walk finds a canonical, aligned page present if and only if a \<open>map\<close> of
  it succeeded and no later \<open>unmap\<close> removed it, and grants a write (bit 1) or a user access (bit 2) if
  and only if that last \<open>map\<close> was called with \<open>writable\<close> or \<open>user\<close>, although the entries of the shared
  upper tables accumulate the rights of all pages below them.
\<close>

theorem page_rights_exact:
  assumes "FrameAllocator_initialize es ks ke = ret fa0" and "FrameAllocator_calls calls fa0 = ret (rs, fa)"
    and "AddressSpace_new (mem, fa) = ret (Inr \<lparr>pml4_phys = r\<rparr>, s0)" and "vm_run r as s0 = ret (xs, s)"
    and "va mod PAGE_SIZE = 0" and "is_canonical va"
  shows "(walk_grants (fst s) r va 0 \<longleftrightarrow> asked_rights Map.empty as xs va \<noteq> None)
    \<and> (walk_grants (fst s) r va 1 \<longleftrightarrow> (\<exists>u. asked_rights Map.empty as xs va = Some (True, u)))
    \<and> (walk_grants (fst s) r va 2 \<longleftrightarrow> (\<exists>w. asked_rights Map.empty as xs va = Some (w, True)))"
proof -
  note vm = vm_created [OF assms(1-4)]
  have "asked_rights Map.empty as xs va = map_option snd (pages_of (fst s) r va)"
    using fun_cong [OF asked_rights_pages [OF vm(1) assms(4)], of va] vm(3) by (simp add: comp_def)
  then show ?thesis
    using walk_grants_exact [OF vm(2), of va] assms(5,6) by (auto simp: page_ok_def)
qed

text \<open>
  C6.  Page-table code touches only its own frames.  After any sequence of \<open>map\<close> and \<open>unmap\<close> calls the
  tables of an address space, its root included, are exactly the frames that the memory manager has
  handed out since the address space was created: frames of usable memory that were free before, are
  handed out now and belong to no earlier owner.  Every word of memory that changed lies in one of them.
\<close>

theorem page_tables_confined:
  assumes "FrameAllocator_initialize es ks ke = ret fa0" and "FrameAllocator_calls calls fa0 = ret (rs, fa)"
    and "AddressSpace_new (mem, fa) = ret (Inr \<lparr>pml4_phys = r\<rparr>, s0)" and "vm_run r as s0 = ret (xs, s)"
  shows "tables (fst s) r = avail_frames fa - avail_frames (snd s)
    \<and> held_frames (snd s) = held_frames fa \<union> tables (fst s) r \<and> held_frames fa \<inter> tables (fst s) r = {}
    \<and> tables (fst s) r \<subseteq> frame_address ` usable_memory es ks ke
    \<and> (\<forall>a. fst s a = mem a \<or> (\<exists>t i. t \<in> tables (fst s) r \<and> i < 512 \<and> a = entry_addr t i))"
  using vm_created [OF assms] by blast

text \<open>
  C8.  \<open>map\<close> succeeds whenever it can: with valid arguments, an unmapped page and three free frames it
  returns \<open>Ok\<close> and maps the page.
\<close>

theorem map_succeeds:
  assumes "vm_reachable es ks ke mem as r s" and "map_args_ok va pa" and "pages_of (fst s) r va = None"
    and "3 \<le> FrameAllocator_free_frames (snd s)"
  shows "\<exists>s'. PageTable_map r va pa w u s = ret (Inr (), s')
    \<and> pages_of (fst s') r = (pages_of (fst s) r)(va \<mapsto> (pa, w, u))"
proof -
  have ok: "vm_ok r s" using assms(1) by (rule vm_reachable_ok)
  then have "3 \<le> card (avail_frames (snd s))"
    using assms(4) by (simp add: FrameAllocator_free_frames_def pool_free_count vm_ok_def vm_inv_def)
  then have room: "\<not> card (avail_frames (snd s)) < 3" by simp
  show ?thesis
    using ok assms(2)
  proof (cases rule: PageTable_map_cases [where w = w and u = u])
    case (ok s')
    then show ?thesis by blast
  qed (use room assms(3) in blast)+
qed

text \<open>
  \<open>identity_map\<close> of an aligned, nonempty range returns; on success exactly the pages of the range
  are added, mapped to themselves without user access, and on an error those before some page of
  the range: what was mapped before stays mapped in either case.
\<close>

theorem identity_map_exact:
  assumes "vm_reachable es ks ke mem as r s"
    and "start mod PAGE_SIZE = 0" and "end_addr mod PAGE_SIZE = 0" and "start < end_addr"
  shows "\<exists>res stop s'. AddressSpace_identity_map \<lparr>pml4_phys = r\<rparr> start end_addr w s = ret (res, s')
    \<and> (case res of Inr _ \<Rightarrow> stop = end_addr | Inl _ \<Rightarrow> start \<le> stop \<and> stop < end_addr)
    \<and> pages_of (fst s') r = identity_pages start stop w (pages_of (fst s) r)"
proof -
  have ok: "vm_ok r s" using assms(1) by (rule vm_reachable_ok)
  obtain k l where "unat start = 4096 * k" "unat end_addr = 4096 * l"
    using assms(2,3) unfolding unat_aligned by (auto simp: mod_eq_0_iff_dvd elim!: dvdE)
  moreover from this have "k \<le> l" using assms(4) by (simp add: word_less_nat_alt)
  ultimately have "unat end_addr = unat start + 4096 * (l - k)" by simp
  from identity_loop_exact [OF ok assms(2) this, of w] obtain res stop s' where
    run: "identity_loop r start end_addr w s = ret (res, s')" "start \<le> stop"
      "case res of Inr _ \<Rightarrow> stop = end_addr | Inl _ \<Rightarrow> stop < end_addr"
      "pages_of (fst s') r = identity_pages start stop w (pages_of (fst s) r)"
    by blast
  have "AddressSpace_identity_map \<lparr>pml4_phys = r\<rparr> start end_addr w s = ret (res, s')"
    using run(1) assms(2,3) assms(4) [unfolded not_le [symmetric]] by (simp add: AddressSpace_identity_map_def)
  with run show ?thesis by (cases res) auto
qed

section \<open>Witnesses\<close>

text \<open>The small machine of the memory manager, with one page mapped at 1 GiB.\<close>

abbreviation one_page :: "VmOp list" where
  "one_page \<equiv> [MapPage 0x40000000 0x300000 True False]"

lemma small_machine_avail:
  assumes "FrameAllocator_initialize [ram_16M] 0x200000 0x210000 = ret fa0"
  shows "FrameAllocator_inv fa0" and "3 < card (avail_frames fa0)"
proof -
  have "{256, 257, 258, 259} \<subseteq> usable_memory [ram_16M] 0x200000 0x210000"
    by (simp add: usable_memory_def usable_frame_def meets_range_def MAX_FRAMES_eq)
  moreover have sub: "usable_memory [ram_16M] 0x200000 0x210000 \<subseteq> {..<MAX_FRAMES}" by (rule usable_memory_frames)
  ultimately have "4 \<le> card (usable_memory [ram_16M] 0x200000 0x210000)"
    using card_mono [of "usable_memory [ram_16M] 0x200000 0x210000" "{256, 257, 258, 259}"] finite_subset [OF sub]
    by simp
  then show "3 < card (avail_frames fa0)"
    using initialize_pool(2) [OF assms] card_image [OF inj_on_subset [OF inj_frame_address sub]] by simp
  show "FrameAllocator_inv fa0" using assms by (rule initialize_pool)
qed

lemma small_vm:
  fixes mem :: memory
  obtains fa0 rs r fa s0 xs s where "FrameAllocator_initialize [ram_16M] 0x200000 0x210000 = ret fa0"
    and "FrameAllocator_calls [] fa0 = ret (rs, fa)" and "AddressSpace_new (mem, fa) = ret (Inr \<lparr>pml4_phys = r\<rparr>, s0)"
    and "vm_run r one_page s0 = ret (xs, s)" and "xs = [Mapped (Inr ())]" and "vm_reachable [ram_16M] 0x200000 0x210000 mem one_page r s"
    and "vm_reachable [ram_16M] 0x200000 0x210000 mem [] r s0" and "pages_of (fst s0) r = Map.empty"
    and "pages_of (fst s) r = [0x40000000 \<mapsto> (0x300000, True, False)]" and "3 \<le> FrameAllocator_free_frames (snd s0)"
proof -
  obtain fa0 where init: "FrameAllocator_initialize [ram_16M] 0x200000 0x210000 = ret fa0"
    using initialize_pmm [of "[ram_16M]" "0x210000" "0x200000"] by auto
  note fa0 = small_machine_avail [OF init]
  show thesis
    using fa0(1)
  proof (cases rule: AddressSpace_new_cases [where mem = mem])
    case oom
    then show thesis using fa0(2) by simp
  next
    case (ok r fa')
    let ?s0 = "(PageTable_zero r mem, fa')"
    have new: "AddressSpace_new (mem, fa0) = ret (Inr \<lparr>pml4_phys = r\<rparr>, ?s0)" using ok(1) .
    have room: "3 \<le> card (avail_frames (snd ?s0))"
      using ok(2,3) fa0(2) pool.finite_avail [OF fa0(1)] by simp
    have args: "map_args_ok 0x40000000 0x300000"
      by (simp add: map_args_ok_def page_ok_def page_frame_def is_canonical_def PAGE_SIZE_def ADDRESS_MASK_def)
    have args': "pages_of (fst ?s0) r 0x40000000 = None" using ok(6) by simp
    obtain s where map: "PageTable_map r 0x40000000 0x300000 True False ?s0 = ret (Inr (), s)"
        "pages_of (fst s) r = (pages_of (fst ?s0) r)(0x40000000 \<mapsto> (0x300000, True, False))"
      using ok(5) args
      by (cases rule: PageTable_map_cases [where w = True and u = False]) (use room args' in auto)
    have run: "vm_run r one_page ?s0 = ret ([Mapped (Inr ())], s)" using map(1) by simp
    have reach: "vm_reachable [ram_16M] 0x200000 0x210000 mem one_page r s"
      "vm_reachable [ram_16M] 0x200000 0x210000 mem [] r ?s0"
      using vm_reachableI [OF init FrameAllocator_calls.simps(1) new run]
        vm_reachableI [OF init FrameAllocator_calls.simps(1) new vm_run.simps(1)] .
    have "3 \<le> FrameAllocator_free_frames (snd ?s0)"
      using room ok(5) by (simp add: FrameAllocator_free_frames_def pool_free_count vm_ok_def vm_inv_def)
    then show thesis
      using that [OF init _ new run refl reach] map(2) ok(6) by simp
  qed
qed

theorem address_space_refines_witness:
  "\<exists>fa0 rs fa r s0. FrameAllocator_initialize [ram_16M] 0x200000 0x210000 = ret fa0
    \<and> FrameAllocator_calls [] fa0 = ret (rs, fa)
    \<and> AddressSpace_new (\<lambda>_. 0, fa) = ret (Inr \<lparr>pml4_phys = r\<rparr>, s0)
    \<and> pages_of (fst s0) r = Map.empty
    \<and> (\<exists>xs s x s'. vm_run r one_page s0 = ret (xs, s) \<and> vm_exec r (UnmapPage 0x40000000) s = ret (x, s')
         \<and> vm_spec (UnmapPage 0x40000000) (pages_of (fst s) r) x (pages_of (fst s') r))"
proof -
  obtain fa0 rs fa r s0 where runs: "FrameAllocator_initialize [ram_16M] 0x200000 0x210000 = ret fa0"
    "FrameAllocator_calls [] fa0 = ret (rs, fa)" "AddressSpace_new (\<lambda>_. 0, fa) = ret (Inr \<lparr>pml4_phys = r\<rparr>, s0)"
    by (rule small_vm [of "\<lambda>_. 0"])
  from address_space_refines [OF this, of one_page "UnmapPage 0x40000000"]
  have refines: "pages_of (fst s0) r = Map.empty
    \<and> (\<exists>xs s x s'. vm_run r one_page s0 = ret (xs, s) \<and> vm_exec r (UnmapPage 0x40000000) s = ret (x, s')
         \<and> vm_spec (UnmapPage 0x40000000) (pages_of (fst s) r) x (pages_of (fst s') r))"
    by (simp only: AddressSpace.select_convs)
  show ?thesis using runs refines by blast
qed

theorem translate_exact_witness:
  "\<exists>r s. vm_reachable [ram_16M] 0x200000 0x210000 (\<lambda>_. 0) one_page r s
    \<and> PageTable_translate (fst s) r 0x40000123 = ret (Some 0x300123)"
proof -
  obtain r s where s: "vm_reachable [ram_16M] 0x200000 0x210000 (\<lambda>_. 0) one_page r s"
    "pages_of (fst s) r = [0x40000000 \<mapsto> (0x300000, True, False)]"
    by (rule small_vm [of "\<lambda>_. 0"])
  have "page_base 0x40000123 = 0x40000000" "is_canonical 0x40000123"
    by (simp_all add: page_base_def is_canonical_def)
  with translate_exact [OF s(1), of "0x40000123"] s(2)
  have "PageTable_translate (fst s) r 0x40000123 = ret (Some 0x300123)" by simp
  with s(1) show ?thesis by blast
qed

theorem page_rights_exact_witness:
  "\<exists>fa0 rs fa r s0 xs s. FrameAllocator_initialize [ram_16M] 0x200000 0x210000 = ret fa0
    \<and> FrameAllocator_calls [] fa0 = ret (rs, fa) \<and> AddressSpace_new (\<lambda>_. 0, fa) = ret (Inr \<lparr>pml4_phys = r\<rparr>, s0)
    \<and> vm_run r one_page s0 = ret (xs, s)
    \<and> walk_grants (fst s) r 0x40000000 1 \<and> \<not> walk_grants (fst s) r 0x40000000 2
    \<and> \<not> walk_grants (fst s) r 0x40001000 0"
proof -
  obtain fa0 rs fa r s0 xs s where runs: "FrameAllocator_initialize [ram_16M] 0x200000 0x210000 = ret fa0"
    "FrameAllocator_calls [] fa0 = ret (rs, fa)" "AddressSpace_new (\<lambda>_. 0, fa) = ret (Inr \<lparr>pml4_phys = r\<rparr>, s0)"
    "vm_run r one_page s0 = ret (xs, s)" and xs: "xs = [Mapped (Inr ())]"
    by (rule small_vm [of "\<lambda>_. 0"])
  have args: "(0x40000000 :: u64) mod PAGE_SIZE = 0" "is_canonical 0x40000000"
      "(0x40001000 :: u64) mod PAGE_SIZE = 0" "is_canonical 0x40001000"
    by (simp_all add: PAGE_SIZE_def is_canonical_def)
  have asked: "asked_rights Map.empty one_page xs = [0x40000000 \<mapsto> (True, False)]" by (simp add: xs)
  have "walk_grants (fst s) r 0x40000000 1" "\<not> walk_grants (fst s) r 0x40000000 2"
    using page_rights_exact [OF runs args(1,2)] unfolding asked by auto
  moreover have "\<not> walk_grants (fst s) r 0x40001000 0"
    using page_rights_exact [OF runs args(3,4)] unfolding asked by simp
  ultimately show ?thesis using runs by blast
qed

theorem page_tables_confined_witness:
  "\<exists>fa0 rs fa r s0 xs s. FrameAllocator_initialize [ram_16M] 0x200000 0x210000 = ret fa0
    \<and> FrameAllocator_calls [] fa0 = ret (rs, fa) \<and> AddressSpace_new (\<lambda>_. 1, fa) = ret (Inr \<lparr>pml4_phys = r\<rparr>, s0)
    \<and> vm_run r one_page s0 = ret (xs, s) \<and> tables (fst s) r = avail_frames fa - avail_frames (snd s)
    \<and> held_frames (snd s) = held_frames fa \<union> tables (fst s) r"
proof -
  obtain fa0 rs fa r s0 xs s where runs: "FrameAllocator_initialize [ram_16M] 0x200000 0x210000 = ret fa0"
    "FrameAllocator_calls [] fa0 = ret (rs, fa)" "AddressSpace_new (\<lambda>_. 1, fa) = ret (Inr \<lparr>pml4_phys = r\<rparr>, s0)"
    "vm_run r one_page s0 = ret (xs, s)"
    by (rule small_vm [of "\<lambda>_. 1"])
  from page_tables_confined [OF runs] runs show ?thesis by blast
qed

theorem map_succeeds_witness:
  "\<exists>r s s'. vm_reachable [ram_16M] 0x200000 0x210000 (\<lambda>_. 0) [] r s
    \<and> PageTable_map r 0x40000000 0x300000 True True s = ret (Inr (), s')"
proof -
  obtain r s0 where s: "vm_reachable [ram_16M] 0x200000 0x210000 (\<lambda>_. 0) [] r s0"
    "pages_of (fst s0) r = Map.empty" "3 \<le> FrameAllocator_free_frames (snd s0)"
    by (rule small_vm [of "\<lambda>_. 0"])
  have "map_args_ok 0x40000000 0x300000"
    by (simp add: map_args_ok_def page_ok_def page_frame_def is_canonical_def PAGE_SIZE_def ADDRESS_MASK_def)
  moreover have "pages_of (fst s0) r 0x40000000 = None" using s(2) by simp
  ultimately obtain s' where "PageTable_map r 0x40000000 0x300000 True True s0 = ret (Inr (), s')"
    using map_succeeds [OF s(1) _ _ s(3)] by blast
  with s(1) show ?thesis by blast
qed

theorem identity_map_exact_witness:
  "\<exists>r s res stop s'. vm_reachable [ram_16M] 0x200000 0x210000 (\<lambda>_. 0) one_page r s
    \<and> AddressSpace_identity_map \<lparr>pml4_phys = r\<rparr> 0x100000 0x102000 True s = ret (res, s')
    \<and> pages_of (fst s') r = identity_pages 0x100000 stop True (pages_of (fst s) r)"
proof -
  obtain r s where s: "vm_reachable [ram_16M] 0x200000 0x210000 (\<lambda>_. 0) one_page r s"
    by (rule small_vm [of "\<lambda>_. 0"])
  have "(0x100000 :: u64) mod PAGE_SIZE = 0" "(0x102000 :: u64) mod PAGE_SIZE = 0" "(0x100000 :: u64) < 0x102000"
    by (simp_all add: PAGE_SIZE_def)
  from identity_map_exact [OF s this, of True] s show ?thesis by blast
qed

end
