(* ===== verification/Heap.thy ===== *)
theory Heap
  imports Address_Space
begin

text \<open>
  The kernel heap (\<open>memory/heap.rs\<close>): a virtual range at 1 GiB that \<open>initialize\<close> backs with frames,
  page by page, and rolls back when a frame or a page table is missing.
\<close>

section \<open>State and operations\<close>

definition HEAP_START :: u64 where
  "HEAP_START = 0x0000000040000000"

definition HEAP_SIZE :: u64 where
  "HEAP_SIZE = 16 * 1024 * 1024"

definition HEAP_END :: u64 where
  "HEAP_END = HEAP_START + HEAP_SIZE"

record KernelHeap =
  heap_start :: u64
  heap_size :: u64
  mapped_pages :: u64
  initialized :: bool

definition KernelHeap_new :: KernelHeap where
  "KernelHeap_new = \<lparr>heap_start = HEAP_START, heap_size = HEAP_SIZE, mapped_pages = 0, initialized = False\<rparr>"

text \<open>The loop of \<open>rollback\<close>, for a number of pages from a virtual address on.\<close>

fun rollback_loop :: "u64 \<Rightarrow> nat \<Rightarrow> u64 \<Rightarrow> vm_state \<Rightarrow> vm_state run" where
  "rollback_loop pml4 0 virtual_address s = ret s"
| "rollback_loop pml4 (Suc n) virtual_address s = do {
     (r, mem) \<leftarrow> PageTable_unmap pml4 virtual_address (fst s);
     fa \<leftarrow> (case r of Inr physical_address \<Rightarrow> FrameAllocator_free_frame physical_address (snd s)
                   | Inl e \<Rightarrow> ret (snd s));
     virtual_address \<leftarrow> padd virtual_address PAGE_SIZE;
     rollback_loop pml4 n virtual_address (mem, fa) }"

definition KernelHeap_rollback :: "u64 \<Rightarrow> u64 \<Rightarrow> KernelHeap \<Rightarrow> vm_state \<Rightarrow> (KernelHeap \<times> vm_state) run" where
  "KernelHeap_rollback pml4 pages heap s = do {
     s \<leftarrow> rollback_loop pml4 (unat pages) (heap_start heap) s;
     ret (heap\<lparr>mapped_pages := 0, initialized := False\<rparr>, s) }"

text \<open>The loop of \<open>initialize\<close>, with the number of pages still to map.\<close>

fun initialize_loop :: "u64 \<Rightarrow> nat \<Rightarrow> u64 \<Rightarrow> u64 \<Rightarrow> KernelHeap \<Rightarrow> vm_state \<Rightarrow>
    ((KernelError + unit) \<times> KernelHeap \<times> vm_state) run" where
  "initialize_loop pml4 0 virtual_address mapped heap s =
     ret (Inr (), heap\<lparr>mapped_pages := mapped, initialized := True\<rparr>, s)"
| "initialize_loop pml4 (Suc n) virtual_address mapped heap s = do {
     (frame, fa) \<leftarrow> FrameAllocator_allocate_frame (snd s);
     (case frame of
        None \<Rightarrow> do {
          (heap, s) \<leftarrow> KernelHeap_rollback pml4 mapped heap (fst s, fa);
          ret (Inl HeapOutOfMemory, heap, s) }
      | Some physical_address \<Rightarrow> do {
          (r, s) \<leftarrow> PageTable_map pml4 virtual_address physical_address True False (fst s, fa);
          (case r of
             Inr _ \<Rightarrow> do {
               mapped \<leftarrow> padd mapped 1;
               virtual_address \<leftarrow> padd virtual_address PAGE_SIZE;
               initialize_loop pml4 n virtual_address mapped heap s }
           | Inl error \<Rightarrow> do {
               fa \<leftarrow> FrameAllocator_free_frame physical_address (snd s);
               (heap, s) \<leftarrow> KernelHeap_rollback pml4 mapped heap (fst s, fa);
               ret (Inl error, heap, s) }) }) }"

definition KernelHeap_initialize :: "u64 \<Rightarrow> u64 \<Rightarrow> KernelHeap \<Rightarrow> vm_state \<Rightarrow>
    ((KernelError + unit) \<times> KernelHeap \<times> vm_state) run" where
  "KernelHeap_initialize pml4 pages heap s =
     (if initialized heap then ret (Inl HeapAlreadyInitialized, heap, s)
      else if pages = 0 then ret (Inl HeapPageCountZero, heap, s)
      else case checked_mul pages PAGE_SIZE of
        None \<Rightarrow> ret (Inl HeapSizeOverflow, heap, s)
      | Some required_size \<Rightarrow>
          if heap_size heap < required_size then ret (Inl HeapTooLarge, heap, s)
          else initialize_loop pml4 (unat pages) (heap_start heap) 0 heap s)"

definition KernelHeap_end :: "KernelHeap \<Rightarrow> u64 run" where
  "KernelHeap_end heap = padd (heap_start heap) (heap_size heap)"

definition KernelHeap_page_capacity :: "KernelHeap \<Rightarrow> u64" where
  "KernelHeap_page_capacity heap = heap_size heap div FRAME_SIZE"

section \<open>Pages of the heap\<close>

text \<open>\<open>heap_pages a fs m\<close>: the pages \<open>m\<close> with consecutive pages from \<open>a\<close> on backed by the frames \<open>fs\<close>.\<close>

fun heap_pages :: "u64 \<Rightarrow> u64 list \<Rightarrow> pages \<Rightarrow> pages" where
  "heap_pages a [] m = m"
| "heap_pages a (f # fs) m = (heap_pages (a + PAGE_SIZE) fs m)(a \<mapsto> (f, True, False))"

text \<open>A run of \<open>n\<close> valid pages from \<open>a\<close> on, none of them mapped in \<open>m\<close>.\<close>

fun free_pages :: "u64 \<Rightarrow> nat \<Rightarrow> pages \<Rightarrow> bool" where
  "free_pages a 0 m = True"
| "free_pages a (Suc n) m \<longleftrightarrow> page_ok a \<and> m a = None \<and> unat a + 4096 < 2 ^ 64 \<and> free_pages (a + PAGE_SIZE) n m"

lemma next_page: "unat a + 4096 < 2 ^ 64 \<Longrightarrow> unat (a + PAGE_SIZE) = unat a + 4096"
  by (simp add: unat_word_ariths PAGE_SIZE_def)

lemma padd_next_page: "unat a + 4096 < 2 ^ 64 \<Longrightarrow> checked_add a PAGE_SIZE = ret (a + PAGE_SIZE)"
  by (simp add: checked_add_def PAGE_SIZE_def)

lemma heap_pages_below: "free_pages a (length fs) m \<Longrightarrow> b < a \<Longrightarrow> heap_pages a fs m b = m b"
proof (induction fs arbitrary: a)
  case (Cons f fs)
  then have "b < a + PAGE_SIZE" using next_page [of a] by (auto simp: word_less_nat_alt)
  with Cons show ?case by auto
qed simp

lemma heap_pages_forget:
  "free_pages a (length fs) m \<Longrightarrow> b < a \<Longrightarrow> m b = None \<Longrightarrow> (heap_pages a fs m)(b := None) = heap_pages a fs m"
  using heap_pages_below by (metis fun_upd_idem_iff)

lemma free_pages_less: "free_pages a (Suc n) m \<Longrightarrow> a < a + PAGE_SIZE"
  using next_page [of a] by (simp add: word_less_nat_alt)

section \<open>Frames that are not tables\<close>

lemma vm_ok_fa:
  assumes "vm_ok r (mem, fa)" and "FrameAllocator_inv fa'"
    and "avail_frames fa' \<subseteq> avail_frames fa \<union> X" and "X \<inter> tables mem r = {}"
  shows "vm_ok r (mem, fa')"
proof -
  have "t \<notin> avail_frames fa'" if "is_path p" "descend mem r p = Some t" for p t
  proof -
    have "t \<in> tables mem r" using that by (auto simp: tables_def)
    moreover have "t \<notin> avail_frames fa" using assms(1) vtree_free that by (auto simp: vm_ok_def vm_inv_def)
    ultimately show ?thesis using assms(3,4) by blast
  qed
  then have "vtree mem r (avail_frames fa')"
    using assms(1) by (simp add: vm_ok_def vm_inv_def vtree_def)
  then show ?thesis using assms(1,2) by (simp add: vm_ok_def vm_inv_def)
qed

lemma tables_not_free: "vm_ok r s \<Longrightarrow> tables (fst s) r \<inter> avail_frames (snd s) = {}"
  by (auto simp: vm_ok_def vm_inv_def vtree_def tables_def)

section \<open>The invariant of \<open>initialize\<close>\<close>

text \<open>
  Relative to the tables \<open>T\<close>, the free frames \<open>A\<close> and the handed-out frames \<open>H\<close> at the start: the frames
  \<open>fs\<close> back the first pages of the heap, and all other frames taken since then are page tables.
\<close>

definition heap_state :: "u64 \<Rightarrow> pages \<Rightarrow> u64 set \<Rightarrow> u64 set \<Rightarrow> u64 set \<Rightarrow> u64 \<Rightarrow> u64 list \<Rightarrow> vm_state \<Rightarrow> bool" where
  "heap_state r m T A H a fs s \<longleftrightarrow> vm_ok r s \<and> pages_of (fst s) r = heap_pages a fs m \<and> free_pages a (length fs) m
   \<and> distinct fs \<and> set fs \<subseteq> A \<and> set fs \<inter> tables (fst s) r = {}
   \<and> T \<subseteq> tables (fst s) r \<and> tables (fst s) r \<subseteq> T \<union> A
   \<and> avail_frames (snd s) = A - set fs - (tables (fst s) r - T)
   \<and> held_frames (snd s) = H \<union> set fs \<union> (tables (fst s) r - T)"

lemma heap_stateD:
  assumes "heap_state r m T A H a fs s"
  shows "vm_ok r s" "pages_of (fst s) r = heap_pages a fs m" "free_pages a (length fs) m"
    and "distinct fs" "set fs \<subseteq> A" "set fs \<inter> tables (fst s) r = {}"
    and "T \<subseteq> tables (fst s) r" "tables (fst s) r \<subseteq> T \<union> A"
    and "avail_frames (snd s) = A - set fs - (tables (fst s) r - T)"
    and "held_frames (snd s) = H \<union> set fs \<union> (tables (fst s) r - T)"
    and "FrameAllocator_inv (snd s)"
  using assms unfolding heap_state_def vm_ok_def vm_inv_def by blast+

lemma unmap_first_page:
  assumes hs: "heap_state r m T A H a (f # fs) s" and H: "H \<inter> A = {}"
  shows "\<exists>mem fa. PageTable_unmap r a (fst s) = ret (Inr f, mem)
    \<and> FrameAllocator_free_frame f (snd s) = ret fa \<and> heap_state r m T A H (a + PAGE_SIZE) fs (mem, fa)"
proof -
  note h = heap_stateD [OF hs]
  have a: "page_ok a" "m a = None" "free_pages (a + PAGE_SIZE) (length fs) m" "a < a + PAGE_SIZE"
    using h(3) free_pages_less [of a "length fs" m] by simp_all
  have "pages_of (fst s) r a = Some (f, True, False)" using h(2) by simp
  with h(1) a(1) obtain mem where mem: "PageTable_unmap r a (fst s) = ret (Inr f, mem)" "vm_step r s (mem, snd s)"
      "pages_of mem r = (pages_of (fst s) r)(a := None)"
    by (cases rule: PageTable_unmap_cases) auto
  have tabs: "tables mem r = tables (fst s) r" using mem(2) unfolding vm_step_def by auto
  have "f \<in> held_frames (snd s)" using h(10) by simp
  then obtain fa where fa: "FrameAllocator_free_frame f (snd s) = ret fa" "FrameAllocator_inv fa"
      "avail_frames fa = insert f (avail_frames (snd s))" "held_frames fa = held_frames (snd s) - {f}"
    using pool.free_held [OF h(11)] by blast
  have f: "f \<in> A" "f \<notin> set fs" "f \<notin> tables (fst s) r" "f \<notin> H" using h(4,5,6) H by auto
  have "vm_ok r (mem, fa)"
    using mem(2) fa(2,3) f(3) tabs by (intro vm_ok_fa [of r mem "snd s" fa "{f}"]) (auto simp: vm_step_def)
  moreover have "pages_of mem r = heap_pages (a + PAGE_SIZE) fs m"
    using mem(3) h(2) heap_pages_forget [OF a(3,4,2)] by simp
  moreover have "avail_frames fa = A - set fs - (tables (fst s) r - T)"
    using fa(3) h(9) f by auto
  moreover have "held_frames fa = H \<union> set fs \<union> (tables (fst s) r - T)"
    using fa(4) h(10) f by auto
  ultimately have "heap_state r m T A H (a + PAGE_SIZE) fs (mem, fa)"
    using h a(3) by (simp add: heap_state_def tabs)
  then show ?thesis using mem(1) fa(1) by blast
qed

lemma rollback_loop_ok:
  assumes "heap_state r m T A H a fs s" and "H \<inter> A = {}"
  shows "\<exists>s'. rollback_loop r (length fs) a s = ret s' \<and> heap_state r m T A H b [] s'"
  using assms
proof (induction fs arbitrary: a s)
  case Nil
  then show ?case by (simp add: heap_state_def)
next
  case (Cons f fs)
  obtain mem fa where step: "PageTable_unmap r a (fst s) = ret (Inr f, mem)"
      "FrameAllocator_free_frame f (snd s) = ret fa" "heap_state r m T A H (a + PAGE_SIZE) fs (mem, fa)"
    using unmap_first_page [OF Cons.prems] by blast
  have "checked_add a PAGE_SIZE = ret (a + PAGE_SIZE)"
    using heap_stateD(3) [OF Cons.prems(1)] by (simp add: padd_next_page)
  with Cons.IH [OF step(3) Cons.prems(2)] step(1,2) show ?case by simp
qed

lemma KernelHeap_rollback_ok:
  assumes "heap_state r m T A H (heap_start heap) fs s" and "H \<inter> A = {}" and "unat pages = length fs"
  shows "\<exists>s'. KernelHeap_rollback r pages heap s = ret (heap\<lparr>mapped_pages := 0, initialized := False\<rparr>, s')
    \<and> heap_state r m T A H b [] s'"
  using rollback_loop_ok [OF assms(1,2), of b] assms(3) by (auto simp: KernelHeap_rollback_def)

section \<open>Mapping one more page\<close>

definition page_at :: "u64 \<Rightarrow> nat \<Rightarrow> u64" where
  "page_at a k = a + of_nat k * PAGE_SIZE"

lemma page_at_simps: "page_at a 0 = a" "page_at a (Suc k) = page_at a k + PAGE_SIZE"
  "page_at (a + PAGE_SIZE) k = page_at a (Suc k)"
  by (simp_all add: page_at_def algebra_simps)

lemma unat_page_at: "unat a + 4096 * k < 2 ^ 64 \<Longrightarrow> unat (page_at a k) = unat a + 4096 * k"
proof -
  assume "unat a + 4096 * k < 2 ^ 64"
  moreover have "page_at a k = of_nat (unat a + 4096 * k)" by (simp add: page_at_def PAGE_SIZE_def)
  ultimately show ?thesis using unat_of_nat_small [where 'a = 64, of "unat a + 4096 * k"] by simp
qed

lemma low_page_ok:
  assumes "a mod PAGE_SIZE = 0" and "unat a < 2 ^ 47"
  shows "page_ok a"
proof -
  have "take_bit 47 (unat a) = unat a" using assms(2) by (rule take_bit_nat_eq_self)
  then have "n < 47" if "bit a n" for n
    using that bit_imp_le_length [OF that] bit_take_bit_iff [of 47 "unat a" n] by (simp add: bit_unsigned_iff)
  then have "\<not> bit a n" if "47 \<le> n" for n using that by (meson linorder_not_less)
  then show ?thesis using assms(1) by (simp add: page_ok_def is_canonical_bits)
qed

lemma heap_pages_snoc:
  "unat a + 4096 * length fs < 2 ^ 64 \<Longrightarrow>
     heap_pages a (fs @ [f]) m = (heap_pages a fs m)(page_at a (length fs) \<mapsto> (f, True, False))"
proof (induction fs arbitrary: a)
  case Nil
  then show ?case by (simp add: page_at_simps)
next
  case (Cons g fs)
  have "unat (a + PAGE_SIZE) = unat a + 4096" using Cons.prems by (intro next_page) simp
  then have "unat (a + PAGE_SIZE) + 4096 * length fs < 2 ^ 64" using Cons.prems by simp
  from Cons.IH [OF this] have IH: "heap_pages (a + PAGE_SIZE) (fs @ [f]) m
      = (heap_pages (a + PAGE_SIZE) fs m)(page_at a (Suc (length fs)) \<mapsto> (f, True, False))"
    by (simp only: page_at_simps(3))
  have "unat (page_at a (Suc (length fs))) = unat a + 4096 * Suc (length fs)"
    using Cons.prems by (intro unat_page_at) simp
  then have "page_at a (Suc (length fs)) \<noteq> a" by auto
  from fun_upd_twist [OF this] show ?case
    by (simp only: append_Cons heap_pages.simps list.size(4) add_Suc_right add_0_right One_nat_def IH)
qed

lemma heap_pages_beyond:
  "unat a + 4096 * length fs < 2 ^ 64 \<Longrightarrow> heap_pages a fs m (page_at a (length fs)) = m (page_at a (length fs))"
proof (induction fs arbitrary: a)
  case Nil
  then show ?case by simp
next
  case (Cons g fs)
  have "unat (a + PAGE_SIZE) = unat a + 4096" using Cons.prems by (intro next_page) simp
  moreover have "unat (page_at a (Suc (length fs))) = unat a + 4096 * Suc (length fs)"
    using Cons.prems by (intro unat_page_at) simp
  then have "page_at a (Suc (length fs)) \<noteq> a" by auto
  ultimately show ?case using Cons.IH [of "a + PAGE_SIZE"] Cons.prems by (simp add: page_at_simps)
qed

lemma free_pages_snoc:
  "free_pages a (Suc n) m \<longleftrightarrow> free_pages a n m \<and> page_ok (page_at a n) \<and> m (page_at a n) = None
     \<and> unat (page_at a n) + 4096 < 2 ^ 64"
proof (induction n arbitrary: a)
  case 0
  then show ?case by (simp add: page_at_simps)
next
  case (Suc n)
  show ?case
    using Suc [of "a + PAGE_SIZE"] by (simp add: page_at_simps)
qed

section \<open>Correctness of \<open>initialize\<close>\<close>

text \<open>The frames \<open>K\<close> that a step of the virtual memory takes become page tables.\<close>

lemma vm_step_frames:
  assumes "vm_step r s s'" and "vm_ok r s"
  obtains K where "K \<subseteq> avail_frames (snd s)" and "K \<inter> tables (fst s) r = {}" and "vm_ok r s'"
    and "avail_frames (snd s') = avail_frames (snd s) - K" and "held_frames (snd s') = held_frames (snd s) \<union> K"
    and "tables (fst s') r = tables (fst s) r \<union> K"
proof -
  let ?K = "avail_frames (snd s) - avail_frames (snd s')"
  have *: "vm_ok r s'" "avail_frames (snd s') \<subseteq> avail_frames (snd s)"
      "held_frames (snd s') = held_frames (snd s) \<union> ?K" "tables (fst s') r = tables (fst s) r \<union> ?K"
    using assms(1) unfolding vm_step_def by blast+
  show thesis
  proof (rule that [of ?K])
    show "avail_frames (snd s') = avail_frames (snd s) - ?K" using *(2) by blast
    show "?K \<inter> tables (fst s) r = {}" using tables_not_free [OF assms(2)] by blast
  qed (use * in auto)
qed

lemma heap_state_grow:
  assumes hs: "heap_state r m T A H a fs s" and "vm_step r s s'" and "pages_of (fst s') r = heap_pages a gs m"
    and gs: "set gs = set fs" "distinct gs" "free_pages a (length gs) m"
  shows "heap_state r m T A H a gs s'"
proof -
  note h = heap_stateD [OF hs]
  obtain K where K: "K \<subseteq> avail_frames (snd s)" "K \<inter> tables (fst s) r = {}" "vm_ok r s'"
    "avail_frames (snd s') = avail_frames (snd s) - K" "held_frames (snd s') = held_frames (snd s) \<union> K"
    "tables (fst s') r = tables (fst s) r \<union> K"
    using assms(2) h(1) by (rule vm_step_frames)
  have KA: "K \<subseteq> A - set fs" "K \<inter> T = {}" using K(1,2) h(7,9) by auto
  then have new: "tables (fst s') r - T = (tables (fst s) r - T) \<union> K" using K(6) by blast
  have "avail_frames (snd s') = A - set gs - (tables (fst s') r - T)"
    unfolding new K(4) h(9) gs(1) by blast
  moreover have "held_frames (snd s') = H \<union> set gs \<union> (tables (fst s') r - T)"
    unfolding new K(5) h(10) gs(1) by blast
  moreover have "set gs \<inter> tables (fst s') r = {}" unfolding K(6) gs(1) using h(6) KA(1) by blast
  moreover have "tables (fst s') r \<subseteq> T \<union> A" "T \<subseteq> tables (fst s') r" unfolding K(6) using h(7,8) KA(1) by blast+
  ultimately show ?thesis
    using K(3) assms(3) gs h(5) unfolding heap_state_def by blast
qed

text \<open>A frame taken for the next page counts as handed out until it is mapped or given back.\<close>

lemma heap_state_take:
  assumes hs: "heap_state r m T A H a fs s" and alloc: "FrameAllocator_inv fa" "f \<in> avail_frames (snd s)"
    "avail_frames fa = avail_frames (snd s) - {f}" "held_frames fa = insert f (held_frames (snd s))"
  shows "heap_state r m T (A - {f}) (insert f H) a fs (fst s, fa)" and "f \<in> A" and "f \<notin> set fs"
    and "f \<notin> tables (fst s) r"
proof -
  note h = heap_stateD [OF hs]
  have ok: "vm_ok r (fst s, fa)"
    using h(1) alloc(1,3) by (intro vm_ok_fa [of r "fst s" "snd s" fa "{}"]) auto
  show f: "f \<in> A" "f \<notin> set fs" using alloc(2) h(9) by auto
  show t: "f \<notin> tables (fst s) r" using alloc(2) tables_not_free [OF h(1)] by blast
  show "heap_state r m T (A - {f}) (insert f H) a fs (fst s, fa)"
    unfolding heap_state_def fst_conv snd_conv alloc(3,4) h(9,10) using ok h(2-8) f t by auto
qed

lemma heap_state_keep:
  assumes "heap_state r m T (A - {f}) (insert f H) a fs s" and "f \<in> A" and "f \<notin> H"
    and "vm_step r s s'" and "pages_of (fst s') r = heap_pages a (fs @ [f]) m" and "free_pages a (Suc (length fs)) m"
    and "f \<notin> tables (fst s) r"
  shows "heap_state r m T A H a (fs @ [f]) s'"
proof -
  note h = heap_stateD [OF assms(1)]
  obtain K where K: "K \<subseteq> avail_frames (snd s)" "K \<inter> tables (fst s) r = {}" "vm_ok r s'"
    "avail_frames (snd s') = avail_frames (snd s) - K" "held_frames (snd s') = held_frames (snd s) \<union> K"
    "tables (fst s') r = tables (fst s) r \<union> K"
    using assms(4) h(1) by (rule vm_step_frames)
  have KA: "K \<subseteq> A - {f} - set fs" "K \<inter> T = {}" using K(1,2) h(7,9) by auto
  then have new: "tables (fst s') r - T = (tables (fst s) r - T) \<union> K" using K(6) by blast
  have "avail_frames (snd s') = A - set (fs @ [f]) - (tables (fst s') r - T)"
    unfolding new K(4) h(9) by auto
  moreover have "held_frames (snd s') = H \<union> set (fs @ [f]) \<union> (tables (fst s') r - T)"
    unfolding new K(5) h(10) by auto
  moreover have "set (fs @ [f]) \<inter> tables (fst s') r = {}" unfolding K(6) using h(6) KA(1) assms(7) by auto
  moreover have "tables (fst s') r \<subseteq> T \<union> A" "T \<subseteq> tables (fst s') r" unfolding K(6) using h(7,8) KA(1) by blast+
  moreover have "distinct (fs @ [f])" "set (fs @ [f]) \<subseteq> A" using h(4,5) assms(2) by auto
  ultimately show ?thesis
    using K(3) assms(5,6) unfolding heap_state_def by simp
qed

lemma heap_state_give:
  assumes hs: "heap_state r m T (A - {f}) (insert f H) a fs s" and f: "f \<in> A" "f \<notin> H" and H: "H \<inter> A = {}"
    and t: "f \<notin> tables (fst s) r"
  shows "\<exists>fa. FrameAllocator_free_frame f (snd s) = ret fa \<and> heap_state r m T A H a fs (fst s, fa)"
proof -
  note h = heap_stateD [OF hs]
  have "f \<in> held_frames (snd s)" using h(10) by blast
  then obtain fa where fa: "FrameAllocator_free_frame f (snd s) = ret fa" "FrameAllocator_inv fa"
      "avail_frames fa = insert f (avail_frames (snd s))" "held_frames fa = held_frames (snd s) - {f}"
    using pool.free_held [OF h(11)] by blast
  have ok: "vm_ok r (fst s, fa)"
    using h(1) fa(2,3) t by (intro vm_ok_fa [of r "fst s" "snd s" fa "{f}"]) auto
  have "f \<notin> set fs" using h(5) by blast
  then have "heap_state r m T A H a fs (fst s, fa)"
    unfolding heap_state_def fst_conv snd_conv fa(3,4) h(9,10) using ok h(2-8) f t by auto
  then show ?thesis using fa(1) by blast
qed

lemma page_at_ok:
  assumes "a mod PAGE_SIZE = 0" and "unat a + 4096 * k < 2 ^ 47"
  shows "page_ok (page_at a k)" and "unat (page_at a k) + 4096 < 2 ^ 64"
proof -
  have u: "unat (page_at a k) = unat a + 4096 * k" using assms(2) by (intro unat_page_at) simp
  then have "page_at a k mod PAGE_SIZE = 0" using assms(1) unfolding unat_aligned by simp
  with u assms(2) show "page_ok (page_at a k)" by (intro low_page_ok) simp_all
  show "unat (page_at a k) + 4096 < 2 ^ 64" using u assms(2) by simp
qed

text \<open>The result of the loop: all pages are mapped, or everything but the page tables is undone.\<close>

definition heap_result :: "u64 \<Rightarrow> pages \<Rightarrow> u64 set \<Rightarrow> u64 set \<Rightarrow> u64 set \<Rightarrow> nat \<Rightarrow> KernelHeap \<Rightarrow>
    (KernelError + unit) \<times> KernelHeap \<times> vm_state \<Rightarrow> bool" where
  "heap_result r m T A H n heap x \<longleftrightarrow> (case x of (res, heap', s) \<Rightarrow> (case res of
      Inr _ \<Rightarrow> heap' = heap\<lparr>mapped_pages := of_nat n, initialized := True\<rparr>
        \<and> (\<exists>fs. length fs = n \<and> heap_state r m T A H (heap_start heap) fs s)
    | Inl _ \<Rightarrow> heap' = heap\<lparr>mapped_pages := 0, initialized := False\<rparr>
        \<and> heap_state r m T A H (heap_start heap) [] s))"

text \<open>When \<open>map\<close> fails, the frame goes back and the pages mapped so far are rolled back.\<close>

lemma initialize_loop_failed:
  assumes hs: "heap_state r m T A H (heap_start heap) fs s" and H: "H \<inter> A = {}"
    and alloc: "FrameAllocator_allocate_frame (snd s) = ret (Some f, fa)" "FrameAllocator_inv fa"
      "f \<in> avail_frames (snd s)" "avail_frames fa = avail_frames (snd s) - {f}"
      "held_frames fa = insert f (held_frames (snd s))"
    and map: "PageTable_map r va f True False (fst s, fa) = ret (Inl e, s1)"
    and step: "vm_step r (fst s, fa) s1" "pages_of (fst s1) r = pages_of (fst s) r"
    and len: "unat mapped = length fs"
  shows "\<exists>x. initialize_loop r (Suc n) va mapped heap s = ret x \<and> heap_result r m T A H k heap x"
proof -
  note take = heap_state_take [OF hs alloc(2-5)] and h = heap_stateD [OF hs]
  have f: "f \<notin> H" using take(2) H by blast
  have hs1: "heap_state r m T (A - {f}) (insert f H) (heap_start heap) fs s1"
    using step(1) by (rule heap_state_grow [OF take(1)]) (use step(2) h(2,3,4) in simp_all)
  have "tables (fst s1) r = tables (fst s) r \<union> (avail_frames fa - avail_frames (snd s1))"
    using step(1) by (simp add: vm_step_def)
  then have "f \<notin> tables (fst s1) r" using take(4) by (simp add: alloc(4))
  then obtain fa' where fa': "FrameAllocator_free_frame f (snd s1) = ret fa'"
      "heap_state r m T A H (heap_start heap) fs (fst s1, fa')"
    using heap_state_give [OF hs1 take(2) f H] by blast
  obtain s' where "KernelHeap_rollback r mapped heap (fst s1, fa')
      = ret (heap\<lparr>mapped_pages := 0, initialized := False\<rparr>, s')" "heap_state r m T A H (heap_start heap) [] s'"
    using KernelHeap_rollback_ok [OF fa'(2) H len] by blast
  then show ?thesis using alloc(1) map fa'(1) by (simp add: heap_result_def)
qed

lemma initialize_loop_mapped:
  assumes hs: "heap_state r m T A H a fs s" and H: "H \<inter> A = {}"
    and alloc: "FrameAllocator_inv fa" "f \<in> avail_frames (snd s)" "avail_frames fa = avail_frames (snd s) - {f}"
      "held_frames fa = insert f (held_frames (snd s))"
    and step: "vm_step r (fst s, fa) s1" and free: "pages_of (fst s) r (page_at a (length fs)) = None"
    and pages: "pages_of (fst s1) r = (pages_of (fst s) r)(page_at a (length fs) \<mapsto> (f, True, False))"
    and a: "a mod PAGE_SIZE = 0" "unat a + 4096 * length fs < 2 ^ 47"
  shows "heap_state r m T A H a (fs @ [f]) s1"
proof -
  note take = heap_state_take [OF hs alloc] and h = heap_stateD [OF hs]
  have k: "unat a + 4096 * length fs < 2 ^ 64" using a(2) by simp
  have "m (page_at a (length fs)) = None" using free h(2) heap_pages_beyond [OF k, of m] by simp
  then have "free_pages a (Suc (length fs)) m"
    using free_pages_snoc [of a "length fs" m] h(3) page_at_ok [OF a] by blast
  moreover have "pages_of (fst s1) r = heap_pages a (fs @ [f]) m"
    using pages h(2) heap_pages_snoc [OF k, of f m] by (simp only:)
  moreover have "f \<notin> H" using take(2) H by blast
  ultimately show ?thesis
    using heap_state_keep [OF take(1,2) _ step] take(4) by simp
qed

lemma initialize_loop_ok:
  assumes "heap_state r m T A H (heap_start heap) fs s" and H: "H \<inter> A = {}"
    and a: "heap_start heap mod PAGE_SIZE = 0" and N: "unat (heap_start heap) + 4096 * (length fs + n) < 2 ^ 47"
  shows "\<exists>x. initialize_loop r n (page_at (heap_start heap) (length fs)) (of_nat (length fs)) heap s = ret x
    \<and> heap_result r m T A H (length fs + n) heap x"
  using assms(1) N
proof (induction n arbitrary: fs s)
  case 0
  then show ?case by (auto simp: heap_result_def)
next
  case (Suc n)
  let ?a = "heap_start heap" let ?va = "page_at ?a (length fs)" let ?k = "of_nat (length fs) :: u64"
  note hs = Suc.prems(1)
  have k: "unat ?a + 4096 * length fs < 2 ^ 47" using Suc.prems(2) by simp
  have va: "page_ok ?va" "unat ?va + 4096 < 2 ^ 64" using page_at_ok [OF a k] by blast+
  have len: "unat ?k = length fs" using k by (intro unat_of_nat_small) simp
  show ?case
    using heap_stateD(11) [OF hs]
  proof (cases rule: pool.alloc_cases)
    case none
    obtain s' where "KernelHeap_rollback r ?k heap s
        = ret (heap\<lparr>mapped_pages := 0, initialized := False\<rparr>, s')" "heap_state r m T A H ?a [] s'"
      using KernelHeap_rollback_ok [OF hs H len] by blast
    then show ?thesis using none by (simp add: heap_result_def)
  next
    case (some f fa)
    have vm: "vm_ok r (fst s, fa)"
      using heap_stateD(1) [OF heap_state_take(1) [OF hs some(2,3,5,6)]] .
    have "page_frame f" using pool_page_frame [OF heap_stateD(11) [OF hs]] some(3) by blast
    then have "map_args_ok ?va f" using va by (simp add: map_args_ok_def)
    with vm show ?thesis
    proof (cases rule: PageTable_map_cases [where w = True and u = False])
      case (oom s1)
      show ?thesis by (rule initialize_loop_failed [OF hs H some(1,2,3,5,6) oom(1,2) _ len]) (use oom(3) in simp)
    next
      case (mapped s1)
      show ?thesis by (rule initialize_loop_failed [OF hs H some(1,2,3,5,6) mapped(1,2) _ len]) (use mapped(3) in simp)
    next
      case (ok s1)
      have hs1: "heap_state r m T A H ?a (fs @ [f]) s1"
        using initialize_loop_mapped [OF hs H some(2,3,5,6) ok(2) _ _ a k] ok(3,4) by (simp only: fst_conv)
      have "length fs + 1 < 2 ^ LENGTH(64)" using k by simp
      then have "checked_add ?k 1 = ret (?k + 1)" by (intro checked_add_ret) (simp only: len unsigned_1)
      moreover have "?k + 1 = of_nat (length (fs @ [f]))" by simp
      moreover have "checked_add ?va PAGE_SIZE = ret (page_at ?a (length (fs @ [f])))"
        using padd_next_page [OF va(2)] by (simp add: page_at_simps)
      ultimately have "initialize_loop r (Suc n) ?va ?k heap s
          = initialize_loop r n (page_at ?a (length (fs @ [f]))) (of_nat (length (fs @ [f]))) heap s1"
        using some(1) ok(1) by (simp del: length_append of_nat_Suc)
      moreover have "unat ?a + 4096 * (length (fs @ [f]) + n) < 2 ^ 47" using Suc.prems(2) by simp
      ultimately show ?thesis using Suc.IH [OF hs1] by (simp only: length_append_singleton add_Suc_right add_Suc)
    qed
  qed
qed

section \<open>Properties\<close>

lemma heap_size_limit:
  "(\<exists>n. checked_mul pages PAGE_SIZE = Some n \<and> \<not> HEAP_SIZE < n) \<longleftrightarrow> unat pages \<le> 4096"
proof
  assume "\<exists>n. checked_mul pages PAGE_SIZE = Some n \<and> \<not> HEAP_SIZE < n"
  then obtain n where n: "checked_mul pages PAGE_SIZE = Some n" "\<not> HEAP_SIZE < n" by blast
  have "unat n = unat pages * 4096" using checked_mul_SomeD(2) [OF n(1)] by (simp add: PAGE_SIZE_def)
  with n(2) show "unat pages \<le> 4096" by (simp add: word_less_nat_alt HEAP_SIZE_def)
next
  assume "unat pages \<le> 4096"
  then have n: "checked_mul pages PAGE_SIZE = Some (pages * PAGE_SIZE)" by (simp add: checked_mul_def PAGE_SIZE_def)
  have "unat (pages * PAGE_SIZE) = unat pages * 4096" using checked_mul_SomeD(2) [OF n] by (simp add: PAGE_SIZE_def)
  with n \<open>unat pages \<le> 4096\<close> show "\<exists>n. checked_mul pages PAGE_SIZE = Some n \<and> \<not> HEAP_SIZE < n"
    by (simp add: word_less_nat_alt HEAP_SIZE_def)
qed

lemma heap_state_start:
  "vm_ok r s \<Longrightarrow> heap_state r (pages_of (fst s) r) (tables (fst s) r) (avail_frames (snd s)) (held_frames (snd s)) a [] s"
  by (auto simp: heap_state_def)

text \<open>
  C3.  Initialising the heap is all or nothing.  For 1 to 4096 pages \<open>initialize\<close> returns; on success
  exactly the pages of the heap from 1 GiB on are added, backed by distinct frames that were free,
  writable and not accessible to users; on any error no page is mapped or unmapped, the heap is as
  before, and every frame taken is back in the pool except those that became page tables.
\<close>

theorem heap_initialize_transactional:
  assumes "vm_reachable es ks ke mem as r s" and "0 < unat pages" and "unat pages \<le> 4096"
  shows "\<exists>res heap s'. KernelHeap_initialize r pages KernelHeap_new s = ret (res, heap, s') \<and> (case res of
      Inr _ \<Rightarrow> heap = KernelHeap_new\<lparr>mapped_pages := pages, initialized := True\<rparr>
        \<and> (\<exists>fs. length fs = unat pages \<and> distinct fs \<and> set fs \<subseteq> avail_frames (snd s)
             \<and> pages_of (fst s') r = heap_pages HEAP_START fs (pages_of (fst s) r))
    | Inl _ \<Rightarrow> heap = KernelHeap_new \<and> pages_of (fst s') r = pages_of (fst s) r
        \<and> avail_frames (snd s') = avail_frames (snd s) - (tables (fst s') r - tables (fst s) r))"
proof -
  let ?h = KernelHeap_new
  have start: "heap_start ?h = HEAP_START" "heap_size ?h = HEAP_SIZE" "\<not> initialized ?h" "mapped_pages ?h = 0"
    by (simp_all add: KernelHeap_new_def)
  have vm: "vm_ok r s" using assms(1) by (rule vm_reachable_ok)
  have H: "held_frames (snd s) \<inter> avail_frames (snd s) = {}"
    using pool.disjoint [of "snd s"] vm by (auto simp: vm_ok_def vm_inv_def)
  have al: "heap_start ?h mod PAGE_SIZE = 0" by (simp add: start HEAP_START_def PAGE_SIZE_def)
  have range: "unat (heap_start ?h) + 4096 * (length [] + unat pages) < 2 ^ 47"
    using assms(3) by (simp add: start HEAP_START_def)
  obtain res heap s' where run: "initialize_loop r (unat pages) (heap_start ?h) 0 ?h s = ret (res, heap, s')"
    and res: "heap_result r (pages_of (fst s) r) (tables (fst s) r) (avail_frames (snd s)) (held_frames (snd s))
      (unat pages) ?h (res, heap, s')"
    using initialize_loop_ok [OF heap_state_start [OF vm, of "heap_start ?h"] H al range] by (auto simp: page_at_simps)
  have run2: "KernelHeap_initialize r pages ?h s = ret (res, heap, s')"
    using heap_size_limit [of pages] assms(2,3) run start by (auto simp: KernelHeap_initialize_def)
  have reset: "?h\<lparr>mapped_pages := 0, initialized := False\<rparr> = ?h" by (simp add: KernelHeap_new_def)
  have nil: "heap_pages HEAP_START [] m = m" for m by simp
  show ?thesis
  proof (cases res)
    case (Inl e)
    then have hs: "heap_state r (pages_of (fst s) r) (tables (fst s) r) (avail_frames (snd s)) (held_frames (snd s)) HEAP_START [] s'"
      and heap: "heap = ?h\<lparr>mapped_pages := 0, initialized := False\<rparr>" using res start(1) by (simp_all add: heap_result_def)
    show ?thesis using run2 heap reset nil heap_stateD(2,9) [OF hs] Inl by (simp del: not_None_eq)
  next
    case (Inr u)
    then obtain fs where fs: "length fs = unat pages"
      and hs: "heap_state r (pages_of (fst s) r) (tables (fst s) r) (avail_frames (snd s)) (held_frames (snd s)) HEAP_START fs s'"
      and heap: "heap = ?h\<lparr>mapped_pages := pages, initialized := True\<rparr>" using res start(1) by (auto simp: heap_result_def)
    from heap_stateD(2,4,5) [OF hs] fs
    have "\<exists>fs. length fs = unat pages \<and> distinct fs \<and> set fs \<subseteq> avail_frames (snd s)
      \<and> pages_of (fst s') r = heap_pages HEAP_START fs (pages_of (fst s) r)" by blast
    with run2 heap Inr show ?thesis by (simp del: not_None_eq)
  qed
qed

text \<open>
  \<open>initialize\<close> refuses without any effect: an initialised heap, a page count of zero, one whose
  size in bytes overflows, and one above the 16 MiB of the heap, each with its own error.
\<close>

theorem heap_initialize_refuses:
  assumes "heap_size heap = HEAP_SIZE" and "initialized heap \<or> pages = 0 \<or> 4096 < unat pages"
  shows "KernelHeap_initialize r pages heap s = ret (Inl (if initialized heap then HeapAlreadyInitialized
      else if pages = 0 then HeapPageCountZero
      else if 2 ^ 52 \<le> unat pages then HeapSizeOverflow else HeapTooLarge), heap, s)"
proof -
  have "checked_mul pages PAGE_SIZE = None \<longleftrightarrow> 2 ^ 52 \<le> unat pages"
    by (auto simp: checked_mul_def PAGE_SIZE_def)
  then show ?thesis
    using assms heap_size_limit [of pages] by (auto simp: KernelHeap_initialize_def split: option.splits)
qed

theorem heap_initialize_transactional_witness:
  "\<exists>r s res heap s'. vm_reachable [ram_16M] 0x200000 0x210000 (\<lambda>_. 0) [] r s
    \<and> KernelHeap_initialize r 2 KernelHeap_new s = ret (res, heap, s')
    \<and> (case res of Inr _ \<Rightarrow> initialized heap | Inl _ \<Rightarrow> heap = KernelHeap_new)"
proof -
  obtain r s0 where s: "vm_reachable [ram_16M] 0x200000 0x210000 (\<lambda>_. 0) [] r s0"
    by (rule small_vm [of "\<lambda>_. 0"])
  obtain res heap s' where run: "KernelHeap_initialize r 2 KernelHeap_new s0 = ret (res, heap, s')"
    and "case res of Inr _ \<Rightarrow> heap = KernelHeap_new\<lparr>mapped_pages := 2, initialized := True\<rparr> | Inl _ \<Rightarrow> heap = KernelHeap_new"
    using heap_initialize_transactional [OF s, of 2] by (fastforce split: sum.splits)
  then have "case res of Inr _ \<Rightarrow> initialized heap | Inl _ \<Rightarrow> heap = KernelHeap_new" by (auto split: sum.splits)
  with s run show ?thesis by blast
qed

theorem heap_initialize_refuses_witness:
  "KernelHeap_initialize 0x1000 4097 KernelHeap_new (\<lambda>_. 0, FrameAllocator_empty)
     = ret (Inl HeapTooLarge, KernelHeap_new, \<lambda>_. 0, FrameAllocator_empty)"
  using heap_initialize_refuses [of KernelHeap_new 4097 "0x1000" "(\<lambda>_. 0, FrameAllocator_empty)"]
  by (simp add: KernelHeap_new_def)

end
