(* ===== verification/Self_Tests.thy ===== *)
theory Self_Tests
  imports Syscall Spin_Lock Ipc Heap
begin

text \<open>
  The state of the kernel during boot, and the self tests of \<open>bin/kernel.rs\<close>: the object table, the IPC manager, the
  system-call dispatcher, the model-specific registers and the spin lock.  Each test stops the kernel at the
  first check that fails; the lemmas at the end show that none does.
\<close>

section \<open>The kernel state\<close>

record Kernel = cpu_tables +
  msrs :: msr_file
  unbound_syscall_stack_top :: u64
  cr3 :: u64
  vm :: vm_state
  KERNEL_OBJECTS :: ObjectTable
  IPC_MANAGER :: IpcManager

definition objects_create :: "ObjectType \<Rightarrow> (Kernel, ObjectHandle option) kernel" where
  "objects_create ty = kstate (\<lambda>k. case ObjectTable_create ty (KERNEL_OBJECTS k) of (h, t) \<Rightarrow> (h, k\<lparr>KERNEL_OBJECTS := t\<rparr>))"

definition objects_retain :: "ObjectHandle \<Rightarrow> (Kernel, bool) kernel" where
  "objects_retain h = kstate (\<lambda>k. case ObjectTable_retain h (KERNEL_OBJECTS k) of (b, t) \<Rightarrow> (b, k\<lparr>KERNEL_OBJECTS := t\<rparr>))"

definition objects_release :: "ObjectHandle \<Rightarrow> (Kernel, bool) kernel" where
  "objects_release h = kstate (\<lambda>k. case ObjectTable_release h (KERNEL_OBJECTS k) of (b, t) \<Rightarrow> (b, k\<lparr>KERNEL_OBJECTS := t\<rparr>))"

definition objects_get :: "(ObjectTable \<Rightarrow> 'a) \<Rightarrow> (Kernel, 'a) kernel" where
  "objects_get f = kget (\<lambda>k. f (KERNEL_OBJECTS k))"

definition ipc_create :: "(Kernel, IpcHandle option) kernel" where
  "ipc_create = kstate (\<lambda>k. case IpcManager_create (IPC_MANAGER k) of (h, m) \<Rightarrow> (h, k\<lparr>IPC_MANAGER := m\<rparr>))"

definition ipc_call :: "(IpcManager \<Rightarrow> ('a \<times> IpcManager) run) \<Rightarrow> (Kernel, 'a) kernel" where
  "ipc_call f = krun (\<lambda>k. do { (a, m) \<leftarrow> f (IPC_MANAGER k); ret (a, k\<lparr>IPC_MANAGER := m\<rparr>) })"

definition ipc_get :: "(IpcManager \<Rightarrow> 'a run) \<Rightarrow> (Kernel, 'a) kernel" where
  "ipc_get f = krun (\<lambda>k. do { a \<leftarrow> f (IPC_MANAGER k); ret (a, k) })"

section \<open>The object test\<close>

definition object_thread_test :: "ObjectHandle \<Rightarrow> ObjectHandle \<Rightarrow> (Kernel, unit) kernel" where
  "object_thread_test process thread = kblock [
     say ''OBJECT REUSE: '',
     pass_or_halt (ObjectHandle_index thread = ObjectHandle_index process
       \<and> ObjectHandle_generation thread \<noteq> ObjectHandle_generation process),
     say ''STALE HANDLE: '',
     kbind (objects_get (\<lambda>t. \<not> ObjectTable_is_valid t process \<and> ObjectTable_is_valid t thread)) pass_or_halt,
     say ''OBJECT TYPE ISOLATION: '',
     kbind (objects_get (\<lambda>t. ObjectTable_get_type t thread = Some Thread \<and> ObjectTable_get_type t process \<noteq> Some Thread)) pass_or_halt,
     say ''OBJECT CLEANUP: '',
     kbind (objects_release thread) pass_or_halt,
     say ''OBJECT TABLE FINAL: '',
     kbind (objects_get (\<lambda>t. ObjectTable_count t = 0)) pass_or_halt,
     sayln ''KERNEL OBJECTS: PASS'']"

definition object_process_test :: "ObjectHandle \<Rightarrow> (Kernel, unit) kernel" where
  "object_process_test process = kblock [
     sayln ''OBJECT CREATE: PASS'',
     say ''OBJECT HANDLE: '',
     kbind (objects_get (\<lambda>t. ObjectTable_is_valid t process)) pass_or_halt,
     say ''OBJECT TYPE: '',
     kbind (objects_get (\<lambda>t. ObjectTable_get_type t process = Some Process)) pass_or_halt,
     say ''OBJECT RETAIN: '',
     kbind (objects_retain process) pass_or_halt,
     say ''OBJECT RELEASE: '',
     kbind (objects_release process) (\<lambda>released.
       if released then kbind (objects_get (\<lambda>t. ObjectTable_is_valid t process)) pass_or_halt else pass_or_halt False),
     say ''OBJECT FINAL RELEASE: '',
     kbind (objects_release process) pass_or_halt,
     say ''OBJECT DESTROY: '',
     kbind (objects_get (\<lambda>t. \<not> ObjectTable_is_valid t process)) pass_or_halt,
     kbind (objects_create Thread) (\<lambda>thread. case thread of
       None \<Rightarrow> kblock [sayln ''OBJECT REUSE: FAIL'', khalt]
     | Some thread \<Rightarrow> object_thread_test process thread)]"

definition run_kernel_object_test :: "(Kernel, unit) kernel" where
  "run_kernel_object_test = kblock [
     sayln (crlf @ ''KERNEL OBJECT TEST''),
     say ''OBJECT TABLE INITIAL: '',
     kbind (objects_get (\<lambda>t. ObjectTable_count t = 0)) pass_or_halt,
     kbind (objects_create Process) (\<lambda>process. case process of
       None \<Rightarrow> kblock [sayln ''OBJECT CREATE: FAIL'', khalt]
     | Some process \<Rightarrow> object_process_test process)]"

section \<open>The IPC test\<close>

definition bytes_of :: "string \<Rightarrow> u8 list" where
  "bytes_of s = map (\<lambda>c. of_nat (of_char c)) s"

text \<open>A check that releases the sender before it halts.\<close>

definition ipc_check :: "ObjectHandle \<Rightarrow> bool \<Rightarrow> (Kernel, unit) kernel" where
  "ipc_check sender_h ok = (if ok then sayln ''PASS''
     else kblock [sayln ''FAIL'', kbind (objects_release sender_h) (\<lambda>_. kret ()), khalt])"

definition ipc_message_test :: "IpcHandle \<Rightarrow> ObjectHandle \<Rightarrow> u8 list \<Rightarrow> IpcMessage \<Rightarrow> (Kernel, unit) kernel" where
  "ipc_message_test endpoint sender_h payload message = kblock [
     say ''IPC SENDER: '',
     ipc_check sender_h (sender message = sender_h),
     say ''IPC MESSAGE: '',
     kbind (ipc_get (\<lambda>_. IpcMessage_payload message)) (\<lambda>p. ipc_check sender_h (p = payload)),
     say ''IPC EMPTY: '',
     kbind (ipc_get (IpcManager_queue_len endpoint)) (\<lambda>n. ipc_check sender_h (n = Some 0)),
     say ''IPC DESTROY: '',
     kbind (ipc_call (IpcManager_destroy endpoint)) (ipc_check sender_h),
     say ''IPC STALE HANDLE: '',
     kbind (ipc_get (\<lambda>m. IpcManager_is_valid m endpoint)) (\<lambda>v. ipc_check sender_h (\<not> v)),
     kbind (objects_release sender_h) (\<lambda>_. kret ()),
     say ''IPC CLEANUP: '',
     kbind (kget (\<lambda>k. IpcManager_count (IPC_MANAGER k) = 0 \<and> ObjectTable_count (KERNEL_OBJECTS k) = 0)) pass_or_halt,
     sayln ''IPC: PASS'']"

definition ipc_transfer_test :: "IpcHandle \<Rightarrow> ObjectHandle \<Rightarrow> u8 list \<Rightarrow> (Kernel, unit) kernel" where
  "ipc_transfer_test endpoint sender_h payload = kblock [
     say ''IPC SEND: '',
     kbind (ipc_call (IpcManager_send endpoint sender_h payload)) (ipc_check sender_h),
     say ''IPC QUEUE: '',
     kbind (ipc_get (IpcManager_queue_len endpoint)) (\<lambda>n. ipc_check sender_h (n = Some 1)),
     kbind (ipc_call (IpcManager_receive endpoint)) (\<lambda>message. case message of
       Some message \<Rightarrow> kblock [sayln ''IPC RECEIVE: PASS'', ipc_message_test endpoint sender_h payload message]
     | None \<Rightarrow> kblock [sayln ''IPC RECEIVE: FAIL'', kbind (objects_release sender_h) (\<lambda>_. kret ()), khalt])]"

definition run_ipc_test :: "(Kernel, unit) kernel" where
  "run_ipc_test = kblock [
     sayln (crlf @ ''IPC TEST''),
     say ''IPC INITIAL: '',
     kbind (kget (\<lambda>k. IpcManager_count (IPC_MANAGER k) = 0)) pass_or_halt,
     kbind ipc_create (\<lambda>endpoint. case endpoint of
       None \<Rightarrow> kblock [sayln ''IPC ENDPOINT CREATE: FAIL'', khalt]
     | Some endpoint \<Rightarrow> kblock [
         sayln ''IPC ENDPOINT CREATE: PASS'',
         say ''IPC HANDLE: '',
         kbind (ipc_get (\<lambda>m. IpcManager_is_valid m endpoint)) pass_or_halt,
         kbind (objects_create Process) (\<lambda>sender_h. case sender_h of
           None \<Rightarrow> kblock [sayln ''IPC SENDER CREATE: FAIL'', khalt]
         | Some sender_h \<Rightarrow> ipc_transfer_test endpoint sender_h (bytes_of ''Hello from Unbound IPC''))])]"

section \<open>The system-call and register tests\<close>

definition run_syscall_test :: "(Kernel, unit) kernel" where
  "run_syscall_test = kblock [
     sayln (crlf @ ''SYSCALL TEST''),
     say ''SYSCALL GET_VERSION: '',
     let version = dispatch SYS_GET_VERSION 0 0 0 in
       if version = UNBOUND_SYSCALL_ABI_VERSION then sayln ''PASS''
       else kblock [sayln ''FAIL'', say ''EXPECTED: '', say_hex64 UNBOUND_SYSCALL_ABI_VERSION, say (crlf @ ''ACTUAL: ''),
         say_hex64 version, say crlf, khalt],
     say ''SYSCALL UNKNOWN: '',
     let unknown = dispatch 0xFFFF 0 0 0 in
       if unknown = - 1 then sayln ''PASS''
       else kblock [sayln ''FAIL'', line_hex64 ''RETURNED: '' unknown, khalt],
     sayln ''SYSCALL: PASS'']"

definition run_msr_test :: "(Kernel, unit) kernel" where
  "run_msr_test = kblock [
     sayln (crlf @ ''MSR TEST''),
     say ''MSR EFER READ: '',
     kbind (kget (\<lambda>k. read_efer (msrs k))) (\<lambda>before. kblock [sayln ''PASS'', line_hex64 ''EFER BEFORE: 0x'' before]),
     say ''MSR EFER.SCE ENABLE: '',
     kmodify (\<lambda>k. k\<lparr>msrs := enable_syscall_extensions (msrs k)\<rparr>),
     sayln ''PASS'',
     say ''MSR EFER.SCE VERIFY: '',
     kbind (kget (\<lambda>k. syscall_extensions_enabled (msrs k))) pass_or_halt,
     kbind (kget (\<lambda>k. read_efer (msrs k))) (line_hex64 ''EFER AFTER: 0x''),
     sayln ''MSR SCE: PASS'']"

text \<open>Printing and checking one register after it was programmed.\<close>

definition check_msr :: "string \<Rightarrow> (msr_file \<Rightarrow> u64) \<Rightarrow> u64 \<Rightarrow> (Kernel, unit) kernel \<Rightarrow> (Kernel, unit) kernel" where
  "check_msr name rd expected complain = kbind (kget (\<lambda>k. rd (msrs k))) (\<lambda>v. kblock [
     line_hex64 (name @ '': 0x'') v,
     say (name @ '' VERIFY: ''),
     if v = expected then sayln ''PASS'' else kblock [sayln ''FAIL'', complain, khalt]])"

definition print_selectors :: "(Kernel, unit) kernel" where
  "print_selectors = kblock [
     sayln ''SYSCALL SELECTORS'',
     line_hex32 ''KERNEL CS: 0x'' (ucast KERNEL_CODE_SELECTOR),
     line_hex32 ''KERNEL SS: 0x'' (ucast KERNEL_DATA_SELECTOR),
     line_hex32 ''USER CODE BASE: 0x'' (ucast USER_CODE_SELECTOR),
     line_hex32 ''USER DATA BASE: 0x'' (ucast USER_DATA_SELECTOR),
     line_hex32 ''USER CODE R3: 0x'' (ucast USER_CODE_SELECTOR_R3),
     line_hex32 ''USER DATA R3: 0x'' (ucast USER_DATA_SELECTOR_R3)]"

definition run_syscall_msr_test :: "Addresses \<Rightarrow> (Kernel, unit) kernel" where
  "run_syscall_msr_test L = (let entry = syscall_entry_address L in kblock [
     sayln (crlf @ ''SYSCALL MSR TEST''),
     line_hex64 ''SYSCALL ENTRY ADDRESS: 0x'' entry,
     if entry = 0 then kblock [sayln ''SYSCALL ENTRY ADDRESS: FAIL'', khalt] else kret (),
     sayln ''SYSCALL ENTRY ADDRESS: PASS'',
     say ''SYSCALL MSR INITIALIZATION: '',
     kmodify (\<lambda>k. k\<lparr>msrs := init_syscall_msrs entry (msrs k)\<rparr>),
     sayln ''PASS'',
     check_msr ''STAR'' read_star make_star (line_hex64 ''EXPECTED STAR: 0x'' make_star),
     check_msr ''LSTAR'' read_lstar entry (line_hex64 ''EXPECTED LSTAR: 0x'' entry),
     check_msr ''CSTAR'' read_cstar 0 (sayln ''EXPECTED CSTAR: 0x0000000000000000''),
     check_msr ''FMASK'' read_fmask SYSCALL_FMASK (line_hex64 ''EXPECTED FMASK: 0x'' SYSCALL_FMASK),
     say ''SYSCALL MSR FINAL VERIFY: '',
     kbind (kget (\<lambda>k. verify_syscall_msrs entry (msrs k))) pass_or_halt,
     print_selectors,
     sayln ''SYSCALL MSRS: PASS''])"

section \<open>The spin lock test\<close>

text \<open>The lock is a local variable; \<open>l\<close> is its value.  A lock that cannot be taken would spin forever.\<close>

definition spinlock_test :: "(Kernel, unit) kernel" where
  "spinlock_test = (let l = SpinLock_new (0 :: u64) in kblock [
     sayln (crlf @ ''SPINLOCK TEST''),
     say ''SPINLOCK INITIAL STATE: '',
     pass_or_halt (\<not> SpinLock_is_locked l),
     say ''SPINLOCK ACQUIRE: '',
     kbind (krun (\<lambda>k. map_option (\<lambda>l. (l, k)) (SpinLock_lock l))) (\<lambda>l. kblock [
       pass_or_halt (SpinLock_is_locked l),
       let l = SpinLockGuard_drop (SpinLockGuard_write 0x12345678 l) in kblock [
         say ''SPINLOCK RELEASE: '',
         pass_or_halt (\<not> SpinLock_is_locked l),
         say ''SPINLOCK DATA: '',
         kbind (krun (\<lambda>k. map_option (\<lambda>l. (l, k)) (SpinLock_lock l))) (\<lambda>l. pass_or_halt (SpinLockGuard_deref l = 0x12345678))]]),
     sayln ''SPINLOCK: PASS''])"

text \<open>The tests in the order of the boot sequence.\<close>

definition boot_tests :: "Addresses \<Rightarrow> (Kernel, unit) kernel" where
  "boot_tests L = kblock [spinlock_test, run_kernel_object_test, run_ipc_test, run_syscall_test, run_msr_test, run_syscall_msr_test L]"

section \<open>No check fails\<close>

text \<open>The tests work on the first slot of the two tables; \<open>rest\<close> is the unused remainder.\<close>

abbreviation free_object :: "u32 \<Rightarrow> ObjectSlot" where
  "free_object g \<equiv> \<lparr>occupied = False, generation = g, slot_record = None\<rparr>"

abbreviation used_object :: "u32 \<Rightarrow> ObjectType \<Rightarrow> u32 \<Rightarrow> ObjectSlot" where
  "used_object g ty n \<equiv> \<lparr>occupied = True, generation = g, slot_record = Some \<lparr>object_type = ty, references = n\<rparr>\<rparr>"

lemma first_object:
  assumes "g \<noteq> 0"
  shows "ObjectTable_create ty (free_object g # rest) = (Some (pack_handle 0 g), used_object g ty 1 # rest)"
    and "ObjectTable_retain (pack_handle 0 g) (used_object g ty 1 # rest) = (True, used_object g ty 2 # rest)"
    and "ObjectTable_release (pack_handle 0 g) (used_object g ty 2 # rest) = (True, used_object g ty 1 # rest)"
    and "ObjectTable_release (pack_handle 0 g) (used_object g ty 1 # rest) = (True, free_object (bump_generation g) # rest)"
    and "ObjectTable_is_valid (used_object g' ty n # rest) (pack_handle 0 g) \<longleftrightarrow> g' = g"
    and "\<not> ObjectTable_is_valid (free_object g' # rest) (pack_handle 0 g)"
    and "ObjectTable_get_type (used_object g' ty n # rest) (pack_handle 0 g) = (if g' = g then Some ty else None)"
  using assms pack_handle_nonzero [of 0 g]
  by (simp_all add: ObjectTable_create_def ObjectTable_retain_def ObjectTable_release_def ObjectTable_is_valid_def
      ObjectTable_get_type_def ObjectSlot_is_free_def ObjectRecord_new_def ObjectSlot_clear_def object_handle_defs MAX_KERNEL_OBJECTS_def)

lemma bump_generation_neq [simp]: "bump_generation g \<noteq> g" if "g \<noteq> 0"
  using that by (auto simp: bump_generation_def Let_def split: if_splits)

lemma run_kernel_object_test_passes:
  assumes "KERNEL_OBJECTS k = free_object g # rest" "g \<noteq> 0" "filter occupied rest = []"
  shows "outcome_of run_kernel_object_test k
    = Returned () (k\<lparr>KERNEL_OBJECTS := free_object (bump_generation (bump_generation g)) # rest\<rparr>)"
  using assms bump_generation_neq [of g]
  by (simp add: run_kernel_object_test_def object_process_test_def object_thread_test_def objects_create_def objects_retain_def
      objects_release_def objects_get_def outcome_simps first_object ObjectTable_count_def ObjectHandle_index_def
      ObjectHandle_generation_def)

abbreviation free_endpoint :: "u32 \<Rightarrow> IpcQueue \<Rightarrow> IpcEndpointSlot" where
  "free_endpoint g q \<equiv> \<lparr>ep_occupied = False, ep_generation = g, ep_queue = q\<rparr>"

abbreviation open_endpoint :: "u32 \<Rightarrow> IpcQueue \<Rightarrow> IpcEndpointSlot" where
  "open_endpoint g q \<equiv> \<lparr>ep_occupied = True, ep_generation = g, ep_queue = q\<rparr>"

lemma first_endpoint:
  assumes "g \<noteq> 0"
  shows "IpcManager_create (free_endpoint g q # rest) = (Some (pack_handle 0 g), open_endpoint g q # rest)"
    and "endpoint_slot (open_endpoint g q # rest) (pack_handle 0 g) = ret (Some (open_endpoint g q))"
    and "IpcManager_is_valid (open_endpoint g q # rest) (pack_handle 0 g) = ret True"
    and "IpcManager_is_valid (free_endpoint g' q # rest) (pack_handle 0 g) = ret False"
  using assms pack_handle_nonzero [of 0 g]
  by (simp_all add: IpcManager_create_def endpoint_slot_def IpcManager_is_valid_def ipc_handle_defs MAX_IPC_ENDPOINTS_def run_simps)

lemma run_ipc_test_passes:
  assumes objects: "KERNEL_OBJECTS k = free_object g # rest" "g \<noteq> 0" "filter occupied rest = []"
    and ipc: "IPC_MANAGER k = free_endpoint ge q # erest" "ge \<noteq> 0" "filter ep_occupied erest = []"
    and queue: "IpcQueue_inv q" "ring_contents q = []"
  obtains q' where "outcome_of run_ipc_test k = Returned () (k\<lparr>KERNEL_OBJECTS := free_object (bump_generation g) # rest,
      IPC_MANAGER := free_endpoint (bump_generation ge) q' # erest\<rparr>)" "IpcQueue_inv q'" "ring_contents q' = []"
proof -
  let ?data = "bytes_of ''Hello from Unbound IPC''"
  obtain m where m: "IpcMessage_new (pack_handle 0 g) ?data = ret (Some m)" "IpcMessage_ok m" "message_view m = (pack_handle 0 g, ?data)"
    by (rule IpcMessage_new_ok [of ?data]) (simp add: bytes_of_def IPC_MESSAGE_SIZE_def)
  have "queue_count q = 0" using queue length_ring_contents [of q] by simp
  then obtain q1 where q1: "IpcQueue_send m q = ret (True, q1)" "IpcQueue_inv q1" "ring_contents q1 = [m]"
    using IpcQueue_send_room [OF queue(1) m(2)] queue(2) by (auto simp: IPC_QUEUE_CAPACITY_def)
  then obtain q2 where q2: "IpcQueue_receive q1 = ret (Some m, q2)" "IpcQueue_inv q2" "ring_contents q2 = []"
    using IpcQueue_receive_some by blast
  have len: "IpcQueue_len q1 = 1" "IpcQueue_len q2 = 0"
    using q1(3) q2(3) length_ring_contents [of q1] length_ring_contents [of q2] by (simp_all add: IpcQueue_len_def)
  have "sender m = pack_handle 0 g" "IpcMessage_payload m = ret ?data"
    using m(2,3) by (simp_all add: IpcMessage_payload_ok message_view_def)
  then have "outcome_of run_ipc_test k = Returned () (k\<lparr>KERNEL_OBJECTS := free_object (bump_generation g) # rest,
      IPC_MANAGER := free_endpoint (bump_generation ge) q2 # erest\<rparr>)"
    using objects ipc q1(1) q2(1,3) len m(1)
    by (simp add: run_ipc_test_def ipc_transfer_test_def ipc_message_test_def ipc_check_def objects_create_def objects_release_def
        ipc_create_def ipc_call_def ipc_get_def outcome_simps first_object first_endpoint ObjectTable_count_def IpcManager_count_def
        IpcManager_send_def IpcManager_receive_def IpcManager_queue_len_def IpcManager_destroy_def IpcQueue_is_empty_iff
        IpcEndpointSlot_clear_def IpcHandle_index_def)
  from this q2(2,3) show thesis by (rule that)
qed

lemma run_syscall_test_passes: "outcome_of run_syscall_test k = Returned () k"
  by (simp add: run_syscall_test_def outcome_simps dispatch_def SYS_GET_VERSION_def Let_def)

lemma run_msr_test_passes:
  "outcome_of run_msr_test k = Returned () (k\<lparr>msrs := enable_syscall_extensions (msrs k)\<rparr>)"
  by (simp add: run_msr_test_def outcome_simps enable_then_enabled)

lemma spinlock_test_passes: "outcome_of spinlock_test k = Returned () k"
  by (simp add: spinlock_test_def outcome_simps Let_def SpinLock_new_def SpinLock_is_locked_def lock_free SpinLockGuard_drop_def
      SpinLockGuard_write_def SpinLockGuard_deref_def)

lemma run_syscall_msr_test_passes:
  assumes "syscall_entry_address L \<noteq> 0"
  shows "outcome_of (run_syscall_msr_test L) k = Returned () (k\<lparr>msrs := init_syscall_msrs (syscall_entry_address L) (msrs k)\<rparr>)"
proof -
  let ?m = "init_syscall_msrs (syscall_entry_address L) (msrs k)"
  have "read_star ?m = make_star" "read_lstar ?m = syscall_entry_address L" "read_cstar ?m = 0" "read_fmask ?m = SYSCALL_FMASK"
    using init_then_verify [of "syscall_entry_address L" "msrs k"] by (auto simp: verify_syscall_msrs_def Let_def split: if_splits)
  with assms init_then_verify [of "syscall_entry_address L" "msrs k"] show ?thesis
    by (simp add: run_syscall_msr_test_def outcome_simps Let_def check_msr_def print_selectors_def)
qed

text \<open>What the tests need, and what they leave behind: both tables are empty again.\<close>

definition tests_ready :: "Kernel \<Rightarrow> bool" where
  "tests_ready k \<longleftrightarrow> KERNEL_OBJECTS k = ObjectTable_new \<and> IPC_MANAGER k = IpcManager_new"

lemma boot_tests_outcome:
  assumes "tests_ready k" and "syscall_entry_address L \<noteq> 0"
  obtains objects ipc where "ObjectTable_count objects = 0" and "IpcManager_count ipc = 0"
    and "outcome_of (boot_tests L) k = Returned () (k\<lparr>KERNEL_OBJECTS := objects, IPC_MANAGER := ipc,
      msrs := init_syscall_msrs (syscall_entry_address L) (enable_syscall_extensions (msrs k))\<rparr>)"
proof -
  let ?rest = "replicate 63 ObjectSlot_empty" let ?erest = "replicate 15 IpcEndpointSlot_empty" let ?g = "bump_generation (bump_generation 1)"
  define k1 where "k1 = k\<lparr>KERNEL_OBJECTS := free_object ?g # ?rest\<rparr>"
  have "KERNEL_OBJECTS k = free_object 1 # ?rest"
    using assms(1) by (simp add: tests_ready_def ObjectTable_new_def MAX_KERNEL_OBJECTS_def eval_nat_numeral ObjectSlot_empty_def)
  then have objects: "outcome_of run_kernel_object_test k = Returned () k1"
    using run_kernel_object_test_passes [of k 1 ?rest] by (simp add: ObjectSlot_empty_def k1_def)
  have "IPC_MANAGER k1 = free_endpoint 1 IpcQueue_new # ?erest"
    using assms(1) by (simp add: k1_def tests_ready_def IpcManager_new_def MAX_IPC_ENDPOINTS_def eval_nat_numeral IpcEndpointSlot_empty_def)
  then obtain q where ipc: "outcome_of run_ipc_test k1 = Returned () (k1\<lparr>KERNEL_OBJECTS := free_object (bump_generation ?g) # ?rest,
      IPC_MANAGER := free_endpoint (bump_generation 1) q # ?erest\<rparr>)"
    using run_ipc_test_passes [of k1 ?g ?rest 1 IpcQueue_new ?erest] IpcQueue_new_inv ring_contents_new
    by (auto simp: k1_def ObjectSlot_empty_def IpcEndpointSlot_empty_def)
  show thesis
    by (rule that [of "free_object (bump_generation ?g) # ?rest" "free_endpoint (bump_generation 1) q # ?erest"])
      (use objects ipc assms(2) in \<open>simp_all add: boot_tests_def outcome_simps spinlock_test_passes run_syscall_test_passes
        run_msr_test_passes run_syscall_msr_test_passes k1_def ObjectTable_count_def IpcManager_count_def ObjectSlot_empty_def
        IpcEndpointSlot_empty_def\<close>)
qed

text \<open>
  None of the self tests fails.  From the initial tables and with a system-call entry point, the tests of the spin
  lock, the objects, IPC, system calls and registers all return, no check halts the kernel and nothing panics; they
  leave both tables empty, have programmed the system-call registers, and have changed nothing else.
\<close>

theorem self_tests_pass:
  assumes "tests_ready k" and "syscall_entry_address L \<noteq> 0"
  shows "\<exists>objects ipc. outcome_of (boot_tests L) k = Returned () (k\<lparr>KERNEL_OBJECTS := objects, IPC_MANAGER := ipc,
      msrs := init_syscall_msrs (syscall_entry_address L) (enable_syscall_extensions (msrs k))\<rparr>)
    \<and> ObjectTable_count objects = 0 \<and> IpcManager_count ipc = 0"
  using boot_tests_outcome [OF assms] by blast

text \<open>The kernel state with the initial values of the statics.\<close>

definition reset_kernel :: "memory \<Rightarrow> Kernel" where
  "reset_kernel mem = cpu_tables.extend reset_tables
     (Kernel.fields (\<lambda>_. 0) 0 0 (mem, FrameAllocator_empty) ObjectTable_new IpcManager_new)"

lemma reset_kernel_ready: "tests_ready (reset_kernel mem)"
  by (simp add: tests_ready_def reset_kernel_def Kernel.defs cpu_tables.defs)

theorem self_tests_pass_witness:
  "\<exists>k. outcome_of (boot_tests example_addresses) (reset_kernel (\<lambda>_. 0)) = Returned () k \<and> read_lstar (msrs k) = syscall_entry_address example_addresses"
proof -
  have "syscall_entry_address example_addresses \<noteq> 0" by (simp add: syscall_entry_address_def example_addresses_def)
  from self_tests_pass [OF reset_kernel_ready this, of "\<lambda>_. 0"] show ?thesis
    using init_then_verify [of "syscall_entry_address example_addresses"] by (fastforce simp: verify_syscall_msrs_def Let_def split: if_splits)
qed

end
