(* ===== verification/Memory_Budget.thy ===== *)
theory Memory_Budget
  imports Heap
begin

text \<open>
  How many frames the operations on an address space need at most, and that they succeed when they have them.
  \<open>vm_at r m n s\<close> collects what the boot sequence keeps: the tables at \<open>r\<close> are intact, the pages are \<open>m\<close> and at least \<open>n\<close>
  frames are free.  The sequence of \<open>kernel/src/bin/kernel.rs\<close> is followed with these lemmas in theory \<open>Boot\<close>.
\<close>

section \<open>One page takes at most three tables\<close>

lemma ensure_tables_budget:
  assumes "vm_inv r s" and "is_path (p @ js)" and "descend (fst s) r p = Some t"
    and "ensure_tables t js w u s = ret (x, s')"
  shows "card (avail_frames (snd s)) \<le> length js + card (avail_frames (snd s'))"
  using assms
proof (induction js arbitrary: s p t)
  case Nil
  then show ?case by simp
next
  case (Cons i js)
  have p: "is_path p" "length p \<le> 2" "i < 512" using Cons.prems(2) by (auto simp: is_path_def)
  show ?case
    using Cons.prems(1) p(1,2) Cons.prems(3) p(3)
  proof (cases rule: get_or_create_cases [where w = w and u = u])
    case oom
    then show ?thesis by simp
  next
    case (ok t1 s1)
    have "ensure_tables t1 js w u s1 = ret (x, s')" using Cons.prems(4) ok(1) by simp
    moreover have "is_path ((p @ [i]) @ js)" using Cons.prems(2) by simp
    ultimately show ?thesis using Cons.IH [OF growsD(1) [OF ok(2)] _ ok(3)] ok(4) by fastforce
  qed
qed

lemma PageTable_map_budget:
  assumes "vm_ok r s" and "map_args_ok va pa" and "PageTable_map r va pa w u s = ret (x, s')"
  shows "card (avail_frames (snd s)) \<le> 3 + card (avail_frames (snd s'))"
proof -
  have "vm_inv r s" "is_path ([] @ va_path va)" "descend (fst s) r [] = Some r"
    using assms(1) va_path_ok(1) by (simp_all add: vm_ok_def)
  moreover obtain y s1 where "ensure_tables r (va_path va) w u s = ret (y, s1)" and "snd s' = snd s1"
    using assms(3) unfolding PageTable_map_eq [OF assms(2)]
    by (auto split: Option.bind_splits sum.splits if_splits)
  ultimately show ?thesis using ensure_tables_budget [of r s "[]" "va_path va" r w u y s1] va_path_ok(2) by simp
qed

section \<open>Address spaces with a budget\<close>

definition vm_at :: "u64 \<Rightarrow> pages \<Rightarrow> nat \<Rightarrow> vm_state \<Rightarrow> bool" where
  "vm_at r m n s \<longleftrightarrow> vm_ok r s \<and> pages_of (fst s) r = m \<and> n \<le> card (avail_frames (snd s))"

lemma vm_at_less: "vm_at r m n s \<Longrightarrow> k \<le> n \<Longrightarrow> vm_at r m k s"
  by (simp add: vm_at_def)

lemma new_at:
  assumes "FrameAllocator_inv fa" and "Suc n \<le> card (avail_frames fa)"
  obtains r s where "AddressSpace_new (mem, fa) = ret (Inr \<lparr>pml4_phys = r\<rparr>, s)" and "vm_at r Map.empty n s"
  using assms(1)
proof (cases rule: AddressSpace_new_cases [where mem = mem])
  case oom
  then show thesis using assms(2) by simp
next
  case (ok r fa')
  have "finite (avail_frames fa)" by (rule pool.finite_avail [OF assms(1)])
  then have "n \<le> card (avail_frames fa')" using ok(2,3) assms(2) by simp
  with ok that show thesis by (simp add: vm_at_def)
qed

lemma map_at:
  assumes "vm_at r m (n + 3) s" and "map_args_ok va pa" and "m va = None"
  obtains s' where "PageTable_map r va pa w u s = ret (Inr (), s')" and "vm_at r (m(va \<mapsto> (pa, w, u))) n s'"
proof -
  have vm: "vm_ok r s" "pages_of (fst s) r = m" "n + 3 \<le> card (avail_frames (snd s))" using assms(1) by (simp_all add: vm_at_def)
  from vm(1) assms(2) show thesis
  proof (cases rule: PageTable_map_cases [where w = w and u = u])
    case (ok s')
    have "card (avail_frames (snd s)) \<le> 3 + card (avail_frames (snd s'))"
      using PageTable_map_budget [OF vm(1) assms(2) ok(1)] .
    with ok vm show thesis by (intro that [of s']) (simp_all add: vm_at_def vm_step_def)
  qed (use vm assms(3) in simp_all)
qed

lemma unmap_at:
  assumes "vm_at r m n s" and "page_ok va" and "m va = Some (pa, w, u)"
  obtains mem' where "PageTable_unmap r va (fst s) = ret (Inr pa, mem')" and "vm_at r (m(va := None)) n (mem', snd s)"
proof -
  have vm: "vm_ok r s" "pages_of (fst s) r = m" "n \<le> card (avail_frames (snd s))" using assms(1) by (simp_all add: vm_at_def)
  from vm(1) assms(2) show thesis
    by (cases rule: PageTable_unmap_cases) (use vm assms(3) that in \<open>auto simp: vm_at_def vm_step_def\<close>)
qed

lemma page_low_bits: "va mod PAGE_SIZE = 0 \<Longrightarrow> n < 12 \<Longrightarrow> \<not> bit va n"
proof -
  assume "va mod PAGE_SIZE = 0" "n < 12"
  then have "take_bit 12 va = 0" by (simp add: PAGE_SIZE_def take_bit_eq_mod)
  with \<open>n < 12\<close> show ?thesis by (metis bit_0_eq bit_take_bit_iff bot_apply bot_bool_def)
qed

lemma page_base_eq_iff: "page_base va = va \<longleftrightarrow> va mod PAGE_SIZE = 0"
proof
  show "va mod PAGE_SIZE = 0" if "page_base va = va" using page_base_aligned [of va] unfolding that .
  show "page_base va = va" if "va mod PAGE_SIZE = 0"
  proof (rule bit_word_eqI)
    fix i assume "i < LENGTH(64)"
    show "bit (page_base va) i = bit va i" using page_low_bits [OF that, of i] by (cases "i < 12") (auto simp: bit_page_base)
  qed
qed

lemma translate_at:
  assumes "vm_at r m n s" and "page_ok va"
  shows "PageTable_translate (fst s) r va = ret (map_option fst (m va))"
proof -
  have tree: "vtree (fst s) r (avail_frames (snd s))" and pages: "pages_of (fst s) r = m"
    using assms(1) by (simp_all add: vm_at_def vm_ok_def vm_inv_def)
  have "page_base va = va" using assms(2) by (simp add: page_ok_def page_base_eq_iff)
  moreover have "va AND 0xFFF = 0"
  proof (rule bit_word_eqI)
    fix i assume "i < LENGTH(64)"
    have m: "(0xFFF :: u64) = mask 12" by (simp add: mask_eq_exp_minus_1)
    show "bit (va AND 0xFFF) i = bit (0 :: u64) i"
      unfolding m using page_low_bits [of va i] assms(2) by (auto simp: bit_simps page_ok_def)
  qed
  ultimately show ?thesis
    using PageTable_translate_eq [OF tree, of va] assms(2) pages
    by (simp add: page_ok_def case_prod_unfold cong: option.map_cong)
qed

text \<open>Mapping a range onto itself.\<close>

lemma identity_loop_at:
  assumes "vm_at r m (n + 3 * k) s" and "a mod PAGE_SIZE = 0" and "unat e = unat a + 4096 * k" and "unat e < 2 ^ 47"
    and "\<And>va. a \<le> va \<Longrightarrow> va < e \<Longrightarrow> m va = None"
  shows "\<exists>s'. identity_loop r a e w s = ret (Inr (), s') \<and> vm_at r (identity_pages a e w m) n s'"
  using assms
proof (induction k arbitrary: a m s)
  case 0
  then have e: "e = a" by (simp add: word_unat_eq_iff)
  then have "identity_loop r a e w s = ret (Inr (), s)" by (subst identity_loop.simps) simp
  then show ?case using 0(1) e identity_pages_empty by simp
next
  case (Suc k)
  have lt: "a < e" using Suc.prems(3) by (simp add: word_less_nat_alt)
  have next_a: "unat (a + PAGE_SIZE) = unat a + 4096" using Suc.prems(3,4) by (simp add: unat_word_ariths PAGE_SIZE_def)
  have al: "(a + PAGE_SIZE) mod PAGE_SIZE = 0" using Suc.prems(2) next_a unfolding unat_aligned by simp
  have "page_ok a" using Suc.prems by (intro low_page_ok) simp_all
  moreover have "a \<le> ADDRESS_MASK" using Suc.prems(3,4) by (simp add: word_le_nat_alt ADDRESS_MASK_def)
  ultimately have args: "map_args_ok a a" using Suc.prems(2) by (simp add: map_args_ok_def page_frame_def)
  have "vm_at r m ((n + 3 * k) + 3) s" using Suc.prems(1) by (simp add: algebra_simps)
  then obtain s1 where s1: "PageTable_map r a a w False s = ret (Inr (), s1)" "vm_at r (m(a \<mapsto> (a, w, False))) (n + 3 * k) s1"
    using map_at [OF _ args, of r m "n + 3 * k" s w False] Suc.prems(5) [of a] lt by blast
  have "(m(a \<mapsto> (a, w, False))) va = None" if "a + PAGE_SIZE \<le> va" "va < e" for va
    using that next_a Suc.prems(5) [of va] by (auto simp: word_le_nat_alt)
  moreover have "unat e = unat (a + PAGE_SIZE) + 4096 * k" using next_a Suc.prems(3) by simp
  ultimately obtain s' where "identity_loop r (a + PAGE_SIZE) e w s1 = ret (Inr (), s')"
      "vm_at r (identity_pages (a + PAGE_SIZE) e w (m(a \<mapsto> (a, w, False)))) n s'"
    using Suc.IH [OF s1(2) al _ Suc.prems(4)] by blast
  moreover have "a + PAGE_SIZE \<le> e" using next_a Suc.prems(3) by (simp add: word_le_nat_alt)
  moreover have "padd a PAGE_SIZE = ret (a + PAGE_SIZE)" using next_a Suc.prems(3,4) by (simp add: checked_add_def PAGE_SIZE_def)
  ultimately show ?case
    using lt s1(1) identity_pages_step [OF Suc.prems(2) next_a] by (subst identity_loop.simps) simp
qed

lemma identity_map_at:
  assumes "vm_at r m (n + 3 * k) s" and "a mod PAGE_SIZE = 0" and "e mod PAGE_SIZE = 0" and "a < e"
    and "unat e = unat a + 4096 * k" and "unat e < 2 ^ 47" and "\<And>va. a \<le> va \<Longrightarrow> va < e \<Longrightarrow> m va = None"
  obtains s' where "AddressSpace_identity_map \<lparr>pml4_phys = r\<rparr> a e w s = ret (Inr (), s')" and "vm_at r (identity_pages a e w m) n s'"
proof -
  obtain s' where "identity_loop r a e w s = ret (Inr (), s')" "vm_at r (identity_pages a e w m) n s'"
    using identity_loop_at [OF assms(1,2,5,6,7)] by blast
  with assms(2,3,4) show thesis by (intro that [of s']) (simp_all add: AddressSpace_identity_map_def)
qed

lemma heap_pages_insert:
  "b < a \<Longrightarrow> unat a + 4096 * length fs < 2 ^ 64 \<Longrightarrow> heap_pages a fs (m(b \<mapsto> x)) = (heap_pages a fs m)(b \<mapsto> x)"
proof (induction fs arbitrary: a)
  case (Cons f fs)
  have "unat (a + PAGE_SIZE) = unat a + 4096" using Cons.prems(2) by (intro next_page) simp
  with Cons have "heap_pages (a + PAGE_SIZE) fs (m(b \<mapsto> x)) = (heap_pages (a + PAGE_SIZE) fs m)(b \<mapsto> x)"
    by (intro Cons.IH) (auto simp: word_less_nat_alt)
  moreover have "a \<noteq> b" using Cons.prems(1) by blast
  ultimately show ?case unfolding heap_pages.simps by (simp only: fun_upd_twist not_False_eq_True)
qed simp

text \<open>Every page of the heap takes a frame and at most three tables.\<close>

lemma initialize_loop_at:
  assumes "vm_at r m (n + 4 * k) s" and "a mod PAGE_SIZE = 0" and "unat a + 4096 * k < 2 ^ 47" and "unat mapped + k < 2 ^ 64"
    and "\<And>va. a \<le> va \<Longrightarrow> m va = None"
  shows "\<exists>fs s'. initialize_loop r k a mapped heap s
      = ret (Inr (), heap\<lparr>mapped_pages := mapped + of_nat k, initialized := True\<rparr>, s')
    \<and> length fs = k \<and> vm_at r (heap_pages a fs m) n s'"
  using assms
proof (induction k arbitrary: a m s mapped)
  case 0
  then show ?case by simp
next
  case (Suc k)
  have vm: "vm_ok r s" "pages_of (fst s) r = m" using Suc.prems(1) by (simp_all add: vm_at_def)
  have fa: "FrameAllocator_inv (snd s)" using vm(1) by (simp add: vm_ok_def vm_inv_def)
  have fin: "finite (avail_frames (snd s))" by (rule pool.finite_avail [OF fa])
  have next_a: "unat (a + PAGE_SIZE) = unat a + 4096" using Suc.prems(3) by (simp add: unat_word_ariths PAGE_SIZE_def)
  have al: "(a + PAGE_SIZE) mod PAGE_SIZE = 0" using Suc.prems(2) next_a unfolding unat_aligned by simp
  have "avail_frames (snd s) \<noteq> {}" using Suc.prems(1) by (auto simp: vm_at_def)
  then obtain f fa where f: "FrameAllocator_allocate_frame (snd s) = ret (Some f, fa)" "FrameAllocator_inv fa"
      "f \<in> avail_frames (snd s)" "avail_frames fa = avail_frames (snd s) - {f}"
    using pool.alloc_some [OF fa] by blast
  have "vm_ok r (fst s, fa)"
    using vm(1) f(2,4) by (auto simp: vm_ok_def vm_inv_def vtree_def)
  moreover have "Suc (card (avail_frames fa)) = card (avail_frames (snd s))" unfolding f(4) using fin f(3) by (rule card_Suc_Diff1)
  ultimately have at: "vm_at r m ((n + 4 * k) + 3) (fst s, fa)" using vm(2) Suc.prems(1) unfolding vm_at_def by auto
  have "page_ok a" using Suc.prems(2,3) by (intro low_page_ok) simp_all
  moreover have "page_frame f" using pool_page_frame [OF fa] f(3) by blast
  ultimately obtain s1 where s1: "PageTable_map r a f True False (fst s, fa) = ret (Inr (), s1)"
      "vm_at r (m(a \<mapsto> (f, True, False))) (n + 4 * k) s1"
    using map_at [OF at, of a f True False] Suc.prems(5) by (auto simp: map_args_ok_def)
  have "(m(a \<mapsto> (f, True, False))) va = None" if "a + PAGE_SIZE \<le> va" for va
    using that next_a Suc.prems(5) [of va] by (auto simp: word_le_nat_alt)
  moreover have "unat (mapped + 1) = unat mapped + 1" using Suc.prems(4) by (simp add: unat_word_ariths)
  ultimately obtain fs s' where rest: "initialize_loop r k (a + PAGE_SIZE) (mapped + 1) heap s1
      = ret (Inr (), heap\<lparr>mapped_pages := mapped + 1 + of_nat k, initialized := True\<rparr>, s')" "length fs = k"
      "vm_at r (heap_pages (a + PAGE_SIZE) fs (m(a \<mapsto> (f, True, False)))) n s'"
    using Suc.IH [OF s1(2) al, of "mapped + 1"] Suc.prems(3,4) next_a by fastforce
  have "padd mapped 1 = ret (mapped + 1)" "padd a PAGE_SIZE = ret (a + PAGE_SIZE)"
    using Suc.prems(3,4) by (simp_all add: checked_add_def PAGE_SIZE_def)
  then have run: "initialize_loop r (Suc k) a mapped heap s
      = ret (Inr (), heap\<lparr>mapped_pages := mapped + of_nat (Suc k), initialized := True\<rparr>, s')"
    using f(1) s1(1) rest(1) by (simp add: algebra_simps)
  have pages: "heap_pages (a + PAGE_SIZE) fs (m(a \<mapsto> (f, True, False))) = heap_pages a (f # fs) m"
    using heap_pages_insert [of a "a + PAGE_SIZE" fs m "(f, True, False)"] next_a Suc.prems(3) rest(2) by (simp add: word_less_nat_alt)
  have "length (f # fs) = Suc k" using rest(2) by simp
  then show ?case using run rest(3) [unfolded pages] by blast
qed

lemma heap_initialize_at:
  assumes "vm_at r m (n + 4 * unat pages) s" and "pages \<noteq> 0" and "unat pages \<le> 4096" and "\<And>va. HEAP_START \<le> va \<Longrightarrow> m va = None"
  obtains fs s' where "KernelHeap_initialize r pages KernelHeap_new s
      = ret (Inr (), KernelHeap_new\<lparr>mapped_pages := pages, initialized := True\<rparr>, s')"
    and "length fs = unat pages" and "vm_at r (heap_pages HEAP_START fs m) n s'"
proof -
  have h: "heap_start KernelHeap_new = HEAP_START" "heap_size KernelHeap_new = HEAP_SIZE" "\<not> initialized KernelHeap_new"
    by (simp_all add: KernelHeap_new_def)
  have "HEAP_START mod PAGE_SIZE = 0" "unat HEAP_START + 4096 * unat pages < 2 ^ 47"
    using assms(3) by (simp_all add: HEAP_START_def PAGE_SIZE_def)
  from initialize_loop_at [OF assms(1) this, where mapped = 0 and heap = KernelHeap_new] obtain fs s'
    where run: "initialize_loop r (unat pages) HEAP_START 0 KernelHeap_new s
        = ret (Inr (), KernelHeap_new\<lparr>mapped_pages := pages, initialized := True\<rparr>, s')"
      and fs: "length fs = unat pages" "vm_at r (heap_pages HEAP_START fs m) n s'"
    using assms(3,4) by auto
  have "KernelHeap_initialize r pages KernelHeap_new s
      = ret (Inr (), KernelHeap_new\<lparr>mapped_pages := pages, initialized := True\<rparr>, s')"
    using heap_size_limit [of pages] assms(2,3) run h by (auto simp: KernelHeap_initialize_def)
  then show thesis using fs by (rule that)
qed

end
