(* ===== verification/Boot.thy ===== *)
theory Boot
  imports Self_Tests Memory_Budget
begin

text \<open>
  The boot sequence of the kernel: \<open>_start\<close> of \<open>bin/kernel.rs\<close>, in two parts around the breakpoint it executes.  \<open>start\<close>
  runs from the entry to \<open>int3\<close>: it validates the boot information, loads the descriptor tables and checks them.
  \<open>start_after_int3\<close> runs from there to the switch to ring 3.  What the processor does between the two is the
  subject of theory \<open>Interrupts\<close>.

  The boot information is an argument, with the null pointer as \<open>None\<close>; \<open>entries\<close> is the memory map it points to.
  The local variables \<open>frame_allocator\<close> and the page tables in memory are the field \<open>vm\<close> of the kernel state.
\<close>

section \<open>Boot information\<close>

record BootInfo =
  magic :: u64
  version :: u32
  info_size :: u32
  boot_drive :: u8
  kernel_phys_start :: u64
  kernel_phys_end :: u64
  memory_map_addr :: u64
  memory_map_count :: u32
  memory_map_entry_size :: u32

definition BOOT_INFO_MAGIC :: u64 where "BOOT_INFO_MAGIC = 0x554E424F554E4442"
definition BOOT_INFO_VERSION :: u32 where "BOOT_INFO_VERSION = 2"
definition MEMORY_MAP_ENTRY_SIZE :: u32 where "MEMORY_MAP_ENTRY_SIZE = 24"

text \<open>\<open>size_of::<BootInfo>()\<close>, with the reserved bytes.\<close>

definition BOOT_INFO_SIZE :: u32 where "BOOT_INFO_SIZE = 8 + 4 + 4 + (1 + 7) + 8 + 8 + 8 + 4 + 4 + 8"

definition require :: "bool \<Rightarrow> string \<Rightarrow> (Kernel, unit) kernel" where
  "require ok message = (if ok then kret () else kblock [sayln message, khalt])"

definition boot_validate :: "BootInfo option \<Rightarrow> (Kernel, BootInfo) kernel" where
  "boot_validate boot_info = kbind (sayln ''KERNEL ENTRY'') (\<lambda>_. case boot_info of
     None \<Rightarrow> kbind (sayln ''BOOTINFO NULL'') (\<lambda>_. khalt)
   | Some info \<Rightarrow> kbind (kblock [
       sayln ''BOOTINFO PTR OK'',
       sayln ''BOOTINFO READ OK'',
       require (magic info = BOOT_INFO_MAGIC) ''BAD MAGIC'',
       require (version info = BOOT_INFO_VERSION) ''BAD VERSION'',
       require (memory_map_addr info \<noteq> 0) ''BAD MEMORY MAP ADDRESS'',
       require (memory_map_count info \<noteq> 0) ''BAD MEMORY MAP COUNT'',
       require (memory_map_entry_size info = MEMORY_MAP_ENTRY_SIZE) ''BAD MEMORY MAP ENTRY SIZE'',
       require (\<not> info_size info < BOOT_INFO_SIZE) ''BAD SIZE'',
       require (\<not> kernel_phys_end info \<le> kernel_phys_start info) ''BAD KERNEL RANGE'',
       sayln ''BOOTINFO OK'']) (\<lambda>_. kret info))"

section \<open>Descriptor tables\<close>

definition boot_gdt :: "Addresses \<Rightarrow> (Kernel, unit) kernel" where
  "boot_gdt L = kblock [
     sayln (crlf @ ''GDT INITIALIZATION''),
     gdt_init L,
     sayln ''GDT: PASS'',
     sayln ''GDT VERIFICATION'',
     kbind (kget gdt_current_base) (line_hex64 ''GDTR BASE: 0x''),
     kbind (kget gdt_current_limit) (\<lambda>l. line_hex32 ''GDTR LIMIT: 0x'' (ucast l)),
     say ''GDT USER SEGMENTS VERIFY: '',
     kbind (krun (\<lambda>k. do { b \<leftarrow> verify_user_segments k; ret (b, k) })) pass_or_halt]"

definition boot_tss :: "(Kernel, unit) kernel" where
  "boot_tss = kblock [
     sayln (crlf @ ''TSS INITIALIZATION''),
     kbind (kget task_register) (\<lambda>t. line_hex32 ''TR: 0x'' (ucast t)),
     say ''TSS VERIFY: '',
     kbind (kget verify_task_register) pass_or_halt,
     kbind (kget ist1) (\<lambda>ist1. kblock [
       line_hex64 ''IST1 STACK TOP: 0x'' ist1,
       say ''IST1 ALIGNMENT: '',
       pass_or_halt (ist1 \<noteq> 0 \<and> ist1 AND 0x0F = 0),
       say ''IST1 NON-NULL: '',
       pass_or_halt (ist1 \<noteq> 0)]),
     sayln ''TSS/IST INITIALIZATION: PASS'']"

text \<open>The 16 bytes of a gate in memory, least significant bytes first.\<close>

definition le_bytes :: "nat \<Rightarrow> u64 \<Rightarrow> u8 list" where
  "le_bytes n v = map (\<lambda>i. ucast (drop_bit (8 * i) v)) [0..<n]"

definition IdtEntry_bytes :: "IdtEntry \<Rightarrow> u8 list" where
  "IdtEntry_bytes e = le_bytes 2 (ucast (offset_low e)) @ le_bytes 2 (ucast (selector e)) @ [ist e, IdtEntry.attributes e]
     @ le_bytes 2 (ucast (offset_mid e)) @ le_bytes 4 (ucast (offset_high e)) @ le_bytes 4 (ucast (IdtEntry.reserved e))"

definition boot_idt :: "Addresses \<Rightarrow> (Kernel, unit) kernel" where
  "boot_idt L = kblock [
     sayln (crlf @ ''IDT INITIALIZATION''),
     krun (idt_init L),
     sayln ''IDT: PASS'',
     sayln ''IDT VERIFICATION'',
     kbind (kget idt_current_base) (line_hex64 ''IDTR BASE: 0x''),
     kbind (kget idt_current_limit) (\<lambda>l. line_hex32 ''IDTR LIMIT: 0x'' (ucast l)),
     say ''IDT VERIFY: '',
     kbind (kget (idt_verify L)) pass_or_halt]"

definition boot_idt_debug :: "(Kernel, unit) kernel" where
  "boot_idt_debug = kblock [
     sayln (crlf @ ''IDT[3] DEBUG''),
     kbind (kget idt_current_base) (\<lambda>idt_base. kblock [
       line_hex64 ''  IDT BASE: 0x'' idt_base,
       kbind (krun (\<lambda>k. do { a \<leftarrow> padd idt_base (3 * 16); ret (a, k) })) (line_hex64 ''  IDT[3] ADDRESS: 0x'')]),
     say ''  IDT[3] BYTES: '',
     kbind (krun (\<lambda>k. do { e \<leftarrow> arr_get (IDT k) 3; ret (e, k) })) (\<lambda>e.
       kfor (IdtEntry_bytes e) (\<lambda>b. kblock [say_hex8 b, say '' ''])),
     say crlf]"

text \<open>From the entry to the breakpoint.\<close>

definition start :: "Addresses \<Rightarrow> BootInfo option \<Rightarrow> (Kernel, BootInfo) kernel" where
  "start L boot_info = kbind (boot_validate boot_info) (\<lambda>info. kbind (kblock [
     boot_gdt L, boot_tss, boot_idt L, boot_idt_debug,
     sayln (crlf @ ''EARLY EXCEPTION TEST: INT3'')]) (\<lambda>_. kret info))"

section \<open>Memory\<close>

text \<open>The messages of the memory manager, \<open>error.as_bytes()\<close>.\<close>

fun KernelError_as_bytes :: "KernelError \<Rightarrow> string" where
  "KernelError_as_bytes VirtualNotCanonical = ''virtual address is not canonical''"
| "KernelError_as_bytes VirtualNotAligned = ''virtual address is not page aligned''"
| "KernelError_as_bytes PhysicalNotAligned = ''physical address is not page aligned''"
| "KernelError_as_bytes PhysicalOutOfRange = ''physical address exceeds supported page-table range''"
| "KernelError_as_bytes AlreadyMapped = ''virtual page is already mapped''"
| "KernelError_as_bytes OutOfPhysicalMemory = ''out of physical memory''"
| "KernelError_as_bytes Pml4NotPresent = ''PML4 entry is not present''"
| "KernelError_as_bytes PdptNotPresent = ''PDPT entry is not present''"
| "KernelError_as_bytes PdNotPresent = ''PD entry is not present''"
| "KernelError_as_bytes HugePage = ''cannot unmap a huge page with 4 KiB unmap''"
| "KernelError_as_bytes NotMapped = ''virtual page is not mapped''"
| "KernelError_as_bytes IdentityStartNotAligned = ''identity-map start is not page aligned''"
| "KernelError_as_bytes IdentityEndNotAligned = ''identity-map end is not page aligned''"
| "KernelError_as_bytes IdentityRangeEmpty = ''identity-map range is empty''"
| "KernelError_as_bytes HeapAlreadyInitialized = ''kernel heap already initialized''"
| "KernelError_as_bytes HeapPageCountZero = ''kernel heap page count is zero''"
| "KernelError_as_bytes HeapSizeOverflow = ''kernel heap size overflow''"
| "KernelError_as_bytes HeapTooLarge = ''kernel heap exceeds configured size''"
| "KernelError_as_bytes HeapOutOfMemory = ''out of physical memory for kernel heap''"

definition print_error :: "string \<Rightarrow> KernelError \<Rightarrow> (Kernel, unit) kernel" where
  "print_error label e = kblock [say label, say (KernelError_as_bytes e), say crlf]"

text \<open>Calls of the memory manager on the kernel state.\<close>

definition vm_call :: "(vm_state \<Rightarrow> ('a \<times> vm_state) run) \<Rightarrow> (Kernel, 'a) kernel" where
  "vm_call f = krun (\<lambda>k. do { (a, s) \<leftarrow> f (vm k); ret (a, k\<lparr>vm := s\<rparr>) })"

definition fa_call :: "(FrameAllocator \<Rightarrow> ('a \<times> FrameAllocator) run) \<Rightarrow> (Kernel, 'a) kernel" where
  "fa_call f = vm_call (\<lambda>s. do { (a, fa) \<leftarrow> f (snd s); ret (a, fst s, fa) })"

definition fa_free :: "u64 \<Rightarrow> (Kernel, unit) kernel" where
  "fa_free frame = fa_call (\<lambda>fa. do { fa \<leftarrow> FrameAllocator_free_frame frame fa; ret ((), fa) })"

definition vm_read :: "(memory \<Rightarrow> 'a run) \<Rightarrow> (Kernel, 'a) kernel" where
  "vm_read f = vm_call (\<lambda>s. do { a \<leftarrow> f (fst s); ret (a, s) })"

definition print_free_frames :: "string \<Rightarrow> (Kernel, unit) kernel" where
  "print_free_frames label = kbind (kget (\<lambda>k. FrameAllocator_free_frames (snd (vm k)))) (\<lambda>n. line_hex64 label (of_nat n))"

definition boot_print_info :: "BootInfo \<Rightarrow> (Kernel, unit) kernel" where
  "boot_print_info info = kblock [
     line_hex32 ''MEMORY MAP ENTRIES: '' (memory_map_count info),
     kblock [say ''BOOT DRIVE: 0x'', say_hex8 (boot_drive info), say crlf],
     line_hex64 ''KERNEL START: 0x'' (kernel_phys_start info),
     line_hex64 ''KERNEL END: 0x'' (kernel_phys_end info)]"

definition boot_print_map :: "MemoryMapEntry list \<Rightarrow> (Kernel, unit) kernel" where
  "boot_print_map entries = kblock [
     sayln (crlf @ ''E820 MEMORY MAP''),
     kfor (enumerate 0 entries) (\<lambda>(index, entry). kblock [
       line_hex32 ''ENTRY '' (of_nat index),
       line_hex64 ''  BASE: 0x'' (base_addr entry),
       line_hex64 ''  LENGTH: 0x'' (region_length entry),
       line_hex32 ''  TYPE: 0x'' (entry_type entry),
       line_hex32 ''  ATTR: 0x'' (MemoryMapEntry.attributes entry)])]"

definition boot_pmm :: "BootInfo \<Rightarrow> MemoryMapEntry list \<Rightarrow> (Kernel, unit) kernel" where
  "boot_pmm info entries = kblock [
     fa_call (\<lambda>_. do { fa \<leftarrow> FrameAllocator_initialize entries (kernel_phys_start info) (kernel_phys_end info); ret ((), fa) }),
     sayln (crlf @ ''PHYSICAL MEMORY MANAGER''),
     print_free_frames ''FREE FRAMES: '']"

definition boot_frame_test :: "(Kernel, unit) kernel" where
  "boot_frame_test = kblock [
     sayln ''ALLOCATING TEST FRAMES'',
     kbind (fa_call FrameAllocator_allocate_frame) (\<lambda>frame1.
     kbind (fa_call FrameAllocator_allocate_frame) (\<lambda>frame2.
     kbind (fa_call FrameAllocator_allocate_frame) (\<lambda>frame3. kblock [
       line_hex64 ''FRAME 1: 0x'' (case frame1 of None \<Rightarrow> 0 | Some f \<Rightarrow> f),
       line_hex64 ''FRAME 2: 0x'' (case frame2 of None \<Rightarrow> 0 | Some f \<Rightarrow> f),
       line_hex64 ''FRAME 3: 0x'' (case frame3 of None \<Rightarrow> 0 | Some f \<Rightarrow> f),
       print_free_frames ''FREE FRAMES AFTER ALLOC: '',
       case frame1 of None \<Rightarrow> kret () | Some frame \<Rightarrow> fa_free frame]))),
     print_free_frames ''FREE FRAMES AFTER FREE: '',
     kbind (kget (\<lambda>k. FrameAllocator_free_frames (snd (vm k)))) (\<lambda>free_before. kblock [
       fa_free 0,
       kbind (kget (\<lambda>k. FrameAllocator_free_frames (snd (vm k)))) (\<lambda>free_after. kblock [
         say ''RESERVED FRAME FREE TEST: '',
         pass_or_fail (free_before = free_after)])])]"

section \<open>Virtual memory\<close>

text \<open>The walk to the entry of a page, through the tables of all four levels.\<close>

definition walk_to_page :: "u64 \<Rightarrow> u64 \<Rightarrow> memory \<Rightarrow> u64 run" where
  "walk_to_page pml4 virtual_address mem = (case indexes virtual_address of (pml4_index, pdpt_index, pd_index, pt_index) \<Rightarrow> do {
     e \<leftarrow> read_entry mem pml4 pml4_index;
     e \<leftarrow> read_entry mem (entry_address e) pdpt_index;
     e \<leftarrow> read_entry mem (entry_address e) pd_index;
     e \<leftarrow> read_entry mem (entry_address e) pt_index;
     ret (entry_address e) })"

definition boot_vm_test :: "(Kernel, unit) kernel" where
  "boot_vm_test = kblock [
     sayln (crlf @ ''VIRTUAL MEMORY TEST''),
     kbind (fa_call FrameAllocator_allocate_frame) (\<lambda>pml4_frame. case pml4_frame of
       None \<Rightarrow> sayln ''PML4 ALLOCATION: FAIL''
     | Some pml4 \<Rightarrow> kblock [
         vm_call (\<lambda>s. ret ((), PageTable_zero pml4 (fst s), snd s)),
         let virtual_address = 0x00400000; physical_address = 0x00100000 in
         kbind (vm_call (PageTable_map pml4 virtual_address physical_address True False)) (\<lambda>r. case r of
           Inr _ \<Rightarrow> kbind (vm_read (walk_to_page pml4 virtual_address)) (\<lambda>mapped_address. kblock [
             line_hex64 ''VIRTUAL ADDRESS: 0x'' virtual_address,
             line_hex64 ''EXPECTED PHYSICAL: 0x'' physical_address,
             line_hex64 ''ACTUAL PHYSICAL: 0x'' mapped_address,
             say ''PAGE TABLE MAP TEST: '',
             pass_or_fail (mapped_address = physical_address)])
         | Inl e \<Rightarrow> print_error ''PAGE TABLE MAP ERROR: '' e)]),
     sayln ''VIRTUAL MEMORY TEST COMPLETE'']"

definition boot_canonical_test :: "(Kernel, unit) kernel" where
  "boot_canonical_test = kblock [
     sayln (crlf @ ''CANONICAL ADDRESS TEST''),
     say ''LOW CANONICAL: '', pass_or_fail (is_canonical 0x00007FFFFFFFF000),
     say ''HIGH CANONICAL: '', pass_or_fail (is_canonical 0xFFFF800000000000),
     say ''LOW NON-CANONICAL: '', pass_or_fail (\<not> is_canonical 0x0000800000000000),
     say ''HIGH NON-CANONICAL: '', pass_or_fail (\<not> is_canonical 0xFFFF7FFFFFFFFFFF),
     sayln ''CANONICAL ADDRESS TEST COMPLETE'']"

section \<open>The address space of the kernel\<close>

definition boot_test_map :: "AddressSpace \<Rightarrow> (Kernel, unit) kernel" where
  "boot_test_map sp = kblock [
     sayln ''AS: BEFORE TEST MAP'',
     kbind (vm_call (PageTable_map (pml4_phys sp) 0x00400000 0x00100000 True False)) (\<lambda>r. case r of
       Inr _ \<Rightarrow> kblock [sayln ''AS: AFTER TEST MAP'', sayln ''TEST MAP: PASS'']
     | Inl e \<Rightarrow> kblock [print_error ''TEST MAP: FAIL: '' e, khalt])]"

definition boot_translation_test :: "AddressSpace \<Rightarrow> (Kernel, unit) kernel" where
  "boot_translation_test sp = kblock [
     sayln ''AS: BEFORE TRANSLATION'',
     say ''TRANSLATION TEST: '',
     kbind (vm_read (\<lambda>mem. PageTable_translate mem (pml4_phys sp) 0x00400000)) (\<lambda>r. case r of
       Some physical_address \<Rightarrow>
         if physical_address = 0x00100000 then sayln ''PASS''
         else kblock [sayln ''FAIL: WRONG PHYSICAL'', line_hex64 ''ACTUAL: 0x'' physical_address, khalt]
     | None \<Rightarrow> kblock [sayln ''FAIL: UNMAPPED'', khalt])]"

definition boot_unmap_test :: "AddressSpace \<Rightarrow> (Kernel, unit) kernel" where
  "boot_unmap_test sp = kblock [
     sayln ''AS: BEFORE UNMAP'',
     say ''UNMAP TEST: '',
     kbind (vm_call (\<lambda>s. do { (r, mem) \<leftarrow> PageTable_unmap (pml4_phys sp) 0x00400000 (fst s); ret (r, mem, snd s) })) (\<lambda>r. case r of
       Inr physical_address \<Rightarrow>
         if physical_address = 0x00100000 then sayln ''PASS''
         else kblock [sayln ''FAIL: WRONG PHYSICAL'', line_hex64 ''ACTUAL: 0x'' physical_address, khalt]
     | Inl e \<Rightarrow> kblock [print_error ''FAIL: '' e, khalt]),
     sayln ''AS: BEFORE POST-UNMAP TRANSLATION'',
     say ''POST-UNMAP TRANSLATION TEST: '',
     kbind (vm_read (\<lambda>mem. PageTable_translate mem (pml4_phys sp) 0x00400000)) (\<lambda>r. case r of
       None \<Rightarrow> sayln ''PASS: UNMAPPED''
     | Some physical_address \<Rightarrow> kblock [sayln ''FAIL: STILL MAPPED'', line_hex64 ''PHYSICAL: 0x'' physical_address, khalt])]"

text \<open>Mapping the code and the stack of the user test, and checking the first page of each.\<close>

definition check_translation :: "string \<Rightarrow> AddressSpace \<Rightarrow> u64 \<Rightarrow> u64 \<Rightarrow> (Kernel, unit) kernel" where
  "check_translation label sp virtual_address expected =
     kbind (vm_read (\<lambda>mem. PageTable_translate mem (pml4_phys sp) virtual_address)) (\<lambda>r. case r of
       Some physical_address \<Rightarrow> kblock [
         line_hex64 (label @ '' TRANSLATION: 0x'') physical_address,
         if physical_address = expected then sayln (label @ '' TRANSLATION: PASS'')
         else kblock [sayln (label @ '' TRANSLATION: FAIL''), khalt]]
     | None \<Rightarrow> kblock [sayln (label @ '' TRANSLATION: FAIL: UNMAPPED''), khalt])"

definition user_code_page :: "Addresses \<Rightarrow> u64" where
  "user_code_page L = test_entry_physical_address L AND NOT (PAGE_SIZE - 1)"

definition boot_user_code :: "Addresses \<Rightarrow> AddressSpace \<Rightarrow> (Kernel, unit) kernel" where
  "boot_user_code L sp = kblock [
     sayln (crlf @ ''USER ADDRESS SPACE TEST''),
     sayln ''USER: BEFORE CODE MAP'',
     line_hex64 ''USER CODE PHYSICAL: 0x'' (test_entry_physical_address L),
     line_hex64 ''USER CODE PAGE: 0x'' (user_code_page L),
     kbind (vm_call (PageTable_map (pml4_phys sp) USER_CODE_VADDR (user_code_page L) True True)) (\<lambda>r. case r of
       Inr _ \<Rightarrow> sayln ''USER CODE MAP: PASS''
     | Inl e \<Rightarrow> kblock [print_error ''USER CODE MAP: FAIL: '' e, khalt]),
     sayln ''USER: VERIFY CODE TRANSLATION'',
     check_translation ''USER CODE'' sp USER_CODE_VADDR (user_code_page L)]"

definition map_stack_page :: "Addresses \<Rightarrow> AddressSpace \<Rightarrow> u64 \<Rightarrow> (Kernel, unit) kernel" where
  "map_stack_page L sp page = kbind (vm_call (\<lambda>s. do {
       offset \<leftarrow> checked_mul page PAGE_SIZE;
       physical_address \<leftarrow> padd (stack_physical_start L) offset;
       virtual_address \<leftarrow> padd USER_STACK_VADDR offset;
       PageTable_map (pml4_phys sp) virtual_address physical_address True True s })) (\<lambda>r. case r of
     Inr _ \<Rightarrow> kret ()
   | Inl e \<Rightarrow> kblock [print_error ''USER STACK MAP: FAIL: '' e, khalt])"

definition boot_user_stack :: "Addresses \<Rightarrow> AddressSpace \<Rightarrow> (Kernel, unit) kernel" where
  "boot_user_stack L sp = (let user_stack_pages = USER_STACK_SIZE div PAGE_SIZE in kblock [
     sayln ''USER: BEFORE STACK MAP'',
     line_hex64 ''USER STACK PHYSICAL: 0x'' (stack_physical_start L),
     line_hex64 ''USER STACK PAGES: '' user_stack_pages,
     kfor (map of_nat [0..<unat user_stack_pages]) (map_stack_page L sp),
     sayln ''USER STACK MAP: PASS'',
     sayln ''USER: VERIFY STACK TRANSLATION'',
     check_translation ''USER STACK'' sp USER_STACK_VADDR (stack_physical_start L)])"

section \<open>Stacks, heap and the switch to ring 3\<close>

definition boot_kernel_stacks :: "Addresses \<Rightarrow> (Kernel, unit) kernel" where
  "boot_kernel_stacks L = kblock [
     sayln ''USER: INITIALIZING RING3 KERNEL STACK'',
     krun (\<lambda>k. do { t \<leftarrow> initialize_stack L; ret ((), k\<lparr>unbound_syscall_stack_top := t\<rparr>) }),
     kbind (kget unbound_syscall_stack_top) (\<lambda>syscall_stack_top. kblock [
       line_hex64 ''SYSCALL STACK TOP: 0x'' syscall_stack_top,
       require (syscall_stack_top \<noteq> 0) ''SYSCALL STACK: FAIL'',
       sayln ''SYSCALL STACK: PASS'',
       kmodify (tss_set_rsp0 syscall_stack_top)]),
     kbind (kget rsp0) (\<lambda>rsp0. kblock [
       line_hex64 ''TSS RSP0: 0x'' rsp0,
       if rsp0 \<noteq> 0 then sayln ''TSS RSP0: PASS'' else kblock [sayln ''TSS RSP0: FAIL'', khalt]])]"

definition boot_activate :: "AddressSpace \<Rightarrow> (Kernel, unit) kernel" where
  "boot_activate sp = kblock [
     sayln (crlf @ ''CR3 SWITCH: START''),
     sayln ''PHASE 5: BEFORE CR3 ACTIVATE'',
     kmodify (\<lambda>k. k\<lparr>cr3 := AddressSpace_activate sp\<rparr>),
     sayln ''PHASE 5: AFTER CR3 ACTIVATE'',
     sayln ''CR3 SWITCH: PASS'']"

definition boot_heap :: "AddressSpace \<Rightarrow> (Kernel, unit) kernel" where
  "boot_heap sp = (let kernel_heap = KernelHeap_new in kblock [
     sayln (crlf @ ''KERNEL HEAP INITIALIZATION''),
     sayln ''PHASE 5: BEFORE HEAP OBJECT'',
     sayln ''PHASE 5: AFTER HEAP OBJECT'',
     line_hex64 ''HEAP START: 0x'' (heap_start kernel_heap),
     kbind (krun (\<lambda>k. do { e \<leftarrow> KernelHeap_end kernel_heap; ret (e, k) })) (line_hex64 ''HEAP END: 0x''),
     kblock [say ''HEAP CAPACITY: '', say_hex64 (KernelHeap_page_capacity kernel_heap), sayln '' PAGES''],
     sayln ''PHASE 5: BEFORE HEAP PML4'',
     sayln ''PHASE 5: AFTER HEAP PML4'',
     sayln ''HEAP MAPPING: 4 PAGES'',
     sayln ''PHASE 5: BEFORE HEAP INITIALIZE'',
     kbind (vm_call (\<lambda>s. do { (r, heap, s) \<leftarrow> KernelHeap_initialize (pml4_phys sp) 4 kernel_heap s; ret ((r, heap), s) })) (\<lambda>(r, heap). case r of
       Inr _ \<Rightarrow> kblock [
         sayln ''PHASE 5: AFTER HEAP INITIALIZE'',
         sayln ''HEAP MAP: PASS'',
         line_hex64 ''HEAP MAPPED PAGES: '' (mapped_pages heap),
         say ''HEAP INITIALIZED: '',
         if initialized heap then sayln ''YES'' else sayln ''NO'']
     | Inl e \<Rightarrow> kblock [print_error ''HEAP MAP: FAIL: '' e, khalt])])"

definition boot_checkpoint :: "(Kernel, unit) kernel" where
  "boot_checkpoint = kblock [
     sayln (crlf @ ''================================''), sayln ''PHASE 5 KERNEL INFRASTRUCTURE'', sayln ''================================'',
     sayln ''PREEMPTIVE SCHEDULER: PARKED'', sayln ''KERNEL HEAP: PASS'', sayln ''SPINLOCK: PASS'', sayln ''KERNEL OBJECTS: PASS'',
     sayln ''IPC: PASS'', sayln ''SYSCALL: PASS'', sayln ''MSR: PASS'', sayln ''STAR: PASS'', sayln ''LSTAR: PASS'', sayln ''FMASK: PASS'',
     sayln ''UNBOUND KERNEL: SYSCALL ABI FOUNDATION READY'']"

text \<open>The arguments with which \<open>enter_ring3\<close> is called.\<close>

definition boot_ring3 :: "(Kernel, u64 \<times> u64) kernel" where
  "boot_ring3 = kbind (krun (\<lambda>k. do { t \<leftarrow> padd USER_STACK_VADDR USER_STACK_SIZE; ret (t, k) })) (\<lambda>user_stack_top.
     let user_entry = USER_CODE_VADDR in kbind (kblock [
     sayln (crlf @ ''================================''), sayln ''PHASE 6 RING 3 SYSCALL TEST'', sayln ''================================'',
     line_hex64 ''USER ENTRY: 0x'' user_entry,
     line_hex64 ''USER STACK TOP: 0x'' user_stack_top,
     sayln (crlf @ ''--- RING 3 IRET CHECK ---''),
     line_hex64 ''USER RIP: 0x'' user_entry,
     line_hex64 ''USER CS: 0x'' (ucast USER_CODE_SELECTOR_R3),
     line_hex64 ''USER RSP: 0x'' user_stack_top,
     line_hex64 ''USER SS: 0x'' (ucast USER_DATA_SELECTOR_R3),
     sayln ''USER RFLAGS: 0x202'',
     sayln ''--- END IRET CHECK ---'',
     sayln ''ENTERING RING 3...'']) (\<lambda>_. kret (user_entry, user_stack_top)))"

definition boot_user_space :: "Addresses \<Rightarrow> AddressSpace \<Rightarrow> (Kernel, unit) kernel" where
  "boot_user_space L sp = kblock [
     boot_test_map sp, boot_translation_test sp, boot_unmap_test sp, boot_user_code L sp, boot_user_stack L sp]"

definition boot_with_space :: "Addresses \<Rightarrow> AddressSpace \<Rightarrow> (Kernel, u64 \<times> u64) kernel" where
  "boot_with_space L sp = kbind (kblock [
     sayln ''AS: AFTER IDENTITY MAP'', sayln ''IDENTITY MAP: PASS'',
     boot_user_space L sp, boot_kernel_stacks L, boot_activate sp, boot_heap sp, boot_tests L, boot_checkpoint]) (\<lambda>_. boot_ring3)"

definition boot_address_space :: "Addresses \<Rightarrow> (Kernel, u64 \<times> u64) kernel" where
  "boot_address_space L = kbind (kblock [sayln (crlf @ ''ADDRESS SPACE TEST''), sayln ''AS: BEFORE NEW'']) (\<lambda>_.
     kbind (vm_call AddressSpace_new) (\<lambda>r. case r of
       Inl e \<Rightarrow> kbind (print_error ''PML4 CREATION: FAIL: '' e) (\<lambda>_. khalt)
     | Inr sp \<Rightarrow> kbind (kblock [
         sayln ''AS: AFTER NEW'',
         line_hex64 ''PML4 CREATED: 0x'' (pml4_phys sp),
         sayln ''AS: BEFORE IDENTITY MAP'']) (\<lambda>_.
         kbind (vm_call (AddressSpace_identity_map sp 0 0x00200000 True)) (\<lambda>r. case r of
           Inl e \<Rightarrow> kbind (print_error ''IDENTITY MAP: FAIL: '' e) (\<lambda>_. khalt)
         | Inr _ \<Rightarrow> boot_with_space L sp))))"

text \<open>From behind the breakpoint to ring 3.\<close>

definition start_after_int3 :: "Addresses \<Rightarrow> BootInfo \<Rightarrow> MemoryMapEntry list \<Rightarrow> (Kernel, u64 \<times> u64) kernel" where
  "start_after_int3 L info entries = kbind (kblock [
     sayln ''EARLY EXCEPTION TEST: INT3 RETURNED'',
     boot_print_info info, boot_print_map entries, boot_pmm info entries, boot_frame_test, boot_vm_test, boot_canonical_test])
   (\<lambda>_. boot_address_space L)"

end
