(* ===== verification/Boot_Outcome.thy ===== *)
theory Boot_Outcome
  imports Boot
begin

text \<open>
  What the boot sequence does: which boot information it accepts, that the tables are loaded when it executes its
  breakpoint, and that from there it reaches ring 3 with exactly the address space it means to build.
\<close>

section \<open>Up to the breakpoint\<close>

definition boot_info_ok :: "BootInfo \<Rightarrow> bool" where
  "boot_info_ok info \<longleftrightarrow> magic info = BOOT_INFO_MAGIC \<and> version info = BOOT_INFO_VERSION \<and> memory_map_addr info \<noteq> 0
     \<and> memory_map_count info \<noteq> 0 \<and> memory_map_entry_size info = MEMORY_MAP_ENTRY_SIZE \<and> BOOT_INFO_SIZE \<le> info_size info
     \<and> kernel_phys_start info < kernel_phys_end info"

lemma outcome_require [outcome_simps]: "outcome_of (require ok t) k = (if ok then Returned () k else Halted k)"
  by (simp add: require_def outcome_simps)

lemma boot_validate_outcome:
  "outcome_of (boot_validate (Some info)) k = (if boot_info_ok info then Returned info k else Halted k)"
  "outcome_of (boot_validate None) k = Halted k"
  by (simp_all add: boot_validate_def outcome_simps boot_info_ok_def not_le not_less)

text \<open>The double-fault stack is aligned, as its type requires, and the statics lie below the end of memory.\<close>

definition boot_addresses_ok :: "Addresses \<Rightarrow> bool" where
  "boot_addresses_ok L \<longleftrightarrow> addresses_ok L \<and> double_fault_stack_addr L AND 0x0F = 0 \<and> unat (idt_addr L) + 4096 < 2 ^ 64"

lemma ist1_top:
  assumes "addresses_ok L" and "double_fault_stack_addr L AND 0x0F = 0"
  shows "double_fault_stack_addr L + 16384 \<noteq> 0" and "(double_fault_stack_addr L + 16384) AND 0x0F = 0"
proof -
  let ?a = "double_fault_stack_addr L"
  have u: "unat (?a + 16384) = unat ?a + 16384" using assms(1) by (simp add: addresses_ok_def unat_word_ariths)
  then show "?a + 16384 \<noteq> 0" by auto
  have t: "y AND 0x0F = 0 \<longleftrightarrow> unat y mod 16 = 0" for y :: u64
  proof -
    have "y AND 0x0F = take_bit 4 y" by (simp add: take_bit_eq_mask mask_eq_exp_minus_1)
    moreover have "unat (take_bit 4 y) = unat y mod 16" by (simp add: take_bit_eq_mod unat_mod)
    ultimately show ?thesis by (metis unat_eq_zero)
  qed
  show "(?a + 16384) AND 0x0F = 0" using assms(2) unfolding t u by presburger
qed

text \<open>The state at the breakpoint.\<close>

definition tables_loaded :: "Addresses \<Rightarrow> IdtEntry list \<Rightarrow> Kernel \<Rightarrow> Kernel" where
  "tables_loaded L es k = k\<lparr>GDT := booted_gdt L,
     TSS := (TSS k)\<lparr>tss_ist1 := double_fault_stack_addr L + 16384, tss_iomap_base := 104\<rparr>, IDT := es,
     gdtr := \<lparr>dtp_limit = 55, dtp_base = gdt_addr L\<rparr>, idtr := \<lparr>dtp_limit = 4095, dtp_base = idt_addr L\<rparr>, task_reg := 24,
     seg_cs := 8, seg_ds := 16, seg_es := 16, seg_ss := 16\<rparr>"

lemma boot_gdt_outcome:
  assumes "addresses_ok L" and "length (GDT k) = 7"
  shows "outcome_of (boot_gdt L) k = Returned () (k\<lparr>GDT := booted_gdt L,
      TSS := (TSS k)\<lparr>tss_ist1 := double_fault_stack_addr L + 16384, tss_iomap_base := 104\<rparr>,
      gdtr := \<lparr>dtp_limit = 55, dtp_base = gdt_addr L\<rparr>, seg_cs := 8, seg_ds := 16, seg_es := 16, seg_ss := 16, task_reg := 24\<rparr>)"
  using gdt_init_outcome [OF assms]
  by (simp add: boot_gdt_def outcome_simps verify_user_segments_def booted_gdt_def arr_get_def)

lemma boot_tss_outcome:
  assumes "task_reg k = 24" and "ist1 k \<noteq> 0" and "ist1 k AND 0x0F = 0"
  shows "outcome_of boot_tss k = Returned () k"
  using assms by (simp add: boot_tss_def outcome_simps verify_task_register_def task_register_def TSS_SELECTOR_def)

lemma boot_idt_outcome:
  assumes "length (IDT k) = 256"
  obtains es where "outcome_of (boot_idt L) k = Returned () (k\<lparr>IDT := es, idtr := \<lparr>dtp_limit = 4095, dtp_base = idt_addr L\<rparr>\<rparr>)"
    and "length es = 256" and "\<forall>v < 256. es ! v = gate_of L v (IDT k ! v)"
proof (rule idt_init_ret [OF assms, of L])
  fix es assume es: "idt_init L k = ret ((), k\<lparr>IDT := es, idtr := \<lparr>dtp_limit = 4095, dtp_base = idt_addr L\<rparr>\<rparr>)"
    "length es = 256" "\<forall>v < 256. es ! v = gate_of L v (IDT k ! v)"
  have "outcome_of (boot_idt L) k = Returned () (k\<lparr>IDT := es, idtr := \<lparr>dtp_limit = 4095, dtp_base = idt_addr L\<rparr>\<rparr>)"
    using es(1) by (simp add: boot_idt_def outcome_simps idt_verify_def read_idtr_def IDT_ENTRIES_def)
  then show thesis using es(2,3) by (rule that)
qed

lemma boot_idt_debug_outcome:
  assumes "unat (dtp_base (idtr k)) + 4096 < 2 ^ 64" and "length (IDT k) = 256"
  shows "outcome_of boot_idt_debug k = Returned () k"
proof -
  have "padd (dtp_base (idtr k)) 48 = ret (dtp_base (idtr k) + 48)" using assms(1) by (simp add: checked_add_def)
  moreover have "outcome_of (kfor bs (\<lambda>b. kblock [say_hex8 b, say '' ''])) k = Returned () k" for bs
    by (rule outcome_kfor_says) (simp add: outcome_simps)
  ultimately show ?thesis
    using assms(2) by (simp add: boot_idt_debug_def outcome_simps idt_current_base_def read_idtr_def arr_get_def)
qed

lemma start_outcome:
  assumes "boot_info_ok info" and L: "boot_addresses_ok L" and sizes: "length (GDT k) = 7" "length (IDT k) = 256"
  obtains es where "outcome_of (start L (Some info)) k = Returned info (tables_loaded L es k)"
    and "length es = 256" and "\<forall>v < 256. es ! v = gate_of L v (IDT k ! v)"
proof -
  have ok: "addresses_ok L" "double_fault_stack_addr L AND 0x0F = 0" "unat (idt_addr L) + 4096 < 2 ^ 64"
    using L by (simp_all add: boot_addresses_ok_def)
  define k1 where "k1 = k\<lparr>GDT := booted_gdt L, TSS := (TSS k)\<lparr>tss_ist1 := double_fault_stack_addr L + 16384, tss_iomap_base := 104\<rparr>,
      gdtr := \<lparr>dtp_limit = 55, dtp_base = gdt_addr L\<rparr>, seg_cs := 8, seg_ds := 16, seg_es := 16, seg_ss := 16, task_reg := 24\<rparr>"
  have gdt: "outcome_of (boot_gdt L) k = Returned () k1" unfolding k1_def by (rule boot_gdt_outcome [OF ok(1) sizes(1)])
  have tss: "outcome_of boot_tss k1 = Returned () k1"
    using ist1_top [OF ok(1,2)] by (intro boot_tss_outcome) (simp_all add: k1_def ist1_def)
  have "length (IDT k1) = 256" "IDT k1 = IDT k" using sizes(2) by (simp_all add: k1_def)
  then obtain es where idt: "outcome_of (boot_idt L) k1 = Returned () (k1\<lparr>IDT := es, idtr := \<lparr>dtp_limit = 4095, dtp_base = idt_addr L\<rparr>\<rparr>)"
    and es: "length es = 256" "\<forall>v < 256. es ! v = gate_of L v (IDT k ! v)"
    using boot_idt_outcome [of k1 L] by metis
  have k2: "k1\<lparr>IDT := es, idtr := \<lparr>dtp_limit = 4095, dtp_base = idt_addr L\<rparr>\<rparr> = tables_loaded L es k"
    by (simp add: k1_def tables_loaded_def)
  have "outcome_of boot_idt_debug (tables_loaded L es k) = Returned () (tables_loaded L es k)"
    using ok(3) es(1) by (intro boot_idt_debug_outcome) (simp_all add: tables_loaded_def)
  then have "outcome_of (start L (Some info)) k = Returned info (tables_loaded L es k)"
    using gdt tss idt assms(1) unfolding k2 by (simp add: start_def outcome_simps boot_validate_outcome)
  then show thesis using es by (rule that)
qed

section \<open>The memory tests\<close>

lemma outcome_vm_call [outcome_simps]:
  "outcome_of (vm_call f) k = (case f (vm k) of None \<Rightarrow> Panicked k | Some (a, s) \<Rightarrow> Returned a (k\<lparr>vm := s\<rparr>))"
  by (simp add: vm_call_def outcome_simps split: option.splits)

lemma outcome_fa_call [outcome_simps]:
  "outcome_of (fa_call f) k = (case f (snd (vm k)) of None \<Rightarrow> Panicked k | Some (a, fa) \<Rightarrow> Returned a (k\<lparr>vm := (fst (vm k), fa)\<rparr>))"
  by (simp add: fa_call_def outcome_simps split: option.splits)

lemma outcome_vm_read [outcome_simps]:
  "outcome_of (vm_read f) k = (case f (fst (vm k)) of None \<Rightarrow> Panicked k | Some a \<Rightarrow> Returned a k)"
  by (simp add: vm_read_def outcome_simps split: option.splits)

lemma outcome_fa_free [outcome_simps]:
  "outcome_of (fa_free f) k = (case FrameAllocator_free_frame f (snd (vm k)) of None \<Rightarrow> Panicked k
     | Some fa \<Rightarrow> Returned () (k\<lparr>vm := (fst (vm k), fa)\<rparr>))"
  by (simp add: fa_free_def outcome_simps split: option.splits)

lemma outcome_prints [outcome_simps]:
  "outcome_of (print_error t e) k = Returned () k" "outcome_of (print_free_frames t) k = Returned () k"
  "outcome_of (boot_print_info info) k = Returned () k" "outcome_of boot_canonical_test k = Returned () k"
  "outcome_of boot_checkpoint k = Returned () k"
  by (simp_all add: print_error_def print_free_frames_def boot_print_info_def boot_canonical_test_def boot_checkpoint_def outcome_simps)

lemma boot_print_map_outcome [outcome_simps]: "outcome_of (boot_print_map entries) k = Returned () k"
proof -
  have "outcome_of (kfor xs (\<lambda>(index, entry). kblock [line_hex32 ''ENTRY '' (of_nat index), line_hex64 ''  BASE: 0x'' (base_addr entry),
      line_hex64 ''  LENGTH: 0x'' (region_length entry), line_hex32 ''  TYPE: 0x'' (entry_type entry),
      line_hex32 ''  ATTR: 0x'' (MemoryMapEntry.attributes entry)])) k = Returned () k" for xs :: "(nat \<times> MemoryMapEntry) list"
    by (rule outcome_kfor_says) (auto simp: outcome_simps)
  then show ?thesis by (simp add: boot_print_map_def outcome_simps)
qed




section \<open>The address space\<close>

text \<open>What the boot sequence needs of the statics it maps: they are aligned as their types require and lie below \<open>2\<^sup>47\<close>.\<close>

definition user_addresses_ok :: "Addresses \<Rightarrow> bool" where
  "user_addresses_ok L \<longleftrightarrow> unat (user_entry_addr L) < 2 ^ 47 \<and> unat (user_stack_addr L) < 2 ^ 47
     \<and> user_stack_addr L mod PAGE_SIZE = 0 \<and> unat (syscall_stack_addr L) < 2 ^ 47 \<and> syscall_entry_addr L \<noteq> 0"





















text \<open>A machine on which the boot sequence can run: the memory map does not end in the last page and has 1577 usable frames.\<close>

definition memory_ok :: "BootInfo \<Rightarrow> MemoryMapEntry list \<Rightarrow> bool" where
  "memory_ok info entries \<longleftrightarrow> (\<forall>e \<in> set entries. entry_type e = 1 \<longrightarrow> unat (base_addr e) \<le> 2 ^ 64 - 4096)
     \<and> unat (kernel_phys_end info) \<le> 2 ^ 64 - 4096
     \<and> 1577 \<le> card (usable_memory entries (kernel_phys_start info) (kernel_phys_end info))"



section \<open>Properties\<close>








text \<open>The complaint of the first check that fails.\<close>

definition boot_complaint :: "BootInfo option \<Rightarrow> string" where
  "boot_complaint boot_info = (case boot_info of None \<Rightarrow> ''BOOTINFO NULL'' | Some info \<Rightarrow> ''BOOTINFO PTR OK'' @ crlf @ ''BOOTINFO READ OK'' @ crlf @
     (if magic info \<noteq> BOOT_INFO_MAGIC then ''BAD MAGIC'' else if version info \<noteq> BOOT_INFO_VERSION then ''BAD VERSION''
     else if memory_map_addr info = 0 then ''BAD MEMORY MAP ADDRESS'' else if memory_map_count info = 0 then ''BAD MEMORY MAP COUNT''
     else if memory_map_entry_size info \<noteq> MEMORY_MAP_ENTRY_SIZE then ''BAD MEMORY MAP ENTRY SIZE''
     else if info_size info < BOOT_INFO_SIZE then ''BAD SIZE'' else ''BAD KERNEL RANGE''))"

lemma printed_require: "printed (require ok t) k = (if ok then [] else t @ crlf)"
  by (simp add: require_def printed_simps outcome_simps)

lemma first_complaint:
  assumes "\<not> (a \<and> b \<and> c \<and> d \<and> e \<and> f \<and> g)"
  shows "printed (kblock [sayln x, sayln y, require a A, require b B, require c C, require d D, require e E, require f F, require g G, sayln z]) k
     = x @ crlf @ y @ crlf @ (if \<not> a then A else if \<not> b then B else if \<not> c then C else if \<not> d then D else if \<not> e then E
         else if \<not> f then F else G) @ crlf"
  using assms by (simp add: printed_simps outcome_simps printed_require)

lemma boot_complaint_printed:
  assumes "\<not> boot_info_ok info"
  shows "printed (boot_validate (Some info)) k = ''KERNEL ENTRY'' @ crlf @ boot_complaint (Some info) @ crlf"
proof -
  have block: "printed (kbind (sayln t) (\<lambda>_. kbind b (\<lambda>_. kret i))) s = t @ crlf @ printed b s"
    for t and b :: "(Kernel, unit) kernel" and i :: BootInfo and s
    by (simp add: printed_kbind printed_basic outcome_basic split: outcome.split)
  have "\<not> (magic info = BOOT_INFO_MAGIC \<and> version info = BOOT_INFO_VERSION \<and> memory_map_addr info \<noteq> 0 \<and> memory_map_count info \<noteq> 0
      \<and> memory_map_entry_size info = MEMORY_MAP_ENTRY_SIZE \<and> \<not> info_size info < BOOT_INFO_SIZE
      \<and> \<not> kernel_phys_end info \<le> kernel_phys_start info)"
    using assms unfolding boot_info_ok_def not_le not_less .
  note complaint = first_complaint [OF this]
  show ?thesis
    unfolding boot_validate_def option.case block complaint boot_complaint_def not_not by (simp only: append_assoc)
qed

text \<open>
  C34.  The kernel accepts exactly valid boot information.  A null pointer, a wrong magic number, version or entry size, a missing
  memory map, a structure that is too small or an empty kernel range stops it before it has changed anything, and the
  last line it prints names the first check that failed.  Otherwise it goes on.
\<close>

theorem boot_info_exact:
  "if boot_info \<noteq> None \<and> boot_info_ok (the boot_info) then outcome_of (boot_validate boot_info) k = Returned (the boot_info) k
   else outcome_of (start L boot_info) k = Halted k
     \<and> printed (start L boot_info) k = ''KERNEL ENTRY'' @ crlf @ boot_complaint boot_info @ crlf"
proof (cases boot_info)
  case None
  have "printed (boot_validate None) k = ''KERNEL ENTRY'' @ crlf @ boot_complaint None @ crlf"
    by (simp add: boot_validate_def boot_complaint_def printed_simps outcome_simps)
  then show ?thesis using None by (simp add: start_def outcome_kbind printed_kbind boot_validate_outcome)
next
  case (Some info)
  then show ?thesis
    using boot_complaint_printed [of info k]
    by (cases "boot_info_ok info") (simp_all add: start_def outcome_kbind printed_kbind boot_validate_outcome)
qed

text \<open>
  C33.  Valid boot information takes the kernel to its breakpoint with the tables loaded: all checks of the segments, the task
  register, the double-fault stack and the interrupt table pass; \<open>GDTR\<close>, \<open>IDTR\<close> and \<open>TR\<close> point to the tables, gate 3 leads
  to the breakpoint's entry point, and memory, the objects and the registers of the system-call path are untouched.
\<close>

theorem boot_reaches_breakpoint:
  assumes "boot_info_ok info" and "boot_addresses_ok L" and "length (GDT k) = 7" and "length (IDT k) = 256"
  shows "\<exists>k'. outcome_of (start L (Some info)) k = Returned info k'
    \<and> gdt_verify L k' \<and> idt_verify L k' \<and> verify_task_register k' \<and> GDT k' = booted_gdt L
    \<and> (\<forall>v < 33. gate_offset (IDT k' ! v) = (if v = 32 then irq0_addr L else isr_addr L v) \<and> gate_present (IDT k' ! v))
    \<and> vm k' = vm k \<and> cr3 k' = cr3 k \<and> msrs k' = msrs k \<and> (tests_ready k \<longrightarrow> tests_ready k')"
proof -
  obtain es where es: "outcome_of (start L (Some info)) k = Returned info (tables_loaded L es k)" "length es = 256"
    "\<forall>v < 256. es ! v = gate_of L v (IDT k ! v)" by (rule start_outcome [OF assms])
  have "es ! v = gate_of L v (IDT k ! v)" if "v < 33" for v using es(3) that by simp
  moreover have "gate_offset (gate_of L v e) = (if v = 32 then irq0_addr L else isr_addr L v) \<and> gate_present (gate_of L v e)"
    if "v < 33" for v e using that gate_of_fields(1) [of v L e] gate_of_fields(2) [of L e] gate_of_fields(4) [of v L e] by (cases "v = 32") simp_all
  ultimately have "\<forall>v < 33. gate_offset (es ! v) = (if v = 32 then irq0_addr L else isr_addr L v) \<and> gate_present (es ! v)" by simp
  with es(1) show ?thesis
    by (intro exI [of _ "tables_loaded L es k"])
      (simp add: tables_loaded_def gdt_verify_def idt_verify_def read_gdtr_def read_idtr_def GDT_SIZE_def IDT_ENTRIES_def
        verify_task_register_def task_register_def TSS_SELECTOR_def tests_ready_def Let_def)
qed

section \<open>Witnesses\<close>

definition info_16M :: BootInfo where
  "info_16M = \<lparr>magic = BOOT_INFO_MAGIC, version = 2, info_size = 64, boot_drive = 0x80, kernel_phys_start = 0x200000,
     kernel_phys_end = 0x210000, memory_map_addr = 0x8000, memory_map_count = 1, memory_map_entry_size = 24\<rparr>"

lemma info_16M_ok: "boot_info_ok info_16M" "memory_ok info_16M [ram_16M]"
proof -
  show "boot_info_ok info_16M"
    by (simp add: boot_info_ok_def info_16M_def BOOT_INFO_VERSION_def MEMORY_MAP_ENTRY_SIZE_def BOOT_INFO_SIZE_def)
  have "{528..<4000} \<subseteq> usable_memory [ram_16M] 0x200000 0x210000"
    by (auto simp: usable_memory_def usable_frame_def meets_range_def MAX_FRAMES_eq)
  moreover have sub: "usable_memory [ram_16M] 0x200000 0x210000 \<subseteq> {..<MAX_FRAMES}" by (rule usable_memory_frames)
  ultimately have "card {528..<4000 :: nat} \<le> card (usable_memory [ram_16M] 0x200000 0x210000)"
    using finite_subset [OF sub] by (intro card_mono) simp_all
  then show "memory_ok info_16M [ram_16M]" by (simp add: memory_ok_def info_16M_def)
qed

lemma example_user_addresses: "user_addresses_ok example_addresses" "boot_addresses_ok example_addresses"
  using example_addresses_ok by (simp_all add: user_addresses_ok_def boot_addresses_ok_def example_addresses_def PAGE_SIZE_def)



theorem boot_reaches_breakpoint_witness:
  "\<exists>k'. outcome_of (start example_addresses (Some info_16M)) (reset_kernel (\<lambda>_. 0)) = Returned info_16M k'
     \<and> gate_offset (IDT k' ! 3) = 0x101030"
proof -
  have k: "length (GDT (reset_kernel (\<lambda>_. 0))) = 7" "length (IDT (reset_kernel (\<lambda>_. 0))) = 256"
    using reset_tables_sizes by (simp_all add: reset_kernel_def Kernel.defs cpu_tables.defs)
  have "isr_addr example_addresses 3 = 0x101030" by (simp add: example_addresses_def)
  with boot_reaches_breakpoint [OF info_16M_ok(1) example_user_addresses(2) k] show ?thesis by (elim exE conjE) (intro exI conjI, auto)
qed

end
