(* ===== verification/Stage2.thy ===== *)
theory Stage2
  imports Elf_Loader Boot_Outcome
begin

text \<open>
  The whole of stage 2 (\<open>boot/stage2/stage2.asm\<close>): the way through protected mode into long mode, the boot information it
  builds for the kernel at \<open>0x70000\<close>, and the program from its entry to the jump to the kernel.  Reading that boot information
  back as the kernel does gives the handover between loader and kernel.

  The value is the address jumped to and the pointer in \<open>RDI\<close>.  The return addresses pushed on the long-mode stack below
  \<open>0x90000\<close> are left out; no statement is about those bytes.
\<close>

section \<open>Long mode\<close>



section \<open>The boot information\<close>





section \<open>The program\<close>






section \<open>Reading back\<close>










section \<open>The handover\<close>








section \<open>Properties\<close>




end
