(* ===== verification/Spec2Isabelle.thy ===== *)
theory Spec2Isabelle
  imports Context_Switch Handlers Stage2
begin

text \<open>
  A verification library for the Unbound-OS kernel.

  \<^item> \<open>Prelude\<close>: machine integers, outcomes of code that may panic, arrays, search loops.
  \<^item> \<open>Slots\<close>: generation-tagged handles and tables of recycled slots.
  \<^item> \<open>Objects\<close>: the kernel object table.
  \<^item> \<open>Ipc\<close>: messages, ring buffers and endpoints.
\<close>

end
